(* ===== verification/Kernel_Prelude.thy ===== *)
theory Kernel_Prelude
  imports Main "HOL-Library.Word" "HOL-Library.Monad_Syntax"
begin

text \<open>
  Shared vocabulary of the development: the C integer types of
  \<^verbatim>\<open>include/int_types.h\<close> as words, checked array accesses, and the generic lemmas
  on words, lists and the option monad that the component theories use.

  A definition that returns \<open>'a option\<close> models C code that may run into undefined
  behaviour: \<open>None\<close> stands for a null pointer dereference, an access outside an array, or
  (for the busy-wait loops of the UART) a call that never returns. Error codes of the
  program itself are ordinary values.
\<close>

unbundle bit_operations_syntax

type_synonym u8 = "8 word"      \<comment> \<open>\<^verbatim>\<open>uint8_t\<close>, \<^verbatim>\<open>unsigned char\<close>, ARM's plain \<^verbatim>\<open>char\<close>\<close>
type_synonym u32 = "32 word"    \<comment> \<open>\<^verbatim>\<open>uint32_t\<close>, \<^verbatim>\<open>size_t\<close>, addresses\<close>
type_synonym i32 = "32 word"    \<comment> \<open>\<^verbatim>\<open>int\<close>: read with \<open>sint\<close>\<close>
type_synonym u64 = "64 word"    \<comment> \<open>\<^verbatim>\<open>uint64_t\<close>\<close>

named_theorems frame_simps \<open>what an operation leaves unchanged\<close>
named_theorems abs_simps \<open>how an operation acts on the abstract view of its component\<close>

subsection \<open>Arrays of fixed length\<close>

definition arr_get :: "'a list \<Rightarrow> nat \<Rightarrow> 'a option" where
  "arr_get xs i = (if i < length xs then Some (xs ! i) else None)"

definition arr_set :: "'a list \<Rightarrow> nat \<Rightarrow> 'a \<Rightarrow> 'a list option" where
  "arr_set xs i v = (if i < length xs then Some (xs[i := v]) else None)"

lemma arr_get_in [simp]: "i < length xs \<Longrightarrow> arr_get xs i = Some (xs ! i)"
  by (simp add: arr_get_def)

lemma arr_get_out [simp]: "length xs \<le> i \<Longrightarrow> arr_get xs i = None"
  by (simp add: arr_get_def)

lemma arr_get_eq_Some [simp]: "arr_get xs i = Some v \<longleftrightarrow> i < length xs \<and> v = xs ! i"
  by (auto simp: arr_get_def)

lemma arr_set_in [simp]: "i < length xs \<Longrightarrow> arr_set xs i v = Some (xs[i := v])"
  by (simp add: arr_set_def)

lemma arr_set_out [simp]: "length xs \<le> i \<Longrightarrow> arr_set xs i v = None"
  by (simp add: arr_set_def)

subsection \<open>Lists\<close>

lemma nth_list_update_if:
  "j < length xs \<Longrightarrow> xs[i := v] ! j = (if i = j then v else xs ! j)"
  by auto

lemma last_in_set_iff [simp]: "ns \<noteq> [] \<Longrightarrow> last ns \<in> set ns"
  by simp

lemma map_inj_cancel:
  assumes "\<And>x. g (f x) = x"
  shows "map g (map f xs) = xs"
  using assms by (induction xs) auto

lemma fold_fill:
  "n \<le> length xs \<Longrightarrow> fold (\<lambda>i qs. qs[i := c]) [0..<n] xs = replicate n c @ drop n xs"
proof (induction n)
  case (Suc n)
  then have "drop n xs = xs ! n # drop (Suc n) xs" by (simp add: Cons_nth_drop_Suc)
  with Suc show ?case by (simp add: list_update_append replicate_append_same)
qed simp

subsection \<open>Words\<close>

lemma unat_u32_add1: "unat (x :: u32) + 1 < 2 ^ 32 \<Longrightarrow> unat (x + 1) = unat x + 1"
  by (simp add: unat_word_ariths)

lemma unat_u32_sub1: "x \<noteq> 0 \<Longrightarrow> unat ((x :: u32) - 1) = unat x - 1"
  by (simp add: unat_sub word_le_nat_alt unat_gt_0 Suc_leI)

lemma unat_eq_0_u32 [simp]: "unat (x :: u32) = 0 \<longleftrightarrow> x = 0"
  by (simp add: unat_eq_0)

lemma word_add_neq [simp]:
  "(a :: u32) + 1 \<noteq> a" "(a :: u32) + 2 \<noteq> a" "(a :: u32) + 3 \<noteq> a"
  "a \<noteq> a + 1" "a \<noteq> a + 2" "a \<noteq> a + 3"
  by simp_all

subsection \<open>Transition systems\<close>

text \<open>
  The states a step relation reaches from the initial ones, and the interface of an invariant:
  it holds initially and every step from a state that has it keeps it.
\<close>

inductive reachable :: "('s \<Rightarrow> bool) \<Rightarrow> ('s \<Rightarrow> 's \<Rightarrow> bool) \<Rightarrow> 's \<Rightarrow> bool" for I R where
  reachable_init: "I s \<Longrightarrow> reachable I R s"
| reachable_step: "reachable I R s \<Longrightarrow> R s s' \<Longrightarrow> reachable I R s'"

locale inductive_invariant =
  fixes start :: "'s \<Rightarrow> bool" and step :: "'s \<Rightarrow> 's \<Rightarrow> bool" and inv :: "'s \<Rightarrow> bool"
  assumes start_inv: "start s \<Longrightarrow> inv s"
    and step_inv: "inv s \<Longrightarrow> step s s' \<Longrightarrow> inv s'"
begin

lemma reachable_inv: "reachable start step s \<Longrightarrow> inv s"
  by (induction rule: reachable.induct) (auto intro: start_inv step_inv)

lemma reachable_inv_steps: "reachable start step s \<Longrightarrow> step\<^sup>*\<^sup>* s s' \<Longrightarrow> inv s'"
proof -
  assume "step\<^sup>*\<^sup>* s s'" and "reachable start step s"
  then have "reachable start step s'"
    by (induction rule: rtranclp_induct) (auto intro: reachable_step)
  then show ?thesis by (rule reachable_inv)
qed

end

text \<open>
  What every step keeps, it keeps over a run: the interface of a relation between earlier and later states
  that is reflexive and transitive and holds of every step from a state with the invariant.
\<close>

locale kept_over_runs = inductive_invariant +
  fixes later :: "'s \<Rightarrow> 's \<Rightarrow> bool"
  assumes later_refl: "later s s"
    and later_trans: "later s1 s2 \<Longrightarrow> later s2 s3 \<Longrightarrow> later s1 s3"
    and step_later: "inv s \<Longrightarrow> step s s' \<Longrightarrow> later s s'"
begin

lemma run_later: "reachable start step s \<Longrightarrow> step\<^sup>*\<^sup>* s s' \<Longrightarrow> later s s'"
proof -
  assume "step\<^sup>*\<^sup>* s s'" and r: "reachable start step s"
  then show ?thesis
    by (induction rule: rtranclp_induct)
      (auto intro: later_refl later_trans step_later reachable_inv_steps [OF r])
qed

end

end
