(* ===== verification/Machine.thy ===== *)
theory Machine
  imports Kernel_Prelude
begin

text \<open>
  The machine the kernel runs on, as far as the C code sees it: the RAM as a flat array of
  bytes (little-endian, as the ARM920T of the TS-7200 runs), the memory-mapped device
  registers of \<^verbatim>\<open>include/ts7200.h\<close>, and the addresses fixed by
  \<^verbatim>\<open>include/internal/mem.h\<close> and the linker script \<^verbatim>\<open>orex.ld\<close>.

  The devices are not code of the repository, so they are a parameter: the field \<open>dev\<close>
  gives the value a volatile read of a register returns, as a function of the register and of
  every register access made before. The field \<open>io\<close> is that history; it is also what the
  outside world observes. No theorem assumes anything of \<open>dev\<close> unless it says so.
\<close>

subsection \<open>State\<close>

datatype io_event = RegRead u32 u32 | RegWrite u32 u32

record machine =
  mem :: "u32 \<Rightarrow> u8"
  io :: "io_event list"
  dev :: "u32 \<Rightarrow> io_event list \<Rightarrow> u32"
  irq_stack_start :: u32      \<comment> \<open>linker symbol \<^verbatim>\<open>_irq_stack_start\<close>\<close>

subsection \<open>Bytes and words in RAM\<close>

definition load32 :: "(u32 \<Rightarrow> u8) \<Rightarrow> u32 \<Rightarrow> u32" where
  "load32 m a = ucast (m a) OR push_bit 8 (ucast (m (a + 1)))
     OR push_bit 16 (ucast (m (a + 2))) OR push_bit 24 (ucast (m (a + 3)))"

definition store32 :: "(u32 \<Rightarrow> u8) \<Rightarrow> u32 \<Rightarrow> u32 \<Rightarrow> (u32 \<Rightarrow> u8)" where
  "store32 m a w = m(a := ucast w, a + 1 := ucast (drop_bit 8 w),
     a + 2 := ucast (drop_bit 16 w), a + 3 := ucast (drop_bit 24 w))"

lemma word32_byte_split:
  fixes w :: u32
  shows "ucast (ucast w :: u8) OR push_bit 8 (ucast (ucast (drop_bit 8 w) :: u8))
     OR push_bit 16 (ucast (ucast (drop_bit 16 w) :: u8))
     OR push_bit 24 (ucast (ucast (drop_bit 24 w) :: u8)) = w"
proof (rule bit_word_eqI)
  fix n :: nat
  assume "n < LENGTH(32)"
  then consider "n < 8" | "8 \<le> n" "n < 16" | "16 \<le> n" "n < 24" | "24 \<le> n" "n < 32"
    by fastforce
  then show "bit (ucast (ucast w :: u8) OR push_bit 8 (ucast (ucast (drop_bit 8 w) :: u8))
     OR push_bit 16 (ucast (ucast (drop_bit 16 w) :: u8))
     OR push_bit 24 (ucast (ucast (drop_bit 24 w) :: u8)) :: u32) n \<longleftrightarrow> bit w n"
    by cases (auto simp: bit_simps)
qed

lemma store32_same:
  "store32 m a w a = ucast w" "store32 m a w (a + 1) = ucast (drop_bit 8 w)"
  "store32 m a w (a + 2) = ucast (drop_bit 16 w)" "store32 m a w (a + 3) = ucast (drop_bit 24 w)"
  by (simp_all add: store32_def)

lemma load32_store32 [simp]: "load32 (store32 m a w) a = w"
  by (simp add: load32_def store32_same word32_byte_split)

lemma store32_other:
  "b \<notin> {a, a + 1, a + 2, a + 3} \<Longrightarrow> store32 m a w b = m b"
  by (auto simp: store32_def)

lemma load32_store32_other:
  "{b, b + 1, b + 2, b + 3} \<inter> {a, a + 1, a + 2, a + 3} = {} \<Longrightarrow>
     load32 (store32 m a w) b = load32 m b"
  unfolding load32_def by (subst store32_other, blast)+ (rule refl)

subsection \<open>Ranges of addresses\<close>

text \<open>The addresses \<open>a, a + 1, \<dots>, a + n - 1\<close> and the bytes stored there.\<close>

definition addr_range :: "u32 \<Rightarrow> nat \<Rightarrow> u32 set" where
  "addr_range a n = (\<lambda>k. a + of_nat k) ` {..<n}"

definition bytes_at :: "(u32 \<Rightarrow> u8) \<Rightarrow> u32 \<Rightarrow> nat \<Rightarrow> u8 list" where
  "bytes_at m a n = map (\<lambda>k. m (a + of_nat k)) [0..<n]"

lemma of_nat_u32_inj: "j < 2 ^ 32 \<Longrightarrow> k < 2 ^ 32 \<Longrightarrow> (of_nat j :: u32) = of_nat k \<longleftrightarrow> j = k"
  by (simp add: word_of_nat_eq_iff take_bit_nat_eq_self)

lemma addr_range_0 [simp]: "addr_range a 0 = {}"
  by (simp add: addr_range_def)

lemma addr_range_Suc: "addr_range a (Suc n) = insert (a + of_nat n) (addr_range a n)"
  by (simp add: addr_range_def lessThan_Suc)

lemma addr_rangeI: "k < n \<Longrightarrow> a + of_nat k \<in> addr_range a n"
  by (auto simp: addr_range_def)

lemma addr_range_next: "n < 2 ^ 32 \<Longrightarrow> a + of_nat n \<notin> addr_range a n"
  by (auto simp: addr_range_def of_nat_u32_inj)

lemma bytes_at_0 [simp]: "bytes_at m a 0 = []"
  by (simp add: bytes_at_def)

lemma bytes_at_Suc: "bytes_at m a (Suc n) = bytes_at m a n @ [m (a + of_nat n)]"
  by (simp add: bytes_at_def)

lemma length_bytes_at [simp]: "length (bytes_at m a n) = n"
  by (simp add: bytes_at_def)

lemma bytes_at_cong: "(\<And>b. b \<in> addr_range a n \<Longrightarrow> m b = m' b) \<Longrightarrow> bytes_at m a n = bytes_at m' a n"
  by (simp add: bytes_at_def addr_rangeI)

lemma addr_range_4: "addr_range a 4 = {a, a + 1, a + 2, a + 3}"
  by (auto simp: addr_range_def lessThan_nat_numeral lessThan_Suc)

lemma load32_cong: "(\<And>b. b \<in> addr_range a 4 \<Longrightarrow> m b = m' b) \<Longrightarrow> load32 m a = load32 m' a"
  by (simp add: load32_def addr_range_4)

lemma store32_outside: "b \<notin> addr_range a 4 \<Longrightarrow> store32 m a w b = m b"
  by (simp add: addr_range_4 store32_other)

lemma load32_store32_outside:
  "addr_range b 4 \<inter> addr_range a 4 = {} \<Longrightarrow> load32 (store32 m a w) b = load32 m b"
  unfolding addr_range_4 by (rule load32_store32_other)

subsection \<open>Device registers\<close>

definition reg_read :: "u32 \<Rightarrow> 'a machine_scheme \<Rightarrow> u32 \<times> 'a machine_scheme" where
  "reg_read a s = (let v = dev s a (io s) in (v, s\<lparr>io := io s @ [RegRead a v]\<rparr>))"

definition reg_write :: "u32 \<Rightarrow> u32 \<Rightarrow> 'a machine_scheme \<Rightarrow> 'a machine_scheme" where
  "reg_write a v s = s\<lparr>io := io s @ [RegWrite a v]\<rparr>"

text \<open>\<open>REG(base, offset) |= mask\<close> and \<open>REG(base, offset) &= ~mask\<close>.\<close>

definition reg_set_bits :: "u32 \<Rightarrow> u32 \<Rightarrow> 'a machine_scheme \<Rightarrow> 'a machine_scheme" where
  "reg_set_bits a bits s = (let (v, s) = reg_read a s in reg_write a (v OR bits) s)"

definition reg_clear_bits :: "u32 \<Rightarrow> u32 \<Rightarrow> 'a machine_scheme \<Rightarrow> 'a machine_scheme" where
  "reg_clear_bits a bits s = (let (v, s) = reg_read a s in reg_write a (v AND NOT bits) s)"

lemma reg_read_frame [frame_simps, simp]:
  "mem (snd (reg_read a s)) = mem s" "dev (snd (reg_read a s)) = dev s"
  "irq_stack_start (snd (reg_read a s)) = irq_stack_start s"
  "machine.more (snd (reg_read a s)) = machine.more s"
  by (simp_all add: reg_read_def Let_def)

lemma reg_write_frame [frame_simps, simp]:
  "mem (reg_write a v s) = mem s" "dev (reg_write a v s) = dev s"
  "irq_stack_start (reg_write a v s) = irq_stack_start s"
  "machine.more (reg_write a v s) = machine.more s"
  by (simp_all add: reg_write_def)

subsection \<open>Register map of the TS-7200\<close>

definition TIMER3_BASE :: u32 where
  "TIMER3_BASE = 0x80810080"

definition TIMER4_BASE :: u32 where
  "TIMER4_BASE = 0x80810060"

definition LDR_OFFSET :: u32 where
  "LDR_OFFSET = 0"

definition CRTL_OFFSET :: u32 where
  "CRTL_OFFSET = 8"

definition CLR_OFFSET :: u32 where
  "CLR_OFFSET = 0xc"

definition ENABLE_MASK :: u32 where
  "ENABLE_MASK = 0x80"

definition MODE_MASK :: u32 where
  "MODE_MASK = 0x40"

definition TIMER_SLOW_CLOCK_PER_SEC :: u32 where
  "TIMER_SLOW_CLOCK_PER_SEC = 2000"

definition TIMER4_VAL_LOW_OFFSET :: u32 where
  "TIMER4_VAL_LOW_OFFSET = 0"

definition TIMER4_VAL_HIGH_OFFSET :: u32 where
  "TIMER4_VAL_HIGH_OFFSET = 4"

definition TIMER4_VAL_MASK :: u32 where
  "TIMER4_VAL_MASK = 0xFF"

definition TIMER4_ENABLE_MASK :: u32 where
  "TIMER4_ENABLE_MASK = 0x100"

definition UART1_BASE :: u32 where
  "UART1_BASE = 0x808c0000"

definition UART2_BASE :: u32 where
  "UART2_BASE = 0x808d0000"

definition UART_DATA_OFFSET :: u32 where
  "UART_DATA_OFFSET = 0"

definition DATA_MASK :: u32 where
  "DATA_MASK = 0xff"

definition UART_LCRH_OFFSET :: u32 where
  "UART_LCRH_OFFSET = 8"

definition STP2_MASK :: u32 where
  "STP2_MASK = 8"

definition FEN_MASK :: u32 where
  "FEN_MASK = 0x10"

definition WLEN_MASK :: u32 where
  "WLEN_MASK = 0x60"

definition UART_LCRM_OFFSET :: u32 where
  "UART_LCRM_OFFSET = 0xc"

definition UART_LCRL_OFFSET :: u32 where
  "UART_LCRL_OFFSET = 0x10"

definition UART_CTLR_OFFSET :: u32 where
  "UART_CTLR_OFFSET = 0x14"

definition MSIEN_MASK :: u32 where
  "MSIEN_MASK = 8"

definition RIEN_MASK :: u32 where
  "RIEN_MASK = 0x10"

definition TIEN_MASK :: u32 where
  "TIEN_MASK = 0x20"

definition UART_FLAG_OFFSET :: u32 where
  "UART_FLAG_OFFSET = 0x18"

definition CTS_MASK :: u32 where
  "CTS_MASK = 1"

definition TXFF_MASK :: u32 where
  "TXFF_MASK = 0x20"

definition RXFF_MASK :: u32 where
  "RXFF_MASK = 0x40"

definition UART_INTR_OFFSET :: u32 where
  "UART_INTR_OFFSET = 0x1c"

definition MIS_MASK :: u8 where
  "MIS_MASK = 1"

definition RIS_MASK :: u8 where
  "RIS_MASK = 2"

definition TIS_MASK :: u8 where
  "TIS_MASK = 4"

definition VIC2_BASE :: u32 where
  "VIC2_BASE = 0x800C0000"

definition VIC_INT_EN_OFFSET :: u32 where
  "VIC_INT_EN_OFFSET = 0x10"

definition VIC_VEC_ADDR_OFFSET :: u32 where
  "VIC_VEC_ADDR_OFFSET = 0x30"

definition VIC_VEC_ADDR_N_OFFSET :: "u32 \<Rightarrow> u32" where "VIC_VEC_ADDR_N_OFFSET n = 0x100 + 4 * n"
definition VIC_VEC_CTRL_N_OFFSET :: "u32 \<Rightarrow> u32" where "VIC_VEC_CTRL_N_OFFSET n = 0x200 + 4 * n"
definition VIC_VEC_CTRL_EN_MASK :: u32 where
  "VIC_VEC_CTRL_EN_MASK = 0x20"

definition VIC2_TIMER3_INT :: u32 where
  "VIC2_TIMER3_INT = 19"

definition VIC2_UART1_INT :: u32 where
  "VIC2_UART1_INT = 20"

definition VIC2_UART2_INT :: u32 where
  "VIC2_UART2_INT = 22"

subsection \<open>Stacks\<close>

text \<open>
  \<open>stack_start\<close> is the linker symbol \<^verbatim>\<open>_stack_start\<close>: \<open>ORIGIN(ram) + LENGTH(ram)\<close> of
  \<^verbatim>\<open>orex.ld\<close>. Every task has an 8 KB stack below the kernel's.
\<close>

definition stack_start :: u32 where
  "stack_start = 0x00218000 + 0x1DC5000"

definition MEM_KERNEL_STACK_SIZE :: u32 where
  "MEM_KERNEL_STACK_SIZE = 0x2000"

definition MEM_TASK_STACK_SIZE :: u32 where
  "MEM_TASK_STACK_SIZE = 0x2000"

definition MEM_TASK_STACK_START :: "u32 \<Rightarrow> u32" where
  "MEM_TASK_STACK_START task_num = (stack_start - MEM_KERNEL_STACK_SIZE) - MEM_TASK_STACK_SIZE * task_num"

lemmas task_stack_defs = MEM_TASK_STACK_START_def MEM_KERNEL_STACK_SIZE_def MEM_TASK_STACK_SIZE_def stack_start_def

subsection \<open>The time base\<close>

definition clock :: "'a machine_scheme \<Rightarrow> u64 \<times> 'a machine_scheme" where
  "clock s =
     (let (low, s) = reg_read (TIMER4_BASE + TIMER4_VAL_LOW_OFFSET) s;
          ret = (ucast low :: u64);
          (high, s) = reg_read (TIMER4_BASE + TIMER4_VAL_HIGH_OFFSET) s;
          ret = ret OR push_bit 32 (ucast (high AND TIMER4_VAL_MASK))
      in (ret, s))"

text \<open>The 40-bit counter is read as its low 32 bits and its high 8 bits.\<close>

lemma byte_mask_u32: "(0xFF :: u32) = mask 8"
  by (simp add: mask_eq_exp_minus_1)

lemma clock_bits:
  assumes "clock s = (t, s')"
  shows "drop_bit 40 t = 0" and "ucast t = dev s (TIMER4_BASE + TIMER4_VAL_LOW_OFFSET) (io s)"
proof -
  from assms obtain v :: u32 where
    t: "t = ucast (dev s (TIMER4_BASE + TIMER4_VAL_LOW_OFFSET) (io s)) OR
      push_bit 32 (ucast (v AND mask 8))"
    by (auto simp: clock_def reg_read_def Let_def TIMER4_VAL_MASK_def byte_mask_u32)
  show "drop_bit 40 t = 0"
    unfolding t by (rule bit_word_eqI) (auto simp: bit_simps dest: bit_imp_le_length)
  show "ucast t = dev s (TIMER4_BASE + TIMER4_VAL_LOW_OFFSET) (io s)"
    unfolding t by (rule bit_word_eqI) (auto simp: bit_simps)
qed

lemma clock_frame [frame_simps]:
  "clock s = (t, s') \<Longrightarrow> mem s' = mem s \<and> dev s' = dev s \<and>
     irq_stack_start s' = irq_stack_start s \<and> machine.more s' = machine.more s"
  by (auto simp: clock_def reg_read_def Let_def)

end
