(* ===== verification/Queue.thy ===== *)
theory Queue
  imports Kernel_Prelude
begin

text \<open>
  The intrusive singly linked queue of \<^verbatim>\<open>src/queue/queue.c\<close>: its structs, its
  operations, the predicate that a queue header and the node heap represent a list of nodes,
  and what every operation does to that list. The interface the scheduler, the event handler
  and the servers rely on is the locale \<open>linked_fifo\<close>; \<open>queue.c\<close> is interpreted in it.

  Nodes are members of other structs, so a node is named by a value of a type \<open>'n\<close> and the
  node heap maps every name to the node's contents; \<open>'d\<close> names what the \<^verbatim>\<open>void *data\<close>
  pointers refer to. \<open>None\<close> is the null pointer.
\<close>

subsection \<open>Data\<close>

record ('d, 'n) queue_node_t =
  qn_data :: "'d option"
  qn_next :: "'n option"

record 'n queue_t =
  front :: "'n option"
  "back" :: "'n option"
  elements :: u32

type_synonym ('d, 'n) node_heap = "'n \<Rightarrow> ('d, 'n) queue_node_t"

abbreviation set_next :: "('d, 'n) node_heap \<Rightarrow> 'n \<Rightarrow> 'n option \<Rightarrow> ('d, 'n) node_heap" where
  "set_next h n p \<equiv> h(n := (h n)\<lparr>qn_next := p\<rparr>)"

subsection \<open>Operations\<close>

definition queue_node_init :: "'n \<Rightarrow> 'd option \<Rightarrow> ('d, 'n) node_heap \<Rightarrow> ('d, 'n) node_heap" where
  "queue_node_init ctx d h = h(ctx := (h ctx)\<lparr>qn_data := d, qn_next := None\<rparr>)"

definition queue_init :: "'n queue_t" where
  "queue_init = \<lparr>front = None, back = None, elements = 0\<rparr>"

definition queue_put ::
  "'n queue_t \<Rightarrow> ('d, 'n) node_heap \<Rightarrow> 'n option \<Rightarrow> (u8 \<times> 'n queue_t \<times> ('d, 'n) node_heap) option"
where
  "queue_put ctx h node =
     (case node of
        None \<Rightarrow> Some (1, ctx, h)
      | Some n \<Rightarrow> do {
          (ctx, h) \<leftarrow>
            (if elements ctx = 0 then Some (ctx\<lparr>front := Some n\<rparr>, h)
             else do { b \<leftarrow> back ctx; Some (ctx, set_next h b (Some n)) });
          let ctx = ctx\<lparr>back := Some n\<rparr>;
          let h = set_next h n None;
          let ctx = ctx\<lparr>elements := elements ctx + 1\<rparr>;
          Some (0, ctx, h)
        })"

definition queue_put_front ::
  "'n queue_t \<Rightarrow> ('d, 'n) node_heap \<Rightarrow> 'n option \<Rightarrow> (u8 \<times> 'n queue_t \<times> ('d, 'n) node_heap) option"
where
  "queue_put_front ctx h node =
     (case node of
        None \<Rightarrow> Some (1, ctx, h)
      | Some n \<Rightarrow>
          (let (ctx, h) =
             (if elements ctx = 0 then (ctx\<lparr>back := Some n\<rparr>, set_next h n None)
              else (ctx, set_next h n (front ctx)));
             ctx = ctx\<lparr>front := Some n\<rparr>;
             ctx = ctx\<lparr>elements := elements ctx + 1\<rparr>
           in Some (0, ctx, h)))"

definition queue_size :: "'n queue_t \<Rightarrow> u32" where
  "queue_size ctx = elements ctx"

definition queue_empty :: "'n queue_t \<Rightarrow> bool" where
  "queue_empty ctx \<longleftrightarrow> queue_size ctx = 0"

definition queue_get ::
  "'n queue_t \<Rightarrow> ('d, 'n) node_heap \<Rightarrow> ('d option \<times> 'n queue_t \<times> ('d, 'n) node_heap) option"
where
  "queue_get ctx h =
     (if queue_empty ctx then Some (None, ctx, h)
      else do {
        old \<leftarrow> front ctx;
        let ret = qn_data (h old);
        let ctx = ctx\<lparr>front := qn_next (h old)\<rparr>;
        let h = set_next h old None;
        let ctx = ctx\<lparr>elements := elements ctx - 1\<rparr>;
        Some (ret, ctx, h)
      })"

definition queue_peek :: "'n queue_t \<Rightarrow> ('d, 'n) node_heap \<Rightarrow> 'd option option" where
  "queue_peek ctx h =
     (if queue_empty ctx then Some None
      else do { n \<leftarrow> front ctx; Some (qn_data (h n)) })"

definition queue_mtf ::
  "'n queue_t \<Rightarrow> ('d, 'n) node_heap \<Rightarrow> 'n option \<Rightarrow> u8 \<times> 'n queue_t \<times> ('d, 'n) node_heap"
where
  "queue_mtf ctx h parent =
     (case parent of
        None \<Rightarrow> (0, ctx, h)
      | Some p \<Rightarrow>
          (case qn_next (h p) of
             None \<Rightarrow> (1, ctx, h)
           | Some new_front \<Rightarrow>
               if queue_empty ctx then (1, ctx, h)
               else
                 (let h = set_next h p (qn_next (h new_front));
                      h = set_next h new_front (Some p);
                      ctx = ctx\<lparr>front := Some new_front\<rparr>
                  in (0, ctx, h))))"

subsection \<open>What a queue represents\<close>

fun linked :: "('d, 'n) node_heap \<Rightarrow> 'n option \<Rightarrow> 'n list \<Rightarrow> bool" where
  "linked h p [] \<longleftrightarrow> p = None"
| "linked h p (n # ns) \<longleftrightarrow> p = Some n \<and> linked h (qn_next (h n)) ns"

text \<open>
  \<open>chain_rep\<close> is what \<open>queue_get\<close>, \<open>queue_peek\<close> and \<open>queue_put_front\<close> need;
  \<open>queue_put\<close> needs the back pointer as well.
\<close>

definition chain_rep :: "('d, 'n) node_heap \<Rightarrow> 'n queue_t \<Rightarrow> 'n list \<Rightarrow> bool" where
  "chain_rep h q ns \<longleftrightarrow> linked h (front q) ns \<and> unat (elements q) = length ns"

definition queue_rep :: "('d, 'n) node_heap \<Rightarrow> 'n queue_t \<Rightarrow> 'n list \<Rightarrow> bool" where
  "queue_rep h q ns \<longleftrightarrow> chain_rep h q ns \<and> (ns \<noteq> [] \<longrightarrow> back q = Some (last ns))"

text \<open>The nodes met by following \<open>n\<close> links: the abstract value of a queue, computed.\<close>

fun walk :: "('d, 'n) node_heap \<Rightarrow> nat \<Rightarrow> 'n option \<Rightarrow> 'n list" where
  "walk h (Suc k) (Some n) = n # walk h k (qn_next (h n))"
| "walk h _ _ = []"

definition queue_nodes :: "('d, 'n) node_heap \<Rightarrow> 'n queue_t \<Rightarrow> 'n list" where
  "queue_nodes h q = walk h (unat (elements q)) (front q)"

subsection \<open>Linked segments\<close>

lemma linked_cong:
  "(\<And>n. n \<in> set ns \<Longrightarrow> qn_next (h' n) = qn_next (h n)) \<Longrightarrow> linked h' p ns = linked h p ns"
  by (induction ns arbitrary: p) auto

lemma linked_unique: "linked h p ns \<Longrightarrow> linked h p ms \<Longrightarrow> ns = ms"
proof (induction ns arbitrary: p ms)
  case Nil
  then show ?case by (cases ms) auto
next
  case (Cons n ns)
  then show ?case by (cases ms) auto
qed

lemma linked_suffix: "linked h p (ns @ m # ms) \<Longrightarrow> linked h (Some m) (m # ms)"
  by (induction ns arbitrary: p) auto

lemma linked_distinct: "linked h p ns \<Longrightarrow> distinct ns"
proof (induction ns arbitrary: p)
  case (Cons n ns)
  have "n \<notin> set ns"
  proof
    assume "n \<in> set ns"
    then obtain xs ys where ns: "ns = xs @ n # ys" by (auto simp: in_set_conv_decomp)
    with Cons.prems have "linked h (Some n) (n # ys)" by (auto dest: linked_suffix)
    with Cons.prems have "n # ys = n # ns" by (auto dest: linked_unique)
    with ns show False by simp
  qed
  with Cons show ?case by auto
qed simp

lemma linked_append_last:
  "linked h p ns \<Longrightarrow> n \<notin> set ns \<Longrightarrow> ns \<noteq> [] \<Longrightarrow>
     linked (set_next (set_next h (last ns) (Some n)) n None) p (ns @ [n])"
proof (induction ns arbitrary: p)
  case (Cons m ms)
  show ?case
  proof (cases ms)
    case Nil
    with Cons.prems show ?thesis by simp
  next
    case (Cons k ks)
    with Cons.IH [of "qn_next (h m)"] Cons.prems
      linked_distinct [OF Cons.prems(1)]
    show ?thesis by auto
  qed
qed simp

lemma linked_walk: "linked h p ns \<Longrightarrow> walk h (length ns) p = ns"
  by (induction ns arbitrary: p) auto

lemma chain_rep_nodes: "chain_rep h q ns \<Longrightarrow> queue_nodes h q = ns"
  by (simp add: chain_rep_def queue_nodes_def linked_walk)

lemma queue_rep_nodes: "queue_rep h q ns \<Longrightarrow> queue_nodes h q = ns"
  by (simp add: queue_rep_def chain_rep_nodes)

lemma queue_rep_distinct: "queue_rep h q ns \<Longrightarrow> distinct ns"
  by (auto simp: queue_rep_def chain_rep_def dest: linked_distinct)

lemma chain_rep_cong:
  "(\<And>n. n \<in> set ns \<Longrightarrow> qn_next (h' n) = qn_next (h n)) \<Longrightarrow> chain_rep h' q ns = chain_rep h q ns"
  by (simp add: chain_rep_def cong: linked_cong)

lemma queue_rep_cong:
  "(\<And>n. n \<in> set ns \<Longrightarrow> qn_next (h' n) = qn_next (h n)) \<Longrightarrow> queue_rep h' q ns = queue_rep h q ns"
  by (simp add: queue_rep_def cong: chain_rep_cong)

lemma chain_rep_empty_iff: "chain_rep h q ns \<Longrightarrow> elements q = 0 \<longleftrightarrow> ns = []"
  by (auto simp: chain_rep_def)

lemma queue_rep_init [simp]: "queue_rep h queue_init []"
  by (simp add: queue_rep_def chain_rep_def queue_init_def)

subsection \<open>What the operations do\<close>

text \<open>
  A heap \<open>h'\<close> differs from \<open>h\<close> at most in the links of the nodes in \<open>S\<close>: the frame of every
  operation.
\<close>

definition links_within :: "'n set \<Rightarrow> ('d, 'n) node_heap \<Rightarrow> ('d, 'n) node_heap \<Rightarrow> bool" where
  "links_within S h h' \<longleftrightarrow>
     (\<forall>n. qn_data (h' n) = qn_data (h n)) \<and> (\<forall>n. n \<notin> S \<longrightarrow> qn_next (h' n) = qn_next (h n))"

lemma queue_rep_frame:
  "queue_rep h q ns \<Longrightarrow> links_within S h h' \<Longrightarrow> set ns \<inter> S = {} \<Longrightarrow> queue_rep h' q ns"
  by (subst queue_rep_cong [of ns h' h]) (auto simp: links_within_def)

lemma queue_put_rep:
  assumes "queue_rep h q ns" "n \<notin> set ns" "Suc (length ns) < 2 ^ 32"
  shows "\<exists>q' h'. queue_put q h (Some n) = Some (0, q', h') \<and> queue_rep h' q' (ns @ [n]) \<and>
           links_within (insert n (set ns)) h h'"
proof (cases "ns = []")
  case True
  with assms show ?thesis
    by (auto simp: queue_put_def queue_rep_def chain_rep_def links_within_def)
next
  case False
  with assms have "elements q \<noteq> 0" "back q = Some (last ns)" "linked h (front q) ns"
    by (auto simp: queue_rep_def chain_rep_def)
  moreover have "unat (elements q + 1) = Suc (length ns)"
    using assms by (simp add: queue_rep_def chain_rep_def unat_u32_add1)
  ultimately show ?thesis
    using assms(2) False linked_append_last [of h "front q" ns n]
    by (auto simp: queue_put_def queue_rep_def chain_rep_def links_within_def)
qed

lemma queue_get_chain:
  assumes "chain_rep h q (n # ns)"
  shows "\<exists>q' h'. queue_get q h = Some (qn_data (h n), q', h') \<and> chain_rep h' q' ns \<and>
           links_within {n} h h' \<and> back q' = back q"
proof -
  from assms have nn: "n \<notin> set ns" and "elements q \<noteq> 0" "front q = Some n"
    and "linked h (qn_next (h n)) ns"
    using linked_distinct [of h "front q" "n # ns"] by (auto simp: chain_rep_def)
  moreover from nn have "linked (set_next h n None) (qn_next (h n)) ns = linked h (qn_next (h n)) ns"
    by (intro linked_cong) auto
  moreover from assms have "unat (elements q - 1) = length ns"
    by (subst unat_u32_sub1) (auto simp: chain_rep_def)
  ultimately show ?thesis
    by (auto simp: queue_get_def queue_empty_def queue_size_def chain_rep_def links_within_def)
qed

lemma queue_get_rep:
  assumes "queue_rep h q (n # ns)"
  shows "\<exists>q' h'. queue_get q h = Some (qn_data (h n), q', h') \<and> queue_rep h' q' ns \<and>
           links_within {n} h h'"
  using assms queue_get_chain [of h q n ns]
  by (fastforce simp: queue_rep_def split: if_splits)

lemma queue_get_empty: "queue_rep h q [] \<Longrightarrow> queue_get q h = Some (None, q, h)"
  by (simp add: queue_get_def queue_empty_def queue_size_def queue_rep_def chain_rep_empty_iff)

lemma queue_empty_rep: "queue_rep h q ns \<Longrightarrow> queue_empty q \<longleftrightarrow> ns = []"
  by (auto simp: queue_empty_def queue_size_def queue_rep_def chain_rep_def)

lemma queue_peek_chain: "chain_rep h q (n # ns) \<Longrightarrow> queue_peek q h = Some (qn_data (h n))"
  by (auto simp: queue_peek_def queue_empty_def queue_size_def chain_rep_def)

lemma queue_put_front_chain:
  assumes "chain_rep h q ns" "n \<notin> set ns" "Suc (length ns) < 2 ^ 32"
  shows "\<exists>q' h'. queue_put_front q h (Some n) = Some (0, q', h') \<and> chain_rep h' q' (n # ns) \<and>
           links_within {n} h h' \<and> (ns = [] \<longrightarrow> back q' = Some n) \<and> (ns \<noteq> [] \<longrightarrow> back q' = back q)"
proof -
  have "linked (set_next h n p) p' ns = linked h p' ns" for p p'
    using assms(2) by (intro linked_cong) auto
  moreover have "unat (elements q + 1) = Suc (length ns)"
    using assms by (simp add: chain_rep_def unat_u32_add1)
  ultimately show ?thesis
    using assms chain_rep_empty_iff [OF assms(1)]
    by (auto simp: queue_put_front_def chain_rep_def links_within_def Let_def)
qed

lemma queue_put_front_rep:
  assumes "queue_rep h q ns" "n \<notin> set ns" "Suc (length ns) < 2 ^ 32"
  shows "\<exists>q' h'. queue_put_front q h (Some n) = Some (0, q', h') \<and> queue_rep h' q' (n # ns) \<and>
           links_within {n} h h'"
  using queue_put_front_chain [of h q ns n] assms by (fastforce simp: queue_rep_def)

lemma links_within_mono: "links_within S h h' \<Longrightarrow> S \<subseteq> T \<Longrightarrow> links_within T h h'"
  by (auto simp: links_within_def)

lemma links_within_trans:
  "links_within S h h' \<Longrightarrow> links_within T h' h'' \<Longrightarrow> links_within (S \<union> T) h h''"
  by (auto simp: links_within_def)

lemma links_within_data: "links_within S h h' \<Longrightarrow> qn_data (h' n) = qn_data (h n)"
  by (simp add: links_within_def)

subsection \<open>Two uses that break a queue\<close>

text \<open>
  A node that is put a second time while it is the last one: the count grows, the chain does not,
  and the header represents no list of nodes any more. The kernel does this when a task replies to a
  task that is not waiting for a reply.
\<close>

lemma queue_put_twice:
  assumes "queue_rep h q (ns @ [n])" "length ns < 2 ^ 31"
  shows "\<exists>q' h'. queue_put q h (Some n) = Some (0, q', h') \<and> (\<forall>ms. \<not> queue_rep h' q' ms)"
proof -
  have r: "linked h (front q) (ns @ [n])" "unat (elements q) = Suc (length ns)" "back q = Some n"
    using assms(1) by (simp_all add: queue_rep_def chain_rep_def)
  then have ne: "elements q \<noteq> 0" by auto
  let ?q = "q\<lparr>elements := elements q + 1\<rparr>" and ?h = "set_next (set_next h n (Some n)) n None"
  have put: "queue_put q h (Some n) = Some (0, q\<lparr>back := Some n, elements := elements q + 1\<rparr>, ?h)"
    using r(3) ne by (simp add: queue_put_def)
  have "qn_next (h n) = None" using linked_suffix [of h "front q" ns n "[]"] r(1) by simp
  then have "linked ?h (front q) (ns @ [n])"
    using r(1) by (subst linked_cong [where h = h]) auto
  moreover have "unat (elements q + 1) = Suc (Suc (length ns))"
    using r(2) assms(2) by (subst unat_u32_add1) auto
  ultimately have "\<not> queue_rep ?h (q\<lparr>back := Some n, elements := elements q + 1\<rparr>) ms" for ms
  proof (intro notI)
    assume rep: "queue_rep ?h (q\<lparr>back := Some n, elements := elements q + 1\<rparr>) ms"
    then have "ns @ [n] = ms"
      using \<open>linked ?h (front q) (ns @ [n])\<close> by (intro linked_unique) (auto simp: queue_rep_def chain_rep_def)
    with rep \<open>unat (elements q + 1) = Suc (Suc (length ns))\<close> show False by (auto simp: queue_rep_def chain_rep_def)
  qed
  with put show ?thesis by blast
qed

text \<open>\<open>queue_mtf\<close> loses every node before \<open>p\<close>: the chain it leaves starts with the two nodes it swaps.\<close>

lemma queue_mtf_loses_nodes:
  assumes "queue_rep h q (xs @ p # n # ys)"
  shows "\<exists>q' h'. queue_mtf q h (Some p) = (0, q', h') \<and> linked h' (front q') (n # p # ys) \<and> elements q' = elements q"
proof -
  have r: "linked h (front q) (xs @ p # n # ys)" "elements q \<noteq> 0"
    using assms by (auto simp: queue_rep_def chain_rep_def)
  have l: "linked h (Some p) (p # n # ys)" using r(1) by (rule linked_suffix)
  then have d: "distinct (p # n # ys)" by (rule linked_distinct)
  let ?h = "set_next (set_next h p (qn_next (h n))) n (Some p)"
  have "linked ?h (qn_next (h n)) ys = linked h (qn_next (h n)) ys" using d by (intro linked_cong) auto
  then have "linked ?h (Some n) (n # p # ys)" using l d by auto
  moreover have "queue_mtf q h (Some p) = (0, q\<lparr>front := Some n\<rparr>, ?h)"
    using l r(2) by (auto simp: queue_mtf_def queue_empty_def queue_size_def Let_def)
  ultimately show ?thesis by auto
qed

subsection \<open>The interface its clients rely on\<close>

text \<open>
  A family of queues whose nodes are linked through a shared heap. \<open>rep\<close> relates a queue
  header to the nodes it holds, \<open>within\<close> bounds what an operation may change of the heap, and
  \<open>label\<close> is the payload of a node. The client lemmas say that queues with disjoint nodes do
  not disturb each other, and that payloads leave a queue in the order they entered it.
\<close>

locale linked_fifo =
  fixes rep :: "'h \<Rightarrow> 'q \<Rightarrow> 'n list \<Rightarrow> bool"
    and put :: "'q \<Rightarrow> 'h \<Rightarrow> 'n \<Rightarrow> ('q \<times> 'h) option"
    and get :: "'q \<Rightarrow> 'h \<Rightarrow> ('d option \<times> 'q \<times> 'h) option"
    and is_empty :: "'q \<Rightarrow> bool"
    and label :: "'h \<Rightarrow> 'n \<Rightarrow> 'd option"
    and within :: "'n set \<Rightarrow> 'h \<Rightarrow> 'h \<Rightarrow> bool"
    and capacity :: nat
  assumes put_law: "rep h q ns \<Longrightarrow> n \<notin> set ns \<Longrightarrow> length ns < capacity \<Longrightarrow>
      \<exists>q' h'. put q h n = Some (q', h') \<and> rep h' q' (ns @ [n]) \<and> within (insert n (set ns)) h h'"
    and get_law: "rep h q (n # ns) \<Longrightarrow>
      \<exists>q' h'. get q h = Some (label h n, q', h') \<and> rep h' q' ns \<and> within {n} h h'"
    and get_empty_law: "rep h q [] \<Longrightarrow> get q h = Some (None, q, h)"
    and is_empty_law: "rep h q ns \<Longrightarrow> is_empty q \<longleftrightarrow> ns = []"
    and distinct_law: "rep h q ns \<Longrightarrow> distinct ns"
    and frame_law: "rep h q ns \<Longrightarrow> within S h h' \<Longrightarrow> set ns \<inter> S = {} \<Longrightarrow> rep h' q ns"
    and label_law: "within S h h' \<Longrightarrow> label h' n = label h n"
begin

lemma put_family:
  assumes reps: "\<And>j. j \<in> I \<Longrightarrow> rep h (Q j) (L j)"
    and disj: "\<And>j. j \<in> I \<Longrightarrow> j \<noteq> i \<Longrightarrow> set (L j) \<inter> set (L i) = {}"
    and fresh: "\<And>j. j \<in> I \<Longrightarrow> n \<notin> set (L j)"
    and i: "i \<in> I" and room: "length (L i) < capacity"
  shows "\<exists>q' h'. put (Q i) h n = Some (q', h') \<and>
    (\<forall>j\<in>I. rep h' ((Q(i := q')) j) ((L(i := L i @ [n])) j)) \<and> within (insert n (set (L i))) h h'"
proof -
  obtain q' h' where put: "put (Q i) h n = Some (q', h')" "rep h' q' (L i @ [n])"
    and w: "within (insert n (set (L i))) h h'"
    using put_law [OF reps [OF i] fresh [OF i] room] by blast
  have "rep h' (Q j) (L j)" if "j \<in> I" "j \<noteq> i" for j
    using frame_law [OF reps [OF that(1)] w] disj [OF that] fresh [OF that(1)] by auto
  with put w show ?thesis by auto
qed

lemma get_family:
  assumes reps: "\<And>j. j \<in> I \<Longrightarrow> rep h (Q j) (L j)"
    and disj: "\<And>j. j \<in> I \<Longrightarrow> j \<noteq> i \<Longrightarrow> set (L j) \<inter> set (L i) = {}"
    and i: "i \<in> I" and L: "L i = n # ns"
  shows "\<exists>q' h'. get (Q i) h = Some (label h n, q', h') \<and>
    (\<forall>j\<in>I. rep h' ((Q(i := q')) j) ((L(i := ns)) j)) \<and> within {n} h h'"
proof -
  from reps [OF i] L have "rep h (Q i) (n # ns)" by simp
  from get_law [OF this] obtain q' h' where get: "get (Q i) h = Some (label h n, q', h')" "rep h' q' ns"
    and w: "within {n} h h'"
    by blast
  have "rep h' (Q j) (L j)" if "j \<in> I" "j \<noteq> i" for j
    using frame_law [OF reps [OF that(1)] w] disj [OF that] L by auto
  with get w show ?thesis by auto
qed

primrec get_n :: "nat \<Rightarrow> 'q \<Rightarrow> 'h \<Rightarrow> ('d option list \<times> 'q \<times> 'h) option" where
  "get_n 0 q h = Some ([], q, h)"
| "get_n (Suc k) q h =
     do { (d, q, h) \<leftarrow> get q h; (ds, q, h) \<leftarrow> get_n k q h; Some (d # ds, q, h) }"

lemma get_n_all:
  "rep h q ns \<Longrightarrow> \<exists>q' h'. get_n (length ns) q h = Some (map (label h) ns, q', h') \<and> rep h' q' []"
proof (induction ns arbitrary: q h)
  case Nil
  then show ?case by simp
next
  case (Cons n ns)
  from get_law [OF Cons.prems] obtain q1 h1 where
    g: "get q h = Some (label h n, q1, h1)" "rep h1 q1 ns" and w: "within {n} h h1"
    by blast
  from Cons.IH [OF g(2)] obtain q2 h2 where
    "get_n (length ns) q1 h1 = Some (map (label h1) ns, q2, h2)" "rep h2 q2 []"
    by blast
  with g(1) w show ?case by (simp add: label_law)
qed

text \<open>First in, first out: a node put last is delivered after every node that was waiting.\<close>

lemma fifo_order:
  assumes "rep h q ns" "n \<notin> set ns" "length ns < capacity"
  shows "\<exists>q1 h1 q2 h2. put q h n = Some (q1, h1) \<and>
    get_n (Suc (length ns)) q1 h1 = Some (map (label h) ns @ [label h n], q2, h2) \<and> rep h2 q2 []"
proof -
  obtain q1 h1 where p: "put q h n = Some (q1, h1)" "rep h1 q1 (ns @ [n])"
    and w: "within (insert n (set ns)) h h1"
    using put_law [OF assms] by blast
  from get_n_all [OF p(2)] p(1) w show ?thesis by (auto simp: label_law)
qed

end

text \<open>\<open>queue.c\<close> provides the interface; a queue can hold every node of a 32-bit machine.\<close>

definition queue_put_node ::
  "'n queue_t \<Rightarrow> ('d, 'n) node_heap \<Rightarrow> 'n \<Rightarrow> ('n queue_t \<times> ('d, 'n) node_heap) option"
where
  "queue_put_node q h n = map_option snd (queue_put q h (Some n))"

interpretation cq: linked_fifo queue_rep queue_put_node queue_get queue_empty
  "\<lambda>h n. qn_data (h n)" links_within "2 ^ 32 - 1"
proof unfold_locales
  fix h :: "('d, 'n) node_heap" and q :: "'n queue_t" and n :: 'n and ns :: "'n list"
  assume "queue_rep h q ns" "n \<notin> set ns" "length ns < 2 ^ 32 - 1"
  then show "\<exists>q' h'. queue_put_node q h n = Some (q', h') \<and> queue_rep h' q' (ns @ [n]) \<and>
      links_within (insert n (set ns)) h h'"
    using queue_put_rep [of h q ns n] by (auto simp: queue_put_node_def)
qed (auto intro: queue_get_empty queue_rep_frame dest: queue_get_rep queue_empty_rep
      queue_rep_distinct links_within_data)

lemma queue_put_total: "queue_put q h (Some n) = Some (e, q', h') \<Longrightarrow> e = 0"
  by (auto simp: queue_put_def split: if_splits Option.bind_splits)

lemma queue_put_node_put:
  "queue_put_node q h n = Some (q', h') \<longleftrightarrow> queue_put q h (Some n) = Some (0, q', h')"
  by (auto simp: queue_put_node_def dest: queue_put_total)

end
