(* ===== verification/TaskDescriptor.thy ===== *)
theory TaskDescriptor
  imports Machine Queue
begin

text \<open>
  Task descriptors: \<^verbatim>\<open>include/internal/task_descriptor.h\<close> and
  \<^verbatim>\<open>src/task_descriptor/task_descriptor.c\<close>.

  The array \<^verbatim>\<open>tds\<close> of \<^verbatim>\<open>main\<close> is a list; a pointer to a descriptor is its index. The three
  queue nodes embedded in every descriptor live in the node heap \<open>nodes\<close>, under names that
  say which member of which descriptor they are, so that \<open>queue.c\<close> can link them through
  pointers as the C code does. All other members are fields of the record. The state record
  extends \<open>machine\<close>: an operation that is handed a descriptor also sees the RAM its stack
  pointer refers to.
\<close>

subsection \<open>Data\<close>

datatype task_state_t =
  READY | ACTIVE | EXITED | SEND_BLOCKED | RECEIVE_BLOCKED | REPLY_BLOCKED | EVENT_BLOCKED

datatype td_node = ReadyNode nat | SendNode nat | AwaitNode nat

record message_params_t =
  mp_tid :: u32
  mp_msg :: u32
  mp_msg_len :: u32
  mp_rep :: u32
  mp_rep_len :: u32

record task_descriptor_t =
  td_tid :: u8
  td_priority :: u8
  td_parent :: "nat option"
  td_send_q :: "td_node queue_t"
  td_state :: task_state_t
  td_sp :: u32
  td_svc_lr :: u32
  td_spsr :: u32
  td_message_params :: message_params_t

record td_heap = machine +
  tds :: "task_descriptor_t list"
  nodes :: "(nat, td_node) node_heap"

definition TASK_DESCRIPTOR_MAX_TASKS :: nat where
  "TASK_DESCRIPTOR_MAX_TASKS = 64"

text \<open>\<open>*p\<close> and an assignment to members of \<open>*p\<close>, for \<open>p\<close> a pointer into the array.\<close>

definition td_get :: "nat \<Rightarrow> 'a td_heap_scheme \<Rightarrow> task_descriptor_t option" where
  "td_get i s = arr_get (tds s) i"

definition td_update ::
  "nat \<Rightarrow> (task_descriptor_t \<Rightarrow> task_descriptor_t) \<Rightarrow> 'a td_heap_scheme \<Rightarrow> 'a td_heap_scheme option"
where
  "td_update i f s = (if i < length (tds s) then Some (s\<lparr>tds := (tds s)[i := f (tds s ! i)]\<rparr>) else None)"

subsection \<open>Operations\<close>

definition task_descriptor_set_return_value ::
  "nat \<Rightarrow> i32 \<Rightarrow> 'a td_heap_scheme \<Rightarrow> 'a td_heap_scheme option"
where
  "task_descriptor_set_return_value ctx ret s =
     do { td \<leftarrow> td_get ctx s; Some (s\<lparr>mem := store32 (mem s) (td_sp td) ret\<rparr>) }"

definition task_descriptor_init ::
  "nat \<Rightarrow> u8 \<Rightarrow> u8 \<Rightarrow> nat option \<Rightarrow> u32 \<Rightarrow> 'a td_heap_scheme \<Rightarrow> 'a td_heap_scheme option"
where
  "task_descriptor_init ctx tid priority parent code s = do {
     s \<leftarrow> td_update ctx (\<lambda>td. td\<lparr>td_tid := tid, td_priority := priority, td_parent := parent,
           td_sp := MEM_TASK_STACK_START (ucast tid) - 14 * 4, td_spsr := 0x50,
           td_svc_lr := code\<rparr>) s;
     s \<leftarrow> task_descriptor_set_return_value ctx 0 s;
     td \<leftarrow> td_get ctx s;
     let s = s\<lparr>mem := store32 (mem s) (td_sp td + 4 * 13) (MEM_TASK_STACK_START (ucast tid))\<rparr>;
     let s = s\<lparr>nodes := queue_node_init (ReadyNode ctx) (Some ctx) (nodes s)\<rparr>;
     let s = s\<lparr>nodes := queue_node_init (SendNode ctx) (Some ctx) (nodes s)\<rparr>;
     let s = s\<lparr>nodes := queue_node_init (AwaitNode ctx) (Some ctx) (nodes s)\<rparr>;
     td_update ctx (\<lambda>td. td\<lparr>td_send_q := queue_init, td_state := READY\<rparr>) s
   }"

subsection \<open>Lemmas\<close>

lemma td_get_simps [simp]:
  "i < length (tds s) \<Longrightarrow> td_get i s = Some (tds s ! i)"
  "length (tds s) \<le> i \<Longrightarrow> td_get i s = None"
  by (simp_all add: td_get_def)

lemma td_update_simps [simp]:
  "i < length (tds s) \<Longrightarrow> td_update i f s = Some (s\<lparr>tds := (tds s)[i := f (tds s ! i)]\<rparr>)"
  "length (tds s) \<le> i \<Longrightarrow> td_update i f s = None"
  by (simp_all add: td_update_def)

lemma task_descriptor_set_return_value_eq [simp]:
  "i < length (tds s) \<Longrightarrow> task_descriptor_set_return_value i ret s =
     Some (s\<lparr>mem := store32 (mem s) (td_sp (tds s ! i)) ret\<rparr>)"
  by (simp add: task_descriptor_set_return_value_def)

text \<open>The descriptor that \<open>task_descriptor_init\<close> leaves: its message parameters are untouched.\<close>

definition fresh_td :: "u8 \<Rightarrow> u8 \<Rightarrow> nat option \<Rightarrow> u32 \<Rightarrow> message_params_t \<Rightarrow> task_descriptor_t" where
  "fresh_td tid priority parent code mp =
     \<lparr>td_tid = tid, td_priority = priority, td_parent = parent, td_send_q = queue_init,
      td_state = READY, td_sp = MEM_TASK_STACK_START (ucast tid) - 56, td_svc_lr = code,
      td_spsr = 0x50, td_message_params = mp\<rparr>"

definition init_nodes :: "nat \<Rightarrow> (nat, td_node) node_heap \<Rightarrow> (nat, td_node) node_heap" where
  "init_nodes ctx h = queue_node_init (AwaitNode ctx) (Some ctx)
     (queue_node_init (SendNode ctx) (Some ctx) (queue_node_init (ReadyNode ctx) (Some ctx) h))"

lemma task_descriptor_init_eq:
  assumes "ctx < length (tds s)"
  shows "task_descriptor_init ctx tid priority parent code s =
    Some (s\<lparr>mem := store32 (store32 (mem s) (MEM_TASK_STACK_START (ucast tid) - 56) 0)
                 (MEM_TASK_STACK_START (ucast tid) - 4) (MEM_TASK_STACK_START (ucast tid)),
           nodes := init_nodes ctx (nodes s),
           tds := (tds s)[ctx := fresh_td tid priority parent code (td_message_params (tds s ! ctx))]\<rparr>)"
proof -
  have "fresh_td tid priority parent code (td_message_params td) =
      td\<lparr>td_tid := tid, td_priority := priority, td_parent := parent,
        td_sp := MEM_TASK_STACK_START (ucast tid) - 56, td_spsr := 0x50, td_svc_lr := code,
        td_send_q := queue_init, td_state := READY\<rparr>" for td
    by (cases td) (simp add: fresh_td_def)
  then show ?thesis
    using assms by (simp add: task_descriptor_init_def init_nodes_def Let_def)
qed

fun node_td :: "td_node \<Rightarrow> nat" where
  "node_td (ReadyNode i) = i"
| "node_td (SendNode i) = i"
| "node_td (AwaitNode i) = i"

lemma init_nodes_other: "node_td n \<noteq> ctx \<Longrightarrow> init_nodes ctx h n = h n"
  by (cases n) (auto simp: init_nodes_def queue_node_init_def)

lemma init_nodes_data: "node_td n = ctx \<Longrightarrow> qn_data (init_nodes ctx h n) = Some ctx"
  by (cases n) (auto simp: init_nodes_def queue_node_init_def)

end
