(* ===== verification/Scheduler.thy ===== *)
theory Scheduler
  imports TaskDescriptor
begin

text \<open>
  The ready queues: \<^verbatim>\<open>include/internal/scheduler.h\<close> and
  \<^verbatim>\<open>src/scheduler/scheduler.c\<close>. One queue per priority and a 64-bit map of the
  queues that are not empty; \<open>bitmap_leadingzeroes\<close> finds the lowest set bit in a binary
  search, and \<open>bitmap_leadingzeroes_lowest\<close> shows that it does.
\<close>

subsection \<open>Data\<close>

record scheduler_t =
  bitmap :: u64
  priority_qs :: "td_node queue_t list"

record sched_heap = td_heap +
  sch :: scheduler_t

definition SCHEDULER_PRIORITY_COUNT :: nat where
  "SCHEDULER_PRIORITY_COUNT = 64"

subsection \<open>Operations\<close>

definition bitmap_leadingzeroes :: "u64 \<Rightarrow> u8" where
  "bitmap_leadingzeroes bm =
     (if bm AND 0x1 \<noteq> 0 then 0
      else
        (let count = 1;
             (bm, count) = (if bm AND 0xFFFFFFFF = 0 then (drop_bit 32 bm, count + 32) else (bm, count));
             (bm, count) = (if bm AND 0xFFFF = 0 then (drop_bit 16 bm, count + 16) else (bm, count));
             (bm, count) = (if bm AND 0xFF = 0 then (drop_bit 8 bm, count + 8) else (bm, count));
             (bm, count) = (if bm AND 0xF = 0 then (drop_bit 4 bm, count + 4) else (bm, count));
             (bm, count) = (if bm AND 0x3 = 0 then (drop_bit 2 bm, count + 2) else (bm, count))
         in count - ucast (bm AND 0x1)))"

definition scheduler_init :: "'a sched_heap_scheme \<Rightarrow> 'a sched_heap_scheme" where
  "scheduler_init s =
     s\<lparr>sch := \<lparr>bitmap = 0,
        priority_qs = fold (\<lambda>i qs. qs[i := queue_init]) [0..<SCHEDULER_PRIORITY_COUNT] (priority_qs (sch s))\<rparr>\<rparr>"

definition scheduler_empty :: "'a sched_heap_scheme \<Rightarrow> bool" where
  "scheduler_empty s \<longleftrightarrow> bitmap (sch s) = 0"

definition scheduler_get :: "'a sched_heap_scheme \<Rightarrow> (nat option \<times> 'a sched_heap_scheme) option" where
  "scheduler_get s =
     (if scheduler_empty s then Some (None, s)
      else do {
        let idx = bitmap_leadingzeroes (bitmap (sch s));
        max_queue \<leftarrow> arr_get (priority_qs (sch s)) (unat idx);
        (ret, max_queue, h) \<leftarrow> queue_get max_queue (nodes s);
        let s = s\<lparr>nodes := h, sch := (sch s)\<lparr>priority_qs := (priority_qs (sch s))[unat idx := max_queue]\<rparr>\<rparr>;
        let s = (if queue_empty max_queue
                 then s\<lparr>sch := (sch s)\<lparr>bitmap := bitmap (sch s) AND NOT (push_bit (unat idx) 1)\<rparr>\<rparr>
                 else s);
        Some (ret, s)
      })"

definition scheduler_put :: "nat \<Rightarrow> 'a sched_heap_scheme \<Rightarrow> (u8 \<times> 'a sched_heap_scheme) option" where
  "scheduler_put td s = do {
     d \<leftarrow> td_get td s;
     let p = unat (td_priority d);
     q \<leftarrow> arr_get (priority_qs (sch s)) p;
     (err, q, h) \<leftarrow> queue_put q (nodes s) (Some (ReadyNode td));
     let s = s\<lparr>nodes := h, sch := (sch s)\<lparr>priority_qs := (priority_qs (sch s))[p := q]\<rparr>\<rparr>;
     if err = 0 then do {
       let s = s\<lparr>sch := (sch s)\<lparr>bitmap := bitmap (sch s) OR push_bit p 1\<rparr>\<rparr>;
       s \<leftarrow> td_update td (\<lambda>d. d\<lparr>td_state := READY\<rparr>) s;
       Some (err, s)
     } else Some (err, s)
   }"

subsection \<open>The lowest set bit\<close>

definition lowest_bit :: "u64 \<Rightarrow> nat \<Rightarrow> bool" where
  "lowest_bit b n \<longleftrightarrow> bit b n \<and> (\<forall>m<n. \<not> bit b m)"

lemma lowest_bit_unique: "lowest_bit b n \<Longrightarrow> lowest_bit b m \<Longrightarrow> n = m"
  by (auto simp: lowest_bit_def) (metis linorder_neqE_nat)

lemma lowest_bit_exists: "b \<noteq> 0 \<Longrightarrow> \<exists>n<64. lowest_bit b n"
proof -
  assume "b \<noteq> 0"
  then obtain k where k: "bit b k" by (metis bit_word_eqI bit_0_eq bot_apply bot_bool_def)
  let ?n = "LEAST n. bit b n"
  have "lowest_bit b ?n"
    using k by (auto simp: lowest_bit_def intro: LeastI dest: not_less_Least)
  moreover from this have "?n < 64" by (auto simp: lowest_bit_def dest: bit_imp_le_length)
  ultimately show ?thesis by blast
qed

text \<open>One halving step of the search, on a map with a bit among its lowest \<open>2 * k\<close>.\<close>

definition halve :: "nat \<Rightarrow> u64 \<times> u8 \<Rightarrow> u64 \<times> u8" where
  "halve k = (\<lambda>(b, c). if b AND mask k = 0 then (drop_bit k b, c + of_nat k) else (b, c))"

lemma and_mask_eq_0: "(b :: u64) AND mask k = 0 \<longleftrightarrow> (\<forall>m<k. \<not> bit b m)"
  using bit_imp_le_length [of b] by (auto simp: bit_eq_iff bit_simps)

lemma halve_lowest:
  assumes "lowest_bit b n" "n < 2 * k" "halve k (b, c) = (b', c')"
  shows "\<exists>n'. lowest_bit b' n' \<and> n' < k \<and> (c + of_nat n = c' + of_nat n')"
proof (cases "b AND mask k = 0")
  case True
  with assms(1) have "k \<le> n" by (auto simp: lowest_bit_def and_mask_eq_0 not_less [symmetric])
  with True assms have "lowest_bit b' (n - k)" and "c' = c + of_nat k"
    by (auto simp: lowest_bit_def halve_def bit_simps)
  with \<open>k \<le> n\<close> assms(2) show ?thesis by (intro exI [of _ "n - k"]) (auto simp: of_nat_diff)
next
  case False
  with assms(1) have "n < k" unfolding lowest_bit_def and_mask_eq_0 by (meson leI le_less_trans)
  with False assms show ?thesis by (auto simp: halve_def)
qed

lemma leadingzeroes_halve:
  "bitmap_leadingzeroes b = (if b AND 1 \<noteq> 0 then 0
     else case halve 2 (halve 4 (halve 8 (halve 16 (halve 32 (b, 1))))) of (b, c) \<Rightarrow> c - ucast (b AND 1))"
proof -
  have masks: "(0xFFFFFFFF :: u64) = mask 32" "(0xFFFF :: u64) = mask 16" "(0xFF :: u64) = mask 8"
    "(0xF :: u64) = mask 4" "(0x3 :: u64) = mask 2"
    by (simp_all add: mask_eq_exp_minus_1)
  have halves:
    "(if b AND mask 32 = 0 then (drop_bit 32 b, c + 32) else (b, c)) = halve 32 (b, c)"
    "(if b AND mask 16 = 0 then (drop_bit 16 b, c + 16) else (b, c)) = halve 16 (b, c)"
    "(if b AND mask 8 = 0 then (drop_bit 8 b, c + 8) else (b, c)) = halve 8 (b, c)"
    "(if b AND mask 4 = 0 then (drop_bit 4 b, c + 4) else (b, c)) = halve 4 (b, c)"
    "(if b AND mask 2 = 0 then (drop_bit 2 b, c + 2) else (b, c)) = halve 2 (b, c)" for b c
    by (simp_all add: halve_def)
  show ?thesis
    unfolding bitmap_leadingzeroes_def masks halves Let_def
    by (simp only: split_def prod.collapse)
qed

lemma leadingzeroes_of_lowest:
  assumes low: "lowest_bit b n" and "n < 64"
  shows "bitmap_leadingzeroes b = of_nat n"
proof (cases "bit b 0")
  case True
  with low have "n = 0" by (metis gr0I lowest_bit_def)
  with True show ?thesis by (simp add: bitmap_leadingzeroes_def and_one_eq odd_iff_mod_2_eq_one bit_0)
next
  case False
  obtain b5 c5 where h5: "halve 32 (b, 1) = (b5, c5)" by fastforce
  obtain b4 c4 where h4: "halve 16 (b5, c5) = (b4, c4)" by fastforce
  obtain b3 c3 where h3: "halve 8 (b4, c4) = (b3, c3)" by fastforce
  obtain b2 c2 where h2: "halve 4 (b3, c3) = (b2, c2)" by fastforce
  obtain b1 c1 where h1: "halve 2 (b2, c2) = (b1, c1)" by fastforce
  obtain n5 where n5: "lowest_bit b5 n5" "n5 < 32" "1 + of_nat n = c5 + of_nat n5"
    using halve_lowest [OF low _ h5] \<open>n < 64\<close> by auto
  obtain n4 where n4: "lowest_bit b4 n4" "n4 < 16" "c5 + of_nat n5 = c4 + of_nat n4"
    using halve_lowest [OF n5(1) _ h4] n5(2) by auto
  obtain n3 where n3: "lowest_bit b3 n3" "n3 < 8" "c4 + of_nat n4 = c3 + of_nat n3"
    using halve_lowest [OF n4(1) _ h3] n4(2) by auto
  obtain n2 where n2: "lowest_bit b2 n2" "n2 < 4" "c3 + of_nat n3 = c2 + of_nat n2"
    using halve_lowest [OF n3(1) _ h2] n3(2) by auto
  obtain n1 where n1: "lowest_bit b1 n1" "n1 < 2" "c2 + of_nat n2 = c1 + of_nat n1"
    using halve_lowest [OF n2(1) _ h1] n2(2) by auto
  have sum: "1 + of_nat n = c1 + (of_nat n1 :: u8)"
    using n5(3) n4(3) n3(3) n2(3) n1(3) by simp
  have "bitmap_leadingzeroes b = c1 - ucast (b1 AND 1)"
    using False by (simp add: leadingzeroes_halve h5 h4 h3 h2 h1 and_one_eq bit_0 even_iff_mod_2_eq_zero)
  also have "\<dots> = of_nat n"
  proof (cases "n1 = 0")
    case True
    with n1(1) have "bit b1 0" by (simp add: lowest_bit_def)
    with True sum show ?thesis by (simp add: and_one_eq bit_0 odd_iff_mod_2_eq_one algebra_simps)
  next
    case one: False
    with n1 have "n1 = 1" "\<not> bit b1 0" by (auto simp: lowest_bit_def)
    with sum show ?thesis by (simp add: and_one_eq bit_0 even_iff_mod_2_eq_zero algebra_simps)
  qed
  finally show ?thesis .
qed

lemma leadingzeroes_lowest:
  assumes "b \<noteq> 0"
  shows "lowest_bit b (unat (bitmap_leadingzeroes b))" and "unat (bitmap_leadingzeroes b) < 64"
proof -
  obtain n where n: "n < 64" "lowest_bit b n" using lowest_bit_exists [OF assms] by blast
  then have "bitmap_leadingzeroes b = of_nat n" by (simp add: leadingzeroes_of_lowest)
  then have "unat (bitmap_leadingzeroes b) = n" using n by (simp add: unat_of_nat)
  with n show "lowest_bit b (unat (bitmap_leadingzeroes b))" "unat (bitmap_leadingzeroes b) < 64"
    by simp_all
qed

end
