(* ===== verification/EventHandler.thy ===== *)
theory EventHandler
  imports Scheduler
begin

text \<open>
  Tasks waiting for hardware events: \<^verbatim>\<open>include/internal/event_handler.h\<close> and
  \<^verbatim>\<open>src/event_handler/event_handler.c\<close>. The handler's pointer to the scheduler is
  the kernel's only scheduler, so both are fields of one state.

  \<^verbatim>\<open>event_t\<close> is an enumeration without negative members, that is an unsigned integer: the test
  \<^verbatim>\<open>event < 0\<close> of the source never holds.
\<close>

definition SYS_CALL_EVENT_TIMER :: u32 where
  "SYS_CALL_EVENT_TIMER = 0"

definition SYS_CALL_EVENT_UART1 :: u32 where
  "SYS_CALL_EVENT_UART1 = 1"

definition SYS_CALL_EVENT_UART1_MS :: u32 where
  "SYS_CALL_EVENT_UART1_MS = 2"

definition SYS_CALL_EVENT_UART1_RX :: u32 where
  "SYS_CALL_EVENT_UART1_RX = 3"

definition SYS_CALL_EVENT_UART1_RT :: u32 where
  "SYS_CALL_EVENT_UART1_RT = 4"

definition SYS_CALL_EVENT_UART1_TX :: u32 where
  "SYS_CALL_EVENT_UART1_TX = 5"

definition SYS_CALL_EVENT_UART2 :: u32 where
  "SYS_CALL_EVENT_UART2 = 6"

definition SYS_CALL_EVENT_UART2_RX :: u32 where
  "SYS_CALL_EVENT_UART2_RX = 7"

definition SYS_CALL_EVENT_UART2_RT :: u32 where
  "SYS_CALL_EVENT_UART2_RT = 8"

definition SYS_CALL_EVENT_UART2_TX :: u32 where
  "SYS_CALL_EVENT_UART2_TX = 9"

lemmas event_defs = SYS_CALL_EVENT_TIMER_def SYS_CALL_EVENT_UART1_def SYS_CALL_EVENT_UART1_MS_def
  SYS_CALL_EVENT_UART1_RX_def SYS_CALL_EVENT_UART1_RT_def SYS_CALL_EVENT_UART1_TX_def
  SYS_CALL_EVENT_UART2_def SYS_CALL_EVENT_UART2_RX_def SYS_CALL_EVENT_UART2_RT_def
  SYS_CALL_EVENT_UART2_TX_def

definition EVENT_HANDLER_MAX_EVENTS :: nat where
  "EVENT_HANDLER_MAX_EVENTS = 16"

record event_heap = sched_heap +
  await_qs :: "td_node queue_t list"

definition event_handler_init :: "'a event_heap_scheme \<Rightarrow> 'a event_heap_scheme" where
  "event_handler_init s =
     s\<lparr>await_qs := fold (\<lambda>i qs. qs[i := queue_init]) [0..<EVENT_HANDLER_MAX_EVENTS] (await_qs s)\<rparr>"

definition event_handler_add_task ::
  "u32 \<Rightarrow> nat \<Rightarrow> 'a event_heap_scheme \<Rightarrow> (i32 \<times> 'a event_heap_scheme) option"
where
  "event_handler_add_task event td s =
     (if EVENT_HANDLER_MAX_EVENTS \<le> unat event then Some (- 1, s)
      else do {
        s \<leftarrow> td_update td (\<lambda>d. d\<lparr>td_state := EVENT_BLOCKED\<rparr>) s;
        q \<leftarrow> arr_get (await_qs s) (unat event);
        (err, q, h) \<leftarrow> queue_put q (nodes s) (Some (AwaitNode td));
        let s = s\<lparr>nodes := h, await_qs := (await_qs s)[unat event := q]\<rparr>;
        Some (if err = 0 then 0 else - 2, s)
      })"

partial_function (option) wake_all :: "nat \<Rightarrow> i32 \<Rightarrow> 'a event_heap_scheme \<Rightarrow> 'a event_heap_scheme option" where
  "wake_all event ret s = do {
     q \<leftarrow> arr_get (await_qs s) event;
     if queue_empty q then Some s
     else do {
       (td, q, h) \<leftarrow> queue_get q (nodes s);
       let s = s\<lparr>nodes := h, await_qs := (await_qs s)[event := q]\<rparr>;
       td \<leftarrow> td;
       s \<leftarrow> task_descriptor_set_return_value td ret s;
       (_, s) \<leftarrow> scheduler_put td s;
       wake_all event ret s
     }
   }"

definition event_handler_handle_event ::
  "u32 \<Rightarrow> i32 \<Rightarrow> 'a event_heap_scheme \<Rightarrow> (i32 \<times> 'a event_heap_scheme) option"
where
  "event_handler_handle_event event ret s =
     (if EVENT_HANDLER_MAX_EVENTS \<le> unat event then Some (- 1, s)
      else do { s \<leftarrow> wake_all (unat event) ret s; Some (0, s) })"

definition event_handler_empty :: "'a event_heap_scheme \<Rightarrow> bool" where
  "event_handler_empty s \<longleftrightarrow>
     list_all (\<lambda>i. queue_empty (await_qs s ! i)) [0..<EVENT_HANDLER_MAX_EVENTS]"

end
