(* ===== verification/KernelState.thy ===== *)
theory KernelState
  imports EventHandler
begin

text \<open>
  The kernel's state and its invariant. \<open>kernel_context_t\<close> of \<^verbatim>\<open>src/main.c\<close> points to the
  descriptors, the scheduler and the event handler that \<^verbatim>\<open>main\<close> holds; here they are the
  fields of one record.

  The kernel keeps 64 ready queues, 16 event queues and one send queue per task, all threaded
  through nodes inside the descriptors. \<open>krep s L\<close> says that the state \<open>s\<close> represents the
  assignment \<open>L\<close> of tasks to queues, and that the queues agree with the descriptors: every
  task is in at most one queue, which fits its state, and the scheduler's bit map marks exactly the
  ready queues that are not empty. The lemmas show what the queue operations of the scheduler
  and of the event handler do to \<open>L\<close>.
\<close>

subsection \<open>State\<close>

record kernel_context_t = event_heap +
  next_free_td :: u32
  last_idle_time :: u32

subsection \<open>Queues by name\<close>

datatype qid = ReadyQ nat | AwaitQ nat | SendQ nat

fun kqueue :: "kernel_context_t \<Rightarrow> qid \<Rightarrow> td_node queue_t" where
  "kqueue s (ReadyQ p) = (if p < 64 then priority_qs (sch s) ! p else queue_init)"
| "kqueue s (AwaitQ e) = (if e < 16 then await_qs s ! e else queue_init)"
| "kqueue s (SendQ r) = (if r < unat (next_free_td s) then td_send_q (tds s ! r) else queue_init)"

fun qnode :: "qid \<Rightarrow> nat \<Rightarrow> td_node" where
  "qnode (ReadyQ _) t = ReadyNode t"
| "qnode (AwaitQ _) t = AwaitNode t"
| "qnode (SendQ _) t = SendNode t"

definition qids :: "kernel_context_t \<Rightarrow> qid list" where
  "qids s = map ReadyQ [0..<64] @ map AwaitQ [0..<16] @ map SendQ [0..<unat (next_free_td s)]"

definition members :: "kernel_context_t \<Rightarrow> qid \<Rightarrow> nat list" where
  "members s i = map node_td (queue_nodes (nodes s) (kqueue s i))"

text \<open>Which state a task in a queue has.\<close>

fun belongs :: "kernel_context_t \<Rightarrow> qid \<Rightarrow> nat \<Rightarrow> bool" where
  "belongs s (ReadyQ p) t \<longleftrightarrow> td_state (tds s ! t) = READY \<and> unat (td_priority (tds s ! t)) = p"
| "belongs s (AwaitQ e) t \<longleftrightarrow> td_state (tds s ! t) = EVENT_BLOCKED"
| "belongs s (SendQ r) t \<longleftrightarrow> td_state (tds s ! t) = RECEIVE_BLOCKED"

subsection \<open>The invariant\<close>

definition td_ok :: "kernel_context_t \<Rightarrow> nat \<Rightarrow> bool" where
  "td_ok s t \<longleftrightarrow>
     td_tid (tds s ! t) = of_nat t \<and> unat (td_priority (tds s ! t)) < 64 \<and>
     pred_option (\<lambda>p. p < unat (next_free_td s)) (td_parent (tds s ! t)) \<and>
     qn_data (nodes s (ReadyNode t)) = Some t \<and> qn_data (nodes s (SendNode t)) = Some t \<and>
     qn_data (nodes s (AwaitNode t)) = Some t"

definition kshape :: "kernel_context_t \<Rightarrow> bool" where
  "kshape s \<longleftrightarrow>
     length (tds s) = 64 \<and> length (priority_qs (sch s)) = 64 \<and> length (await_qs s) = 16 \<and>
     unat (next_free_td s) \<le> 64 \<and> (\<forall>t<unat (next_free_td s). td_ok s t)"

definition one_queue :: "(qid \<Rightarrow> nat list) \<Rightarrow> bool" where
  "one_queue L \<longleftrightarrow> (\<forall>i j t. t \<in> set (L i) \<longrightarrow> t \<in> set (L j) \<longrightarrow> i = j)"

definition krep :: "kernel_context_t \<Rightarrow> (qid \<Rightarrow> nat list) \<Rightarrow> bool" where
  "krep s L \<longleftrightarrow> kshape s \<and>
     (\<forall>i\<in>set (qids s). queue_rep (nodes s) (kqueue s i) (map (qnode i) (L i))) \<and>
     (\<forall>i. i \<notin> set (qids s) \<longrightarrow> L i = []) \<and>
     (\<forall>i. \<forall>t\<in>set (L i). t < unat (next_free_td s) \<and> belongs s i t) \<and>
     one_queue L \<and>
     (\<forall>p<64. bit (bitmap (sch s)) p \<longleftrightarrow> L (ReadyQ p) \<noteq> [])"

definition kinv :: "kernel_context_t \<Rightarrow> bool" where
  "kinv s \<longleftrightarrow> krep s (members s)"

text \<open>A task that is in no queue: the active one, or one blocked without a queue.\<close>

definition floats :: "(qid \<Rightarrow> nat list) \<Rightarrow> nat \<Rightarrow> bool" where
  "floats L t \<longleftrightarrow> (\<forall>i. t \<notin> set (L i))"

subsection \<open>Basic facts\<close>

lemma node_td_qnode [simp]: "node_td (qnode i t) = t"
  by (cases i) auto

lemma inj_qnode: "inj (qnode i)"
  by (rule inj_on_inverseI [where g = node_td]) simp

lemma qid_in_qids [simp]:
  "ReadyQ p \<in> set (qids s) \<longleftrightarrow> p < 64"
  "AwaitQ e \<in> set (qids s) \<longleftrightarrow> e < 16"
  "SendQ r \<in> set (qids s) \<longleftrightarrow> r < unat (next_free_td s)"
  by (auto simp: qids_def)

lemma kqueue_outside: "i \<notin> set (qids s) \<Longrightarrow> kqueue s i = queue_init"
  by (cases i) auto

lemma queue_nodes_init [simp]: "queue_nodes h queue_init = []"
  by (rule queue_rep_nodes) simp

lemma krep_members:
  assumes "krep s L"
  shows "members s = L"
proof
  fix i
  show "members s i = L i"
  proof (cases "i \<in> set (qids s)")
    case True
    with assms have "queue_rep (nodes s) (kqueue s i) (map (qnode i) (L i))" by (simp add: krep_def)
    then show ?thesis by (simp add: members_def queue_rep_nodes comp_def)
  next
    case False
    with assms show ?thesis by (simp add: members_def kqueue_outside krep_def)
  qed
qed

lemma krep_kinv: "krep s L \<Longrightarrow> kinv s"
  using krep_members [of s L] by (simp add: kinv_def)

lemma krep_shape: "krep s L \<Longrightarrow> kshape s"
  by (simp add: krep_def)

lemma krep_lengths:
  assumes "krep s L"
  shows "length (tds s) = 64" "length (priority_qs (sch s)) = 64" "length (await_qs s) = 16"
    "unat (next_free_td s) \<le> 64"
  using assms by (auto simp: krep_def kshape_def)

lemma krep_td_ok: "krep s L \<Longrightarrow> t < unat (next_free_td s) \<Longrightarrow> td_ok s t"
  by (simp add: krep_def kshape_def)

lemma krep_belongs: "krep s L \<Longrightarrow> t \<in> set (L i) \<Longrightarrow> belongs s i t"
  by (simp add: krep_def)

lemma krep_bound: "krep s L \<Longrightarrow> t \<in> set (L i) \<Longrightarrow> t < unat (next_free_td s)"
  by (simp add: krep_def)

lemma krep_distinct:
  assumes "krep s L"
  shows "distinct (L i)"
proof (cases "i \<in> set (qids s)")
  case True
  with assms have "distinct (map (qnode i) (L i))"
    by (auto simp: krep_def dest: queue_rep_distinct)
  then show ?thesis by (simp add: distinct_map)
next
  case False
  with assms show ?thesis by (simp add: krep_def)
qed

lemma krep_length:
  assumes "krep s L"
  shows "length (L i) \<le> 64"
proof -
  have "length (L i) = card (set (L i))"
    by (simp add: distinct_card [OF krep_distinct [OF assms]])
  also have "\<dots> \<le> card {..<unat (next_free_td s)}"
    using krep_bound [OF assms] by (intro card_mono) auto
  finally show ?thesis using krep_lengths(4) [OF assms] by simp
qed

lemma krep_nodes_disjoint:
  "krep s L \<Longrightarrow> i \<noteq> j \<Longrightarrow> set (map (qnode i) (L i)) \<inter> set (map (qnode j) (L j)) = {}"
  by (auto simp: krep_def one_queue_def) (metis node_td_qnode)

text \<open>A task in a state that no queue holds is in no queue.\<close>

lemma krep_floats:
  "krep s L \<Longrightarrow> td_state (tds s ! t) \<notin> {READY, EVENT_BLOCKED, RECEIVE_BLOCKED} \<Longrightarrow> floats L t"
  unfolding floats_def
proof (intro allI notI)
  fix i
  assume "krep s L" "td_state (tds s ! t) \<notin> {READY, EVENT_BLOCKED, RECEIVE_BLOCKED}" "t \<in> set (L i)"
  then show False using krep_belongs [of s L t i] by (cases i) auto
qed

subsection \<open>Steps that keep every queue\<close>

text \<open>The invariant speaks of the descriptors, the nodes and the queues only.\<close>

lemma kqueue_cong:
  "tds s' = tds s \<Longrightarrow> sch s' = sch s \<Longrightarrow> await_qs s' = await_qs s \<Longrightarrow>
     next_free_td s' = next_free_td s \<Longrightarrow> kqueue s' i = kqueue s i"
  by (cases i) simp_all

lemma belongs_cong: "tds s' ! t = tds s ! t \<Longrightarrow> belongs s' i t = belongs s i t"
  by (cases i) simp_all

lemma krep_cong:
  assumes "tds s' = tds s" "nodes s' = nodes s" "sch s' = sch s" "await_qs s' = await_qs s"
    "next_free_td s' = next_free_td s"
  shows "krep s' L = krep s L"
proof -
  have "kqueue s' = kqueue s" using assms kqueue_cong by blast
  moreover have "belongs s' = belongs s"
    using assms(1) belongs_cong [of s' _ s] by (intro ext) simp
  moreover have "td_ok s' = td_ok s"
    using assms by (intro ext) (simp add: td_ok_def)
  moreover have "qids s' = qids s" using assms by (simp add: qids_def)
  ultimately show ?thesis
    using assms by (simp add: krep_def kshape_def)
qed

lemma krep_mem [simp]: "krep (s\<lparr>mem := m\<rparr>) L = krep s L"
  and krep_io [simp]: "krep (s\<lparr>io := l\<rparr>) L = krep s L"
  and krep_idle [simp]: "krep (s\<lparr>last_idle_time := c\<rparr>) L = krep s L"
  by (rule krep_cong; simp)+

text \<open>
  A descriptor may change in everything but its identity and its send queue; its state only
  if it is in no queue.
\<close>

definition same_identity :: "task_descriptor_t \<Rightarrow> task_descriptor_t \<Rightarrow> bool" where
  "same_identity d d' \<longleftrightarrow> td_tid d' = td_tid d \<and> td_priority d' = td_priority d \<and>
     td_parent d' = td_parent d"

lemma krep_td_update:
  assumes "krep s L" "t < unat (next_free_td s)" "same_identity (tds s ! t) d"
    and "td_send_q d = td_send_q (tds s ! t)"
    and "td_state d = td_state (tds s ! t) \<or> floats L t"
  shows "krep (s\<lparr>tds := (tds s)[t := d]\<rparr>) L"
proof -
  let ?s = "s\<lparr>tds := (tds s)[t := d]\<rparr>"
  note len = krep_lengths [OF assms(1)]
  have kq: "kqueue ?s j = kqueue s j" for j
    using assms(2,4) len by (cases j) (auto simp: nth_list_update)
  have bl: "belongs ?s i u" if u: "u \<in> set (L i)" for i u
  proof (cases "u = t")
    case True
    with u assms(5) have "td_state d = td_state (tds s ! t)" by (auto simp: floats_def)
    with True assms(2,3) len krep_belongs [OF assms(1) u] show ?thesis
      by (cases i) (auto simp: same_identity_def)
  next
    case False
    with krep_belongs [OF assms(1) u] show ?thesis by (cases i) simp_all
  qed
  have ok: "td_ok ?s u" if "u < unat (next_free_td s)" for u
    using krep_td_ok [OF assms(1) that] assms(3) len that
    by (cases "u = t") (simp_all add: td_ok_def same_identity_def)
  have "kshape ?s" using krep_shape [OF assms(1)] ok by (simp add: kshape_def)
  moreover have "qids ?s = qids s" by (simp add: qids_def)
  ultimately show ?thesis using assms(1) kq bl by (simp add: krep_def)
qed

subsection \<open>Putting a task into a queue and taking one out\<close>

text \<open>
  \<open>s'\<close> agrees with \<open>s\<close> on the descriptors, up to the state of \<open>t\<close> and the send queues, which
  \<open>kqueue\<close> covers.
\<close>

definition same_tds :: "nat \<Rightarrow> kernel_context_t \<Rightarrow> kernel_context_t \<Rightarrow> bool" where
  "same_tds t s s' \<longleftrightarrow> next_free_td s' = next_free_td s \<and> length (tds s') = length (tds s) \<and>
     length (priority_qs (sch s')) = length (priority_qs (sch s)) \<and>
     length (await_qs s') = length (await_qs s) \<and>
     (\<forall>u<length (tds s). same_identity (tds s ! u) (tds s' ! u) \<and>
        (u \<noteq> t \<longrightarrow> td_state (tds s' ! u) = td_state (tds s ! u)))"

lemma same_tds_belongs:
  "same_tds t s s' \<Longrightarrow> u < length (tds s) \<Longrightarrow> u \<noteq> t \<Longrightarrow> belongs s' i u = belongs s i u"
  by (cases i) (auto simp: same_tds_def same_identity_def)

lemma same_tds_shape:
  assumes "kshape s" "same_tds t s s'" "\<And>n. qn_data (nodes s' n) = qn_data (nodes s n)"
  shows "kshape s'"
proof -
  have "td_ok s' u" if "td_ok s u" "u < 64" for u
    using that assms by (simp add: td_ok_def same_tds_def same_identity_def kshape_def)
  with assms(1,2) show ?thesis by (simp add: kshape_def same_tds_def)
qed

lemma same_tds_qids: "same_tds t s s' \<Longrightarrow> qids s' = qids s"
  by (simp add: same_tds_def qids_def)

lemma krep_put:
  assumes rep: "krep s L" and i: "i \<in> set (qids s)" and t: "t < unat (next_free_td s)" "floats L t"
  obtains q h where "queue_put (kqueue s i) (nodes s) (Some (qnode i t)) = Some (0, q, h)"
    and "\<And>s'. same_tds t s s' \<Longrightarrow> nodes s' = h \<Longrightarrow> kqueue s' = (kqueue s)(i := q) \<Longrightarrow>
      belongs s' i t \<Longrightarrow> (\<And>p. p < 64 \<Longrightarrow> bit (bitmap (sch s')) p \<longleftrightarrow> bit (bitmap (sch s)) p \<or> i = ReadyQ p) \<Longrightarrow>
      krep s' (L(i := L i @ [t]))"
proof -
  let ?M = "\<lambda>j. map (qnode j) (L j)"
  have "\<exists>q h. queue_put_node (kqueue s i) (nodes s) (qnode i t) = Some (q, h) \<and>
      (\<forall>j\<in>set (qids s). queue_rep h (((kqueue s)(i := q)) j) ((?M(i := ?M i @ [qnode i t])) j)) \<and>
      links_within (insert (qnode i t) (set (?M i))) (nodes s) h"
  proof (rule cq.put_family)
    show "length (?M i) < 2 ^ 32 - 1" using krep_length [OF rep, of i] by simp
    show "qnode i t \<notin> set (?M j)" for j
      using t(2) by (auto simp: floats_def) (metis node_td_qnode)
  qed (use rep i krep_nodes_disjoint [OF rep] in \<open>auto simp: krep_def\<close>)
  then obtain q h where put: "queue_put_node (kqueue s i) (nodes s) (qnode i t) = Some (q, h)"
    and reps: "\<And>j. j \<in> set (qids s) \<Longrightarrow>
       queue_rep h (((kqueue s)(i := q)) j) (map (qnode j) ((L(i := L i @ [t])) j))"
    and lw: "links_within (insert (qnode i t) (set (?M i))) (nodes s) h"
    by (fastforce split: if_splits)
  show ?thesis
  proof
    show "queue_put (kqueue s i) (nodes s) (Some (qnode i t)) = Some (0, q, h)"
      using put by (simp add: queue_put_node_put)
  next
    fix s'
    assume st: "same_tds t s s'" and h: "nodes s' = h" and kq: "kqueue s' = (kqueue s)(i := q)"
      and bl: "belongs s' i t"
      and bm: "\<And>p. p < 64 \<Longrightarrow> bit (bitmap (sch s')) p \<longleftrightarrow> bit (bitmap (sch s)) p \<or> i = ReadyQ p"
    have "kshape s'"
      using same_tds_shape [OF krep_shape [OF rep] st] h links_within_data [OF lw] by auto
    moreover have "belongs s' j u" if "u \<in> set (L j)" for j u
      using that krep_belongs [OF rep that] krep_bound [OF rep that] krep_lengths [OF rep] t(2)
        same_tds_belongs [OF st, of u j]
      by (auto simp: floats_def)
    moreover have "one_queue (L(i := L i @ [t]))"
      using rep t(2) by (auto simp: krep_def one_queue_def floats_def)
    moreover have "next_free_td s' = next_free_td s" using st by (simp add: same_tds_def)
    ultimately show "krep s' (L(i := L i @ [t]))"
      using rep reps st h kq bl bm i t(1)
      by (auto simp: krep_def same_tds_qids)
  qed
qed

lemma krep_get:
  assumes rep: "krep s L" and L: "L i = t # ts"
  obtains q h where "queue_get (kqueue s i) (nodes s) = Some (Some t, q, h)"
    and "queue_empty q \<longleftrightarrow> ts = []"
    and "\<And>s'. same_tds t s s' \<Longrightarrow> td_state (tds s' ! t) = td_state (tds s ! t) \<Longrightarrow>
      nodes s' = h \<Longrightarrow> kqueue s' = (kqueue s)(i := q) \<Longrightarrow>
      (\<And>p. p < 64 \<Longrightarrow> bit (bitmap (sch s')) p \<longleftrightarrow> bit (bitmap (sch s)) p \<and> (i = ReadyQ p \<longrightarrow> ts \<noteq> [])) \<Longrightarrow>
      krep s' (L(i := ts))" and "floats (L(i := ts)) t"
proof -
  let ?M = "\<lambda>j. map (qnode j) (L j)"
  have i: "i \<in> set (qids s)" using rep L by (auto simp: krep_def)
  have tnf: "t < unat (next_free_td s)" using krep_bound [OF rep, of t i] L by simp
  have "qn_data (nodes s (qnode i t)) = Some t"
    using krep_td_ok [OF rep tnf] by (cases i) (auto simp: td_ok_def)
  moreover have "\<exists>q h. queue_get (kqueue s i) (nodes s) = Some (qn_data (nodes s (qnode i t)), q, h) \<and>
      (\<forall>j\<in>set (qids s). queue_rep h (((kqueue s)(i := q)) j) ((?M(i := map (qnode i) ts)) j)) \<and>
      links_within {qnode i t} (nodes s) h"
  proof (rule cq.get_family)
    show "set (?M j) \<inter> set (?M i) = {}" if "j \<noteq> i" for j
      by (rule krep_nodes_disjoint [OF rep that])
  qed (use rep i L in \<open>simp_all add: krep_def\<close>)
  ultimately obtain q h where get: "queue_get (kqueue s i) (nodes s) = Some (Some t, q, h)"
    and reps: "\<And>j. j \<in> set (qids s) \<Longrightarrow>
       queue_rep h (((kqueue s)(i := q)) j) (map (qnode j) ((L(i := ts)) j))"
    and lw: "links_within {qnode i t} (nodes s) h"
    by (fastforce split: if_splits)
  have dist: "t \<notin> set ts" using krep_distinct [OF rep, of i] L by simp
  show ?thesis
  proof
    show "queue_get (kqueue s i) (nodes s) = Some (Some t, q, h)" by (rule get)
    show "queue_empty q \<longleftrightarrow> ts = []"
      using reps [OF i] by (auto dest: queue_empty_rep)
    show "floats (L(i := ts)) t"
      using rep L dist by (auto simp: floats_def krep_def one_queue_def)
  next
    fix s'
    assume st: "same_tds t s s'" and tt: "td_state (tds s' ! t) = td_state (tds s ! t)"
      and h: "nodes s' = h" and kq: "kqueue s' = (kqueue s)(i := q)"
      and bm: "\<And>p. p < 64 \<Longrightarrow> bit (bitmap (sch s')) p \<longleftrightarrow>
        bit (bitmap (sch s)) p \<and> (i = ReadyQ p \<longrightarrow> ts \<noteq> [])"
    have "kshape s'"
      using same_tds_shape [OF krep_shape [OF rep] st] h links_within_data [OF lw] by auto
    moreover have "belongs s' j u" if "u \<in> set (L j)" for j u
      using that krep_belongs [OF rep that] krep_bound [OF rep that] krep_lengths [OF rep] st tt
      by (cases j; cases "u = t") (auto simp: same_tds_def same_identity_def)
    moreover have "one_queue (L(i := ts))"
      using rep L by (auto simp: krep_def one_queue_def)
    moreover have "u < unat (next_free_td s)" if "u \<in> set ts" for u
      using krep_bound [OF rep, of u i] L that by simp
    moreover have "next_free_td s' = next_free_td s" using st by (simp add: same_tds_def)
    ultimately show "krep s' (L(i := ts))"
      using rep reps st h kq bm i L
      by (auto simp: krep_def same_tds_qids)
  qed
qed

subsection \<open>The scheduler on the abstract queues\<close>

lemma bit_set_1: "p < 64 \<Longrightarrow> bit (b OR 2 ^ q :: u64) p \<longleftrightarrow> bit b p \<or> p = q"
  by (auto simp: bit_simps)

lemma bit_clear_1: "p < 64 \<Longrightarrow> bit (b AND NOT (2 ^ q) :: u64) p \<longleftrightarrow> bit b p \<and> p \<noteq> q"
  by (auto simp: bit_simps)

text \<open>The state \<open>s'\<close> differs from \<open>s\<close> in queue links, the scheduler and the state of task \<open>t\<close>.\<close>

definition made_ready :: "nat \<Rightarrow> kernel_context_t \<Rightarrow> kernel_context_t \<Rightarrow> bool" where
  "made_ready t s s' \<longleftrightarrow>
     s' = s\<lparr>tds := (tds s)[t := (tds s ! t)\<lparr>td_state := READY\<rparr>], nodes := nodes s', sch := sch s'\<rparr>"

lemma made_ready_frame:
  assumes "made_ready t s s'"
  shows "tds s' = (tds s)[t := (tds s ! t)\<lparr>td_state := READY\<rparr>]" "mem s' = mem s" "io s' = io s"
    "dev s' = dev s" "irq_stack_start s' = irq_stack_start s" "await_qs s' = await_qs s"
    "next_free_td s' = next_free_td s" "last_idle_time s' = last_idle_time s"
  using assms [unfolded made_ready_def, THEN arg_cong, of tds]
    assms [unfolded made_ready_def, THEN arg_cong, of mem]
    assms [unfolded made_ready_def, THEN arg_cong, of io]
    assms [unfolded made_ready_def, THEN arg_cong, of dev]
    assms [unfolded made_ready_def, THEN arg_cong, of irq_stack_start]
    assms [unfolded made_ready_def, THEN arg_cong, of await_qs]
    assms [unfolded made_ready_def, THEN arg_cong, of next_free_td]
    assms [unfolded made_ready_def, THEN arg_cong, of last_idle_time]
  by simp_all

lemma krep_queue_empty: "krep s L \<Longrightarrow> i \<in> set (qids s) \<Longrightarrow> queue_empty (kqueue s i) \<longleftrightarrow> L i = []"
  using queue_empty_rep [of "nodes s" "kqueue s i" "map (qnode i) (L i)"] by (simp add: krep_def)

lemma scheduler_put_krep:
  assumes rep: "krep s L" and t: "t < unat (next_free_td s)" "floats L t"
    and p: "p = unat (td_priority (tds s ! t))"
  obtains s' where "scheduler_put t s = Some (0, s')"
    and "krep s' (L(ReadyQ p := L (ReadyQ p) @ [t]))" and "made_ready t s s'"
proof -
  note len = krep_lengths [OF rep]
  have p64: "p < 64" using krep_td_ok [OF rep t(1)] p by (simp add: td_ok_def)
  have tl: "t < length (tds s)" using t(1) len by simp
  obtain q h where put: "queue_put (kqueue s (ReadyQ p)) (nodes s) (Some (qnode (ReadyQ p) t)) = Some (0, q, h)"
    and post: "\<And>s'. same_tds t s s' \<Longrightarrow> nodes s' = h \<Longrightarrow> kqueue s' = (kqueue s)(ReadyQ p := q) \<Longrightarrow>
      belongs s' (ReadyQ p) t \<Longrightarrow>
      (\<And>r. r < 64 \<Longrightarrow> bit (bitmap (sch s')) r \<longleftrightarrow> bit (bitmap (sch s)) r \<or> ReadyQ p = ReadyQ r) \<Longrightarrow>
      krep s' (L(ReadyQ p := L (ReadyQ p) @ [t]))"
    by (rule krep_put [OF rep _ t, where i = "ReadyQ p"]) (use p64 in auto)
  let ?s = "s\<lparr>nodes := h, sch := \<lparr>bitmap = bitmap (sch s) OR 2 ^ p,
      priority_qs = (priority_qs (sch s))[p := q]\<rparr>, tds := (tds s)[t := (tds s ! t)\<lparr>td_state := READY\<rparr>]\<rparr>"
  have "kqueue ?s j = ((kqueue s)(ReadyQ p := q)) j" for j
    using len p64 tl by (cases j) (auto simp: nth_list_update)
  moreover have "same_tds t s ?s" by (auto simp: same_tds_def same_identity_def nth_list_update_if)
  moreover have "belongs ?s (ReadyQ p) t" using tl p by simp
  ultimately have "krep ?s (L(ReadyQ p := L (ReadyQ p) @ [t]))"
    by (intro post) (auto simp: bit_set_1)
  moreover have "scheduler_put t s = Some (0, ?s)"
    using put tl p64 len p by (simp add: scheduler_put_def Let_def)
  ultimately show ?thesis by (intro that) (auto simp: made_ready_def)
qed

text \<open>
  \<open>scheduler_get\<close> returns the task that has waited longest among those of the smallest priority
  number, and removes it.
\<close>

lemma scheduler_get_krep:
  assumes rep: "krep s L" and low: "\<And>r. r < p \<Longrightarrow> L (ReadyQ r) = []" and L: "L (ReadyQ p) = t # ts"
  obtains s' where "scheduler_get s = Some (Some t, s')" and "krep s' (L(ReadyQ p := ts))"
    and "floats (L(ReadyQ p := ts)) t" and "s' = s\<lparr>nodes := nodes s', sch := sch s'\<rparr>"
proof -
  note len = krep_lengths [OF rep]
  have p64: "p < 64"
  proof (rule ccontr)
    assume "\<not> p < 64"
    then have "ReadyQ p \<notin> set (qids s)" by simp
    with rep have "L (ReadyQ p) = []" unfolding krep_def by blast
    with L show False by simp
  qed
  have bits: "\<And>r. r < 64 \<Longrightarrow> bit (bitmap (sch s)) r \<longleftrightarrow> L (ReadyQ r) \<noteq> []"
    using rep by (simp add: krep_def)
  with p64 L low have "lowest_bit (bitmap (sch s)) p" by (simp add: lowest_bit_def)
  then have idx: "unat (bitmap_leadingzeroes (bitmap (sch s))) = p" and ne: "bitmap (sch s) \<noteq> 0"
    using p64 by (auto simp: leadingzeroes_of_lowest unat_of_nat lowest_bit_def)
  obtain q h where get: "queue_get (kqueue s (ReadyQ p)) (nodes s) = Some (Some t, q, h)"
    and em: "queue_empty q \<longleftrightarrow> ts = []" and fl: "floats (L(ReadyQ p := ts)) t"
    and post: "\<And>s'. same_tds t s s' \<Longrightarrow> td_state (tds s' ! t) = td_state (tds s ! t) \<Longrightarrow>
      nodes s' = h \<Longrightarrow> kqueue s' = (kqueue s)(ReadyQ p := q) \<Longrightarrow>
      (\<And>r. r < 64 \<Longrightarrow> bit (bitmap (sch s')) r \<longleftrightarrow>
        bit (bitmap (sch s)) r \<and> (ReadyQ p = ReadyQ r \<longrightarrow> ts \<noteq> [])) \<Longrightarrow>
      krep s' (L(ReadyQ p := ts))"
    by (rule krep_get [OF rep L]) auto
  let ?s = "s\<lparr>nodes := h, sch := \<lparr>bitmap = (if ts = [] then bitmap (sch s) AND NOT (2 ^ p)
      else bitmap (sch s)), priority_qs = (priority_qs (sch s))[p := q]\<rparr>\<rparr>"
  have "kqueue ?s j = ((kqueue s)(ReadyQ p := q)) j" for j
    using len p64 by (cases j) (auto simp: nth_list_update)
  moreover have "same_tds t s ?s" by (auto simp: same_tds_def same_identity_def)
  ultimately have "krep ?s (L(ReadyQ p := ts))"
    by (intro post) (auto simp: bit_clear_1)
  moreover have "scheduler_get s = Some (Some t, ?s)"
    using get p64 len idx ne em by (simp add: scheduler_get_def scheduler_empty_def Let_def)
  ultimately show ?thesis using fl by (intro that) auto
qed

lemma scheduler_empty_krep: "krep s L \<Longrightarrow> scheduler_empty s \<longleftrightarrow> (\<forall>p<64. L (ReadyQ p) = [])"
proof -
  assume rep: "krep s L"
  then have bits: "\<forall>p<64. bit (bitmap (sch s)) p \<longleftrightarrow> L (ReadyQ p) \<noteq> []" by (simp add: krep_def)
  have "bitmap (sch s) = 0 \<longleftrightarrow> (\<forall>p<64. \<not> bit (bitmap (sch s)) p)"
    by (auto simp: bit_eq_iff)
  with bits show ?thesis by (simp add: scheduler_empty_def)
qed

lemma scheduler_get_empty: "scheduler_empty s \<Longrightarrow> scheduler_get s = Some (None, s)"
  by (simp add: scheduler_get_def)

subsection \<open>The event handler on the abstract queues\<close>

lemma event_handler_add_task_krep:
  assumes rep: "krep s L" and t: "t < unat (next_free_td s)" "floats L t" and e: "unat event < 16"
  obtains s' where "event_handler_add_task event t s = Some (0, s')"
    and "krep s' (L(AwaitQ (unat event) := L (AwaitQ (unat event)) @ [t]))"
    and "s' = s\<lparr>tds := (tds s)[t := (tds s ! t)\<lparr>td_state := EVENT_BLOCKED\<rparr>],
                nodes := nodes s', await_qs := await_qs s'\<rparr>"
proof -
  let ?e = "unat event"
  note len = krep_lengths [OF rep]
  have tl: "t < length (tds s)" using t(1) len by simp
  obtain q h where put: "queue_put (kqueue s (AwaitQ ?e)) (nodes s) (Some (qnode (AwaitQ ?e) t)) = Some (0, q, h)"
    and post: "\<And>s'. same_tds t s s' \<Longrightarrow> nodes s' = h \<Longrightarrow> kqueue s' = (kqueue s)(AwaitQ ?e := q) \<Longrightarrow>
      belongs s' (AwaitQ ?e) t \<Longrightarrow>
      (\<And>r. r < 64 \<Longrightarrow> bit (bitmap (sch s')) r \<longleftrightarrow> bit (bitmap (sch s)) r \<or> AwaitQ ?e = ReadyQ r) \<Longrightarrow>
      krep s' (L(AwaitQ ?e := L (AwaitQ ?e) @ [t]))"
    by (rule krep_put [OF rep _ t, where i = "AwaitQ ?e"]) (use e in auto)
  let ?s = "s\<lparr>tds := (tds s)[t := (tds s ! t)\<lparr>td_state := EVENT_BLOCKED\<rparr>], nodes := h,
      await_qs := (await_qs s)[?e := q]\<rparr>"
  have "kqueue ?s j = ((kqueue s)(AwaitQ ?e := q)) j" for j
    using len e tl by (cases j) (auto simp: nth_list_update)
  moreover have "same_tds t s ?s" by (auto simp: same_tds_def same_identity_def nth_list_update_if)
  moreover have "belongs ?s (AwaitQ ?e) t" using tl by simp
  ultimately have "krep ?s (L(AwaitQ ?e := L (AwaitQ ?e) @ [t]))"
    by (intro post) auto
  moreover have "event_handler_add_task event t s = Some (0, ?s)"
    using put tl e len by (simp add: event_handler_add_task_def EVENT_HANDLER_MAX_EVENTS_def Let_def)
  ultimately show ?thesis by (intro that) auto
qed

text \<open>Waking the tasks \<open>ts\<close>: each joins the ready queue of its priority, in order.\<close>

definition enqueue_ready :: "kernel_context_t \<Rightarrow> nat list \<Rightarrow> (qid \<Rightarrow> nat list) \<Rightarrow> qid \<Rightarrow> nat list" where
  "enqueue_ready s ts L = fold (\<lambda>t L. L(ReadyQ (unat (td_priority (tds s ! t))) :=
     L (ReadyQ (unat (td_priority (tds s ! t)))) @ [t])) ts L"

lemma enqueue_ready_cong:
  "(\<And>t. t \<in> set ts \<Longrightarrow> td_priority (tds s' ! t) = td_priority (tds s ! t)) \<Longrightarrow>
     enqueue_ready s' ts L = enqueue_ready s ts L"
  unfolding enqueue_ready_def by (intro fold_cong refl) simp_all

text \<open>What a run of wake-ups leaves unchanged, and the return value each task finds.\<close>

definition woken :: "nat list \<Rightarrow> kernel_context_t \<Rightarrow> kernel_context_t \<Rightarrow> bool" where
  "woken ts s s' \<longleftrightarrow> next_free_td s' = next_free_td s \<and> last_idle_time s' = last_idle_time s \<and>
     io s' = io s \<and> dev s' = dev s \<and> irq_stack_start s' = irq_stack_start s \<and>
     tds s' = map (\<lambda>t. if t \<in> set ts then (tds s ! t)\<lparr>td_state := READY\<rparr> else tds s ! t) [0..<length (tds s)]"

definition write_returns :: "kernel_context_t \<Rightarrow> nat list \<Rightarrow> i32 \<Rightarrow> (u32 \<Rightarrow> u8) \<Rightarrow> (u32 \<Rightarrow> u8)" where
  "write_returns s ts ret m = fold (\<lambda>t m. store32 m (td_sp (tds s ! t)) ret) ts m"

lemma write_returns_cong:
  "(\<And>t. t \<in> set ts \<Longrightarrow> td_sp (tds s' ! t) = td_sp (tds s ! t)) \<Longrightarrow>
     write_returns s' ts ret m = write_returns s ts ret m"
  unfolding write_returns_def by (intro fold_cong refl) simp_all

lemma wake_step:
  assumes rep: "krep s L" and L: "L (AwaitQ e) = t # ts" and e: "e < 16"
  obtains s' where "wake_all e ret s = wake_all e ret s'"
    and "krep s' (enqueue_ready s [t] (L(AwaitQ e := ts)))"
    and "woken [t] s s'" and "mem s' = store32 (mem s) (td_sp (tds s ! t)) ret"
proof -
  note len = krep_lengths [OF rep]
  have tnf: "t < unat (next_free_td s)" using krep_bound [OF rep, of t "AwaitQ e"] L by simp
  have tl: "t < length (tds s)" using tnf len by simp
  obtain q h where get: "queue_get (kqueue s (AwaitQ e)) (nodes s) = Some (Some t, q, h)"
    and fl: "floats (L(AwaitQ e := ts)) t"
    and post: "\<And>s'. same_tds t s s' \<Longrightarrow> td_state (tds s' ! t) = td_state (tds s ! t) \<Longrightarrow>
      nodes s' = h \<Longrightarrow> kqueue s' = (kqueue s)(AwaitQ e := q) \<Longrightarrow>
      (\<And>r. r < 64 \<Longrightarrow> bit (bitmap (sch s')) r \<longleftrightarrow>
        bit (bitmap (sch s)) r \<and> (AwaitQ e = ReadyQ r \<longrightarrow> ts \<noteq> [])) \<Longrightarrow>
      krep s' (L(AwaitQ e := ts))"
    by (rule krep_get [OF rep L]) auto
  let ?s = "s\<lparr>nodes := h, await_qs := (await_qs s)[e := q], mem := store32 (mem s) (td_sp (tds s ! t)) ret\<rparr>"
  have "kqueue ?s j = ((kqueue s)(AwaitQ e := q)) j" for j
    using len e by (cases j) (auto simp: nth_list_update)
  then have rep1: "krep ?s (L(AwaitQ e := ts))"
    by (intro post) (auto simp: same_tds_def same_identity_def)
  obtain s' where put: "scheduler_put t ?s = Some (0, s')"
    and rep2: "krep s' ((L(AwaitQ e := ts))(ReadyQ (unat (td_priority (tds s ! t))) :=
        (L(AwaitQ e := ts)) (ReadyQ (unat (td_priority (tds s ! t)))) @ [t]))"
    and mr: "made_ready t ?s s'"
    by (rule scheduler_put_krep [OF rep1 _ fl, where p = "unat (td_priority (tds s ! t))"])
      (use tnf in auto)
  have "\<not> queue_empty (await_qs s ! e)"
    using krep_queue_empty [OF rep, of "AwaitQ e"] L e by simp
  with get put e len tl have "wake_all e ret s = wake_all e ret s'"
    by (subst wake_all.simps) (simp add: Let_def)
  moreover have "woken [t] s s'"
    using made_ready_frame [OF mr] tl
    by (auto simp: woken_def intro!: nth_equalityI simp: nth_list_update_if)
  ultimately show ?thesis
    using rep2 made_ready_frame(2) [OF mr] by (intro that) (simp_all add: enqueue_ready_def)
qed

lemma enqueue_ready_Cons:
  "enqueue_ready s (t # ts) L = enqueue_ready s ts (enqueue_ready s [t] L)"
  by (simp add: enqueue_ready_def)

lemma enqueue_ready_other: "(\<And>p. i \<noteq> ReadyQ p) \<Longrightarrow> enqueue_ready s ts L i = L i"
  unfolding enqueue_ready_def by (induction ts arbitrary: L) auto

lemma woken_priority:
  "woken ts s s' \<Longrightarrow> t < length (tds s) \<Longrightarrow> td_priority (tds s' ! t) = td_priority (tds s ! t)"
  by (simp add: woken_def)

lemma woken_sp: "woken ts s s' \<Longrightarrow> t < length (tds s) \<Longrightarrow> td_sp (tds s' ! t) = td_sp (tds s ! t)"
  by (simp add: woken_def)

lemma woken_trans:
  "woken ts s s' \<Longrightarrow> woken us s' s'' \<Longrightarrow> woken (ts @ us) s s''"
  by (auto simp: woken_def)

lemma woken_refl: "woken [] s s"
  by (simp add: woken_def map_nth)

text \<open>
  \<open>event_handler_handle_event\<close> empties the event's queue and makes every task of it ready,
  with the event's value as the result of its system call.
\<close>

lemma wake_all_krep:
  assumes "krep s L" "L (AwaitQ e) = ts" "e < 16"
  shows "\<exists>s'. wake_all e ret s = Some s' \<and> krep s' (enqueue_ready s ts (L(AwaitQ e := []))) \<and>
    woken ts s s' \<and> mem s' = write_returns s ts ret (mem s)"
  using assms
proof (induction ts arbitrary: s L)
  case Nil
  have "queue_empty (await_qs s ! e)"
    using krep_queue_empty [OF Nil(1), of "AwaitQ e"] Nil by simp
  then have "wake_all e ret s = Some s"
    using Nil(3) krep_lengths [OF Nil(1)] by (subst wake_all.simps) simp
  moreover have "L(AwaitQ e := []) = L" using Nil(2) by auto
  ultimately show ?case
    using Nil(1) by (simp add: enqueue_ready_def write_returns_def woken_refl)
next
  case (Cons t ts)
  obtain s1 where step: "wake_all e ret s = wake_all e ret s1"
    and rep: "krep s1 (enqueue_ready s [t] (L(AwaitQ e := ts)))"
    and w: "woken [t] s s1" and m: "mem s1 = store32 (mem s) (td_sp (tds s ! t)) ret"
    by (rule wake_step [OF Cons.prems(1,2,3)])
  have "enqueue_ready s [t] (L(AwaitQ e := ts)) (AwaitQ e) = ts"
    by (simp add: enqueue_ready_other)
  from Cons.IH [OF rep this Cons.prems(3)] obtain s' where
    s': "wake_all e ret s1 = Some s'" "woken ts s1 s'" "mem s' = write_returns s1 ts ret (mem s1)"
    and rep': "krep s' (enqueue_ready s1 ts ((enqueue_ready s [t] (L(AwaitQ e := ts)))(AwaitQ e := [])))"
    by blast
  have bound: "u < length (tds s)" if "u \<in> set ts" for u
    using krep_bound [OF Cons.prems(1), of u "AwaitQ e"] krep_lengths [OF Cons.prems(1)]
      Cons.prems(2) that by simp
  have "enqueue_ready s1 ts K = enqueue_ready s ts K" for K
    using bound woken_priority [OF w] by (intro enqueue_ready_cong) auto
  moreover have "(enqueue_ready s [t] (L(AwaitQ e := ts)))(AwaitQ e := []) =
      enqueue_ready s [t] (L(AwaitQ e := []))"
    by (auto simp: enqueue_ready_def)
  moreover have "write_returns s1 ts ret (mem s1) = write_returns s (t # ts) ret (mem s)"
    using bound woken_sp [OF w] m write_returns_cong [of ts s1 s ret "mem s1"]
    by (simp add: write_returns_def)
  ultimately show ?case
    using step s' rep' woken_trans [OF w s'(2)] unfolding enqueue_ready_Cons [of s t ts]
    by (metis append_Cons append_Nil)
qed

lemma event_handler_empty_krep:
  "krep s L \<Longrightarrow> event_handler_empty s \<longleftrightarrow> (\<forall>e<16. L (AwaitQ e) = [])"
  using krep_queue_empty [of s L "AwaitQ _"]
  by (auto simp: event_handler_empty_def list_all_iff EVENT_HANDLER_MAX_EVENTS_def)

subsection \<open>The scheduler's contract\<close>

text \<open>The priority the scheduler serves next: the smallest with a task in its ready queue.\<close>

definition next_ready :: "(qid \<Rightarrow> nat list) \<Rightarrow> nat option" where
  "next_ready L = find (\<lambda>p. L (ReadyQ p) \<noteq> []) [0..<64]"

lemma find_upt_Some:
  "find P [0..<n] = Some p \<longleftrightarrow> p < n \<and> P p \<and> (\<forall>r<p. \<not> P r)"
  by (auto simp: find_Some_iff)

lemma next_ready_Some:
  "next_ready L = Some p \<longleftrightarrow> p < 64 \<and> L (ReadyQ p) \<noteq> [] \<and> (\<forall>r<p. L (ReadyQ r) = [])"
  unfolding next_ready_def find_upt_Some by auto

lemma next_ready_None: "next_ready L = None \<longleftrightarrow> (\<forall>p<64. L (ReadyQ p) = [])"
  by (auto simp: next_ready_def find_None_iff)

text \<open>
  What \<open>scheduler_get\<close> promises on the abstract queues: the first task of the most urgent
  queue, which is removed.
\<close>

definition spec_get :: "(qid \<Rightarrow> nat list) \<Rightarrow> nat option \<times> (qid \<Rightarrow> nat list)" where
  "spec_get L = (case next_ready L of
     None \<Rightarrow> (None, L)
   | Some p \<Rightarrow> (Some (hd (L (ReadyQ p))), L(ReadyQ p := tl (L (ReadyQ p)))))"

lemma scheduler_get_refines_krep:
  assumes rep: "krep s L"
  obtains r s' where "scheduler_get s = Some (r, s')" "krep s' (snd (spec_get L))" "r = fst (spec_get L)"
    "tds s' = tds s" "mem s' = mem s"
proof (cases "next_ready L")
  case None
  with rep have "scheduler_empty s" by (simp add: next_ready_None scheduler_empty_krep)
  with None rep show ?thesis by (intro that) (simp_all add: scheduler_get_empty spec_get_def)
next
  case (Some p)
  then have p: "L (ReadyQ p) = hd (L (ReadyQ p)) # tl (L (ReadyQ p))" "\<And>r. r < p \<Longrightarrow> L (ReadyQ r) = []"
    by (auto simp: next_ready_Some)
  obtain s' where s': "scheduler_get s = Some (Some (hd (L (ReadyQ p))), s')"
    "krep s' (L(ReadyQ p := tl (L (ReadyQ p))))" and eq: "s' = s\<lparr>nodes := nodes s', sch := sch s'\<rparr>"
    by (rule scheduler_get_krep [OF rep p(2,1)])
  from s' Some eq [THEN arg_cong, of tds] eq [THEN arg_cong, of mem] show ?thesis
    by (intro that [of _ s']) (simp_all add: spec_get_def)
qed

text \<open>
  A scheduler as its client sees it: \<open>get\<close> takes the first task of the most urgent queue. Calling it
  until it is empty returns all ready tasks by priority, and in their order within one priority.
\<close>

fun drain :: "('s \<Rightarrow> ('t option \<times> 's) option) \<Rightarrow> nat \<Rightarrow> 's \<Rightarrow> 't list option" where
  "drain get 0 s = Some []"
| "drain get (Suc n) s = do {
     (r, s) \<leftarrow> get s;
     case r of None \<Rightarrow> Some [] | Some t \<Rightarrow> do { ts \<leftarrow> drain get n s; Some (t # ts) }
   }"

locale priority_fifo =
  fixes get :: "'s \<Rightarrow> ('t option \<times> 's) option" and ok :: "'s \<Rightarrow> bool"
    and ready :: "'s \<Rightarrow> nat \<Rightarrow> 't list" and levels :: nat
  assumes get_none: "ok s \<Longrightarrow> \<forall>p<levels. ready s p = [] \<Longrightarrow> get s = Some (None, s)"
    and get_some: "ok s \<Longrightarrow> p < levels \<Longrightarrow> ready s p = t # ts \<Longrightarrow> \<forall>r<p. ready s r = [] \<Longrightarrow>
      \<exists>s'. get s = Some (Some t, s') \<and> ok s' \<and> ready s' = (ready s)(p := ts)"
begin

lemma drain_order:
  "ok s \<Longrightarrow> length (concat (map (ready s) [0..<levels])) \<le> n \<Longrightarrow>
     drain get n s = Some (concat (map (ready s) [0..<levels]))"
proof (induction n arbitrary: s)
  case 0
  then show ?case by simp
next
  case (Suc n)
  show ?case
  proof (cases "\<forall>p<levels. ready s p = []")
    case True
    then show ?thesis using get_none [OF Suc.prems(1)] by simp
  next
    case False
    then obtain p where p: "p < levels" "ready s p \<noteq> []" "\<forall>r<p. ready s r = []"
      using exists_least_iff [of "\<lambda>p. p < levels \<and> ready s p \<noteq> []"] by (metis order.strict_trans)
    then obtain t ts where ts: "ready s p = t # ts" by (cases "ready s p") auto
    from get_some [OF Suc.prems(1) p(1) ts p(3)] obtain s'
      where s': "get s = Some (Some t, s')" "ok s'" "ready s' = (ready s)(p := ts)"
      by blast
    have split: "[0..<levels] = [0..<p] @ p # [Suc p..<levels]"
      using p(1) by (metis le_add_same_cancel1 less_imp_le_nat upt_add_eq_append upt_conv_Cons zero_le
          add_0 le_add_diff_inverse)
    have none: "concat (map (ready s) [0..<p]) = []" using p(3) by simp
    moreover have "map ((ready s)(p := ts)) [0..<p] = map (ready s) [0..<p]"
      "map ((ready s)(p := ts)) [Suc p..<levels] = map (ready s) [Suc p..<levels]"
      by simp_all
    ultimately have c: "concat (map (ready s) [0..<levels]) = t # concat (map (ready s') [0..<levels])"
      unfolding split s'(3) using ts by (simp only: map_append concat_append list.map concat.simps) simp
    with Suc.prems(2) have "length (concat (map (ready s') [0..<levels])) \<le> n" by simp
    from Suc.IH [OF s'(2) this] s'(1) c show ?thesis by simp
  qed
qed

end

lemma scheduler_get_level:
  assumes inv: "kinv s" and p: "p < 64" "members s (ReadyQ p) = t # ts" "\<forall>r<p. members s (ReadyQ r) = []"
  shows "\<exists>s'. scheduler_get s = Some (Some t, s') \<and> kinv s' \<and>
    (\<lambda>q. members s' (ReadyQ q)) = (\<lambda>q. members s (ReadyQ q))(p := ts)"
proof -
  have rep: "krep s (members s)" using inv by (simp add: kinv_def)
  have "next_ready (members s) = Some p" using p by (simp add: next_ready_Some)
  then have sg: "spec_get (members s) = (Some t, (members s)(ReadyQ p := ts))"
    using p by (simp add: spec_get_def)
  obtain r s' where s': "scheduler_get s = Some (r, s')" "krep s' (snd (spec_get (members s)))"
    "r = fst (spec_get (members s))"
    by (rule scheduler_get_refines_krep [OF rep])
  from krep_members [OF s'(2)] sg have "members s' = (members s)(ReadyQ p := ts)" by simp
  with s' sg krep_kinv [OF s'(2)] show ?thesis by auto
qed

interpretation ready_tasks: priority_fifo scheduler_get kinv "\<lambda>s p. members s (ReadyQ p)" 64
proof
  show "scheduler_get s = Some (None, s)" if "kinv s" "\<forall>p<64. members s (ReadyQ p) = []" for s :: kernel_context_t
    using that scheduler_empty_krep [of s "members s"] by (simp add: kinv_def scheduler_get_empty)
qed (rule scheduler_get_level)

end
