(* ===== verification/CString.thy ===== *)
theory CString
  imports Machine
begin

text \<open>
  The freestanding string routines of \<^verbatim>\<open>src/cstdlib/string.c\<close>, on the bytes of RAM. Plain
  \<^verbatim>\<open>char\<close> is unsigned on ARM. The \<^verbatim>\<open>mem*\<close> routines count with a signed \<^verbatim>\<open>int\<close>
  that is compared with the unsigned \<^verbatim>\<open>count\<close>; incrementing it past \<open>2 ^ 31 - 1\<close> is undefined
  and modelled as \<open>None\<close>.
\<close>

subsection \<open>Operations\<close>

function strncpy_copy :: "(u32 \<Rightarrow> u8) \<Rightarrow> u32 \<Rightarrow> u32 \<Rightarrow> nat \<Rightarrow> nat \<Rightarrow> nat \<times> (u32 \<Rightarrow> u8)" where
  "strncpy_copy m dest src count i =
     (if i < count \<and> m (src + of_nat i) \<noteq> 0
      then strncpy_copy (m(dest + of_nat i := m (src + of_nat i))) dest src count (Suc i)
      else (i, m))"
  by pat_completeness auto
termination by (relation "measure (\<lambda>(m, d, s, n, i). n - i)") auto

function strncpy_pad :: "(u32 \<Rightarrow> u8) \<Rightarrow> u32 \<Rightarrow> nat \<Rightarrow> nat \<Rightarrow> (u32 \<Rightarrow> u8)" where
  "strncpy_pad m dest count i =
     (if i < count then strncpy_pad (m(dest + of_nat i := 0)) dest count (Suc i) else m)"
  by pat_completeness auto
termination by (relation "measure (\<lambda>(m, d, n, i). n - i)") auto

definition strncpy :: "(u32 \<Rightarrow> u8) \<Rightarrow> u32 \<Rightarrow> u32 \<Rightarrow> u32 \<Rightarrow> (u32 \<Rightarrow> u8)" where
  "strncpy m dest src count =
     (let (i, m) = strncpy_copy m dest src (unat count) 0 in strncpy_pad m dest (unat count) i)"

function strncmp_from :: "(u32 \<Rightarrow> u8) \<Rightarrow> u32 \<Rightarrow> u32 \<Rightarrow> nat \<Rightarrow> nat \<Rightarrow> int \<Rightarrow> int" where
  "strncmp_from m lhs rhs count i ret =
     (if i < count
      then
        (let ret = uint (m (lhs + of_nat i)) - uint (m (rhs + of_nat i))
         in if ret \<noteq> 0 \<or> m (lhs + of_nat i) = 0 then ret
            else strncmp_from m lhs rhs count (Suc i) ret)
      else ret)"
  by pat_completeness auto
termination by (relation "measure (\<lambda>(m, l, r, n, i, t). n - i)") auto

definition strncmp :: "(u32 \<Rightarrow> u8) \<Rightarrow> u32 \<Rightarrow> u32 \<Rightarrow> u32 \<Rightarrow> int" where
  "strncmp m lhs rhs count = strncmp_from m lhs rhs (unat count) 0 0"

function memchr_from :: "(u32 \<Rightarrow> u8) \<Rightarrow> u32 \<Rightarrow> u8 \<Rightarrow> nat \<Rightarrow> nat \<Rightarrow> u32 option option" where
  "memchr_from m p ch count i =
     (if i < count
      then
        (if m (p + of_nat i) = ch then Some (Some (p + of_nat i))
         else if Suc i < 2 ^ 31 then memchr_from m p ch count (Suc i) else None)
      else Some None)"
  by pat_completeness auto
termination by (relation "measure (\<lambda>(m, p, c, n, i). n - i)") auto

definition memchr :: "(u32 \<Rightarrow> u8) \<Rightarrow> u32 \<Rightarrow> i32 \<Rightarrow> u32 \<Rightarrow> u32 option option" where
  "memchr m p ch count = memchr_from m p (ucast ch) (unat count) 0"

function memcmp_from :: "(u32 \<Rightarrow> u8) \<Rightarrow> u32 \<Rightarrow> u32 \<Rightarrow> nat \<Rightarrow> nat \<Rightarrow> int option" where
  "memcmp_from m lhs rhs count i =
     (if i < count
      then
        (if m (lhs + of_nat i) < m (rhs + of_nat i) then Some (- 1)
         else if m (lhs + of_nat i) > m (rhs + of_nat i) then Some 1
         else if Suc i < 2 ^ 31 then memcmp_from m lhs rhs count (Suc i) else None)
      else Some 0)"
  by pat_completeness auto
termination by (relation "measure (\<lambda>(m, l, r, n, i). n - i)") auto

definition memcmp :: "(u32 \<Rightarrow> u8) \<Rightarrow> u32 \<Rightarrow> u32 \<Rightarrow> u32 \<Rightarrow> int option" where
  "memcmp m lhs rhs count = memcmp_from m lhs rhs (unat count) 0"

function memset_from :: "(u32 \<Rightarrow> u8) \<Rightarrow> u32 \<Rightarrow> u8 \<Rightarrow> nat \<Rightarrow> nat \<Rightarrow> (u32 \<Rightarrow> u8) option" where
  "memset_from m dest ch count i =
     (if i < count
      then
        (if Suc i < 2 ^ 31 then memset_from (m(dest + of_nat i := ch)) dest ch count (Suc i) else None)
      else Some m)"
  by pat_completeness auto
termination by (relation "measure (\<lambda>(m, d, c, n, i). n - i)") auto

definition memset :: "(u32 \<Rightarrow> u8) \<Rightarrow> u32 \<Rightarrow> i32 \<Rightarrow> u32 \<Rightarrow> (u32 \<Rightarrow> u8) option" where
  "memset m dest ch count = memset_from m dest (ucast ch) (unat count) 0"

function memcpy_from :: "(u32 \<Rightarrow> u8) \<Rightarrow> u32 \<Rightarrow> u32 \<Rightarrow> nat \<Rightarrow> nat \<Rightarrow> (u32 \<Rightarrow> u8) option" where
  "memcpy_from m dest src count i =
     (if i < count
      then
        (if Suc i < 2 ^ 31
         then memcpy_from (m(dest + of_nat i := m (src + of_nat i))) dest src count (Suc i)
         else None)
      else Some m)"
  by pat_completeness auto
termination by (relation "measure (\<lambda>(m, d, s, n, i). n - i)") auto

definition memcpy :: "(u32 \<Rightarrow> u8) \<Rightarrow> u32 \<Rightarrow> u32 \<Rightarrow> u32 \<Rightarrow> (u32 \<Rightarrow> u8) option" where
  "memcpy m dest src count = memcpy_from m dest src (unat count) 0"

declare strncpy_copy.simps [simp del] strncpy_pad.simps [simp del] strncmp_from.simps [simp del]
  memchr_from.simps [simp del] memcmp_from.simps [simp del] memset_from.simps [simp del]
  memcpy_from.simps [simp del]

subsection \<open>Copying\<close>

text \<open>
  The memory in which the bytes from \<open>dest + i\<close> up to \<open>dest + n\<close> come from \<open>f\<close>: the result of
  every copying loop, written down at once.
\<close>

definition overlay :: "(u32 \<Rightarrow> u8) \<Rightarrow> u32 \<Rightarrow> nat \<Rightarrow> nat \<Rightarrow> (nat \<Rightarrow> u8) \<Rightarrow> (u32 \<Rightarrow> u8)" where
  "overlay m dest i n f =
     (\<lambda>a. let k = unat (a - dest) in if i \<le> k \<and> k < n then f k else m a)"

lemma overlay_empty [simp]: "n \<le> i \<Longrightarrow> overlay m dest i n f = m"
  by (rule ext) (auto simp: overlay_def Let_def)

lemma unat_offset [simp]: "k < 2 ^ 32 \<Longrightarrow> unat (of_nat k :: u32) = k"
  by (simp add: unat_of_nat)

lemma offset_split: "a = dest + of_nat (unat (a - dest :: u32))"
  by simp

lemma offset_eq_iff: "k < 2 ^ 32 \<Longrightarrow> a = dest + of_nat k \<longleftrightarrow> unat (a - dest :: u32) = k"
  using offset_split [of a dest] by auto

lemma addr_range_iff:
  assumes "n \<le> 2 ^ 32"
  shows "a \<in> addr_range dest n \<longleftrightarrow> unat (a - dest) < n"
proof
  assume "a \<in> addr_range dest n"
  then obtain k where "k < n" "a = dest + of_nat k" by (auto simp: addr_range_def)
  with assms show "unat (a - dest) < n" by simp
next
  assume "unat (a - dest) < n"
  then show "a \<in> addr_range dest n" by (subst offset_split [of a dest]) (rule addr_rangeI)
qed

lemma overlay_inside:
  "i \<le> k \<Longrightarrow> k < n \<Longrightarrow> k < 2 ^ 32 \<Longrightarrow> overlay m dest i n f (dest + of_nat k) = f k"
  by (simp add: overlay_def unat_of_nat)

lemma overlay_outside:
  "n \<le> 2 ^ 32 \<Longrightarrow> a \<notin> addr_range dest n \<Longrightarrow> overlay m dest i n f a = m a"
  by (simp add: overlay_def addr_range_iff)

lemma overlay_step:
  assumes "i < n" "n \<le> 2 ^ 32"
  shows "overlay (m(dest + of_nat i := f i)) dest (Suc i) n f = overlay m dest i n f"
proof
  fix a
  show "overlay (m(dest + of_nat i := f i)) dest (Suc i) n f a = overlay m dest i n f a"
    using assms offset_eq_iff [of i a dest] by (auto simp: overlay_def Let_def)
qed

lemma overlay_cong: "(\<And>k. k < n \<Longrightarrow> f k = g k) \<Longrightarrow> overlay m dest i n f = overlay m dest i n g"
  by (rule ext) (simp add: overlay_def Let_def)

lemma bytes_at_overlay:
  "n \<le> 2 ^ 32 \<Longrightarrow> bytes_at (overlay m dest 0 n f) dest n = map f [0..<n]"
  by (simp add: bytes_at_def overlay_inside)

text \<open>\<open>memcpy\<close> between ranges that do not overlap, as its \<^verbatim>\<open>restrict\<close> pointers demand.\<close>

lemma memcpy_from_overlay:
  assumes "n < 2 ^ 31" "addr_range dest n \<inter> addr_range src n = {}"
  shows "memcpy_from m dest src n i = Some (overlay m dest i n (\<lambda>k. m (src + of_nat k)))"
proof (induction "n - i" arbitrary: m i)
  case 0
  then show ?case by (subst memcpy_from.simps) simp
next
  case (Suc d)
  then have i: "i < n" by simp
  let ?m = "m(dest + of_nat i := m (src + of_nat i))"
  have eq: "?m (src + of_nat k) = m (src + of_nat k)" if "k < n" for k
    using assms(2) that i addr_rangeI [of k n src] addr_rangeI [of i n dest] by auto
  have "memcpy_from m dest src n i = memcpy_from ?m dest src n (Suc i)"
    using i assms(1) by (subst memcpy_from.simps) simp
  also have "\<dots> = Some (overlay ?m dest (Suc i) n (\<lambda>k. ?m (src + of_nat k)))"
    using Suc by (intro Suc(1)) simp
  also have "overlay ?m dest (Suc i) n (\<lambda>k. ?m (src + of_nat k)) =
      overlay ?m dest (Suc i) n (\<lambda>k. m (src + of_nat k))"
    using eq by (intro overlay_cong) simp
  also have "\<dots> = overlay m dest i n (\<lambda>k. m (src + of_nat k))"
    using i assms(1) by (intro overlay_step [where f = "\<lambda>k. m (src + of_nat k)"]) auto
  finally show ?case .
qed

lemma memcpy_overlay:
  assumes "unat count < 2 ^ 31" "addr_range dest (unat count) \<inter> addr_range src (unat count) = {}"
  shows "memcpy m dest src count = Some (overlay m dest 0 (unat count) (\<lambda>k. m (src + of_nat k)))"
  using memcpy_from_overlay [OF assms] by (simp add: memcpy_def)

lemma memcpy_copies:
  assumes "unat count < 2 ^ 31" "addr_range dest (unat count) \<inter> addr_range src (unat count) = {}"
  obtains m' where "memcpy m dest src count = Some m'"
    and "bytes_at m' dest (unat count) = bytes_at m src (unat count)"
    and "\<And>a. a \<notin> addr_range dest (unat count) \<Longrightarrow> m' a = m a"
proof
  let ?m = "overlay m dest 0 (unat count) (\<lambda>k. m (src + of_nat k))"
  show "memcpy m dest src count = Some ?m" by (rule memcpy_overlay [OF assms])
  show "bytes_at ?m dest (unat count) = bytes_at m src (unat count)"
    using assms(1) by (subst bytes_at_overlay) (simp_all add: bytes_at_def)
  show "?m a = m a" if "a \<notin> addr_range dest (unat count)" for a
    using that assms(1) by (simp add: overlay_outside)
qed

lemma memcpy_total: "unat count < 2 ^ 31 \<Longrightarrow> \<exists>m'. memcpy m dest src count = Some m'"
proof -
  assume c: "unat count < 2 ^ 31"
  have "\<exists>m'. memcpy_from m dest src (unat count) i = Some m'" for m i
  proof (induction "unat count - i" arbitrary: m i)
    case 0
    then show ?case by (subst memcpy_from.simps) simp
  next
    case (Suc d)
    then show ?case using c Suc(1) [of "Suc i"] by (subst memcpy_from.simps) auto
  qed
  then show ?thesis by (simp add: memcpy_def)
qed

end
