(* ===== verification/Bwio.thy ===== *)
theory Bwio
  imports Machine
begin

text \<open>
  The busy-wait I/O routines of \<^verbatim>\<open>src/bwio/bwio.c\<close>, which the kernel and the servers
  use for diagnostics. A C string is the list of its bytes before the terminating zero, so the end
  of a list is where the C code reads the zero byte. The variable arguments of \<^verbatim>\<open>bwprintf\<close> are a list
  of words and strings; reading one as the wrong kind is undefined behaviour (\<open>None\<close>).

  A wait for the UART may never end, so it is a partial function. \<open>uart_tx_live\<close> is what a
  working transmitter guarantees: its FIFO is not full for ever.
\<close>

subsection \<open>Data\<close>

type_synonym cstring = "u8 list"

datatype va_val = VaWord u32 | VaStr cstring

definition cstr :: "string \<Rightarrow> cstring" where
  "cstr s = map of_char s"

definition COM1 :: i32 where
  "COM1 = 0"

definition COM2 :: i32 where
  "COM2 = 1"

subsection \<open>Register level routines\<close>

definition uart_base :: "i32 \<Rightarrow> u32 option" where
  "uart_base channel =
     (if channel = COM1 then Some UART1_BASE else if channel = COM2 then Some UART2_BASE else None)"

definition bwsetfifo :: "i32 \<Rightarrow> i32 \<Rightarrow> 'a machine_scheme \<Rightarrow> i32 \<times> 'a machine_scheme" where
  "bwsetfifo channel st s =
     (case uart_base channel of
        None \<Rightarrow> (- 1, s)
      | Some base \<Rightarrow>
          (let line = base + UART_LCRH_OFFSET;
               (buf, s) = reg_read line s;
               buf = (if st \<noteq> 0 then buf OR FEN_MASK else buf AND NOT FEN_MASK)
           in (0, reg_write line buf s)))"

definition bwsetspeed :: "i32 \<Rightarrow> i32 \<Rightarrow> 'a machine_scheme \<Rightarrow> i32 \<times> 'a machine_scheme" where
  "bwsetspeed channel speed s =
     (case uart_base channel of
        None \<Rightarrow> (- 1, s)
      | Some base \<Rightarrow>
          (let high = base + UART_LCRM_OFFSET; low = base + UART_LCRL_OFFSET
           in if speed = 115200 then (0, reg_write low 0x3 (reg_write high 0x0 s))
              else if speed = 2400 then (0, reg_write low 0xbf (reg_write high 0x0 s))
              else (- 1, s)))"

partial_function (option) wait_tx :: "u32 \<Rightarrow> 'a machine_scheme \<Rightarrow> 'a machine_scheme option" where
  "wait_tx flags s =
     (let (v, s) = reg_read flags s in if v AND TXFF_MASK \<noteq> 0 then wait_tx flags s else Some s)"

definition bwputc :: "i32 \<Rightarrow> u8 \<Rightarrow> 'a machine_scheme \<Rightarrow> (i32 \<times> 'a machine_scheme) option" where
  "bwputc channel c s =
     (case uart_base channel of
        None \<Rightarrow> Some (- 1, s)
      | Some base \<Rightarrow> do {
          s \<leftarrow> wait_tx (base + UART_FLAG_OFFSET) s;
          Some (0, reg_write (base + UART_DATA_OFFSET) (ucast c) s)
        })"

partial_function (option) wait_rx :: "u32 \<Rightarrow> 'a machine_scheme \<Rightarrow> 'a machine_scheme option" where
  "wait_rx flags s =
     (let (v, s) = reg_read flags s in if v AND RXFF_MASK = 0 then wait_rx flags s else Some s)"

definition bwgetc :: "i32 \<Rightarrow> 'a machine_scheme \<Rightarrow> (i32 \<times> 'a machine_scheme) option" where
  "bwgetc channel s =
     (case uart_base channel of
        None \<Rightarrow> Some (- 1, s)
      | Some base \<Rightarrow> do {
          s \<leftarrow> wait_rx (base + UART_FLAG_OFFSET) s;
          let (v, s) = reg_read (base + UART_DATA_OFFSET) s;
          let c = (ucast v :: u8);
          Some (ucast c, s)
        })"

subsection \<open>Printing\<close>

definition c2x :: "u8 \<Rightarrow> u8" where
  "c2x ch = (if ch \<le> 9 then 48 + ch else 97 + ch - 10)"

definition bwputx :: "i32 \<Rightarrow> u8 \<Rightarrow> 'a machine_scheme \<Rightarrow> (i32 \<times> 'a machine_scheme) option" where
  "bwputx channel c s = do {
     let chh = c2x (c div 16);
     let chl = c2x (c mod 16);
     (_, s) \<leftarrow> bwputc channel chh s;
     bwputc channel chl s
   }"

definition bwputr :: "i32 \<Rightarrow> u32 \<Rightarrow> 'a machine_scheme \<Rightarrow> (i32 \<times> 'a machine_scheme) option" where
  "bwputr channel reg s = do {
     (_, s) \<leftarrow> bwputx channel (ucast (drop_bit 24 reg)) s;
     (_, s) \<leftarrow> bwputx channel (ucast (drop_bit 16 reg)) s;
     (_, s) \<leftarrow> bwputx channel (ucast (drop_bit 8 reg)) s;
     (_, s) \<leftarrow> bwputx channel (ucast reg) s;
     bwputc channel 32 s
   }"

fun bwputstr :: "i32 \<Rightarrow> cstring \<Rightarrow> 'a machine_scheme \<Rightarrow> (i32 \<times> 'a machine_scheme) option" where
  "bwputstr channel [] s = Some (0, s)"
| "bwputstr channel (c # cs) s =
     (if c = 0 then Some (0, s)
      else do {
        (r, s) \<leftarrow> bwputc channel c s;
        if sint r < 0 then Some (- 1, s) else bwputstr channel cs s
      })"

fun bwputw_skip :: "i32 \<Rightarrow> cstring \<Rightarrow> i32" where
  "bwputw_skip n [] = n"
| "bwputw_skip n (c # cs) = (if c \<noteq> 0 \<and> sint n > 0 then bwputw_skip (n - 1) cs else n)"

fun bwputw_pad :: "i32 \<Rightarrow> nat \<Rightarrow> u8 \<Rightarrow> 'a machine_scheme \<Rightarrow> 'a machine_scheme option" where
  "bwputw_pad channel 0 fc s = Some s"
| "bwputw_pad channel (Suc n) fc s = do { (_, s) \<leftarrow> bwputc channel fc s; bwputw_pad channel n fc s }"

fun bwputw_text :: "i32 \<Rightarrow> cstring \<Rightarrow> 'a machine_scheme \<Rightarrow> 'a machine_scheme option" where
  "bwputw_text channel [] s = Some s"
| "bwputw_text channel (c # cs) s =
     (if c = 0 then Some s else do { (_, s) \<leftarrow> bwputc channel c s; bwputw_text channel cs s })"

definition bwputw :: "i32 \<Rightarrow> i32 \<Rightarrow> u8 \<Rightarrow> cstring \<Rightarrow> 'a machine_scheme \<Rightarrow> 'a machine_scheme option" where
  "bwputw channel n fc bf s = do {
     let n = bwputw_skip n bf;
     s \<leftarrow> bwputw_pad channel (nat (sint n)) fc s;
     bwputw_text channel bf s
   }"

subsection \<open>Numbers\<close>

definition bwa2d :: "u8 \<Rightarrow> int" where
  "bwa2d ch =
     (if 48 \<le> ch \<and> ch \<le> 57 then uint ch - 48
      else if 97 \<le> ch \<and> ch \<le> 102 then uint ch - 97 + 10
      else if 65 \<le> ch \<and> ch \<le> 70 then uint ch - 65 + 10
      else - 1)"

fun bwa2i_loop :: "u8 \<Rightarrow> cstring \<Rightarrow> i32 \<Rightarrow> i32 \<Rightarrow> u8 \<times> cstring \<times> i32" where
  "bwa2i_loop ch src base num =
     (let digit = bwa2d ch
      in if digit < 0 \<or> digit > sint base then (ch, src, num)
         else
           (let num = num * base + of_int digit
            in case src of [] \<Rightarrow> (0, [], num) | c # cs \<Rightarrow> bwa2i_loop c cs base num))"

definition bwa2i :: "u8 \<Rightarrow> cstring \<Rightarrow> i32 \<Rightarrow> u8 \<times> cstring \<times> i32" where
  "bwa2i ch src base = bwa2i_loop ch src base 0"

partial_function (option) ui2a_scale :: "u32 \<Rightarrow> u32 \<Rightarrow> u32 \<Rightarrow> u32 option" where
  "ui2a_scale num base d =
     (if d = 0 then None else if num div d \<ge> base then ui2a_scale num base (d * base) else Some d)"

partial_function (option) ui2a_digits :: "u32 \<Rightarrow> u32 \<Rightarrow> u32 \<Rightarrow> bool \<Rightarrow> cstring option" where
  "ui2a_digits num base d n =
     (if d = 0 then Some []
      else if base = 0 then None
      else
        (let dgt = num div d; num = num mod d; d = d div base
         in if n \<or> sint dgt > 0 \<or> d = 0
            then do {
              cs \<leftarrow> ui2a_digits num base d True;
              Some (ucast (dgt + (if sint dgt < 10 then 48 else 97 - 10)) # cs)
            }
            else ui2a_digits num base d n))"

definition bwui2a :: "u32 \<Rightarrow> u32 \<Rightarrow> cstring option" where
  "bwui2a num base = do { d \<leftarrow> ui2a_scale num base 1; ui2a_digits num base d False }"

definition bwi2a :: "i32 \<Rightarrow> cstring option" where
  "bwi2a num =
     (if sint num < 0 then do { cs \<leftarrow> bwui2a (- num) 10; Some (45 # cs) } else bwui2a num 10)"

subsection \<open>Formatted output\<close>

lemma bwa2i_loop_length:
  "bwa2i_loop ch src base num = (ch', src', num') \<Longrightarrow> length src' \<le> length src"
proof (induction ch src base num rule: bwa2i_loop.induct)
  case (1 ch src base num)
  show ?case
  proof (cases "bwa2d ch < 0 \<or> bwa2d ch > sint base")
    case True
    with "1.prems" show ?thesis by (simp add: bwa2i_loop.simps [of ch src])
  next
    case False
    show ?thesis
    proof (cases src)
      case Nil
      with False "1.prems" show ?thesis by simp
    next
      case (Cons c cs)
      from "1.prems" have "bwa2i_loop c cs base (num * base + of_int (bwa2d ch)) = (ch', src', num')"
        using False Cons unfolding bwa2i_loop.simps [of ch src] by (simp add: Let_def)
      from "1.IH" [OF refl False refl Cons this] Cons show ?thesis by simp
    qed
  qed
qed

declare bwa2i_loop.simps [simp del]

text \<open>One conversion: the flags after the percent sign, then the conversion character.\<close>

definition parse_spec :: "cstring \<Rightarrow> u8 \<times> cstring \<times> u8 \<times> i32" where
  "parse_spec fmt =
     (let (ch, fmt) = (case fmt of [] \<Rightarrow> (0, []) | c # cs \<Rightarrow> (c, cs))
      in if ch = 48
         then (case fmt of [] \<Rightarrow> (0, [], 1, 0) | c # cs \<Rightarrow> (c, cs, 1, 0))
         else if 49 \<le> ch \<and> ch \<le> 57
         then (let (ch, fmt, w) = bwa2i ch fmt 10 in (ch, fmt, 0, w))
         else (ch, fmt, 0, 0))"

lemma parse_spec_length: "parse_spec fmt = (ch, rest, lz, w) \<Longrightarrow> length rest \<le> length fmt"
  by (auto simp: parse_spec_def Let_def bwa2i_def dest!: bwa2i_loop_length
      split: list.splits if_splits prod.splits)

fun convert :: "i32 \<Rightarrow> u8 \<Rightarrow> u8 \<Rightarrow> i32 \<Rightarrow> va_val list \<Rightarrow> 'a machine_scheme \<Rightarrow>
  (va_val list \<times> 'a machine_scheme) option"
where
  "convert channel ch lz w va s =
     (if ch = 99 then
        (case va of VaWord v # va \<Rightarrow> do { (_, s) \<leftarrow> bwputc channel (ucast v) s; Some (va, s) } | _ \<Rightarrow> None)
      else if ch = 115 then
        (case va of VaStr bf # va \<Rightarrow> do { s \<leftarrow> bwputw channel w 0 bf s; Some (va, s) } | _ \<Rightarrow> None)
      else if ch = 117 then
        (case va of VaWord v # va \<Rightarrow> do { bf \<leftarrow> bwui2a v 10; s \<leftarrow> bwputw channel w lz bf s; Some (va, s) }
          | _ \<Rightarrow> None)
      else if ch = 100 then
        (case va of VaWord v # va \<Rightarrow> do { bf \<leftarrow> bwi2a v; s \<leftarrow> bwputw channel w lz bf s; Some (va, s) }
          | _ \<Rightarrow> None)
      else if ch = 120 then
        (case va of VaWord v # va \<Rightarrow> do { bf \<leftarrow> bwui2a v 16; s \<leftarrow> bwputw channel w lz bf s; Some (va, s) }
          | _ \<Rightarrow> None)
      else if ch = 37 then do { (_, s) \<leftarrow> bwputc channel ch s; Some (va, s) }
      else Some (va, s))"

function bwformat :: "i32 \<Rightarrow> cstring \<Rightarrow> va_val list \<Rightarrow> 'a machine_scheme \<Rightarrow> 'a machine_scheme option" where
  "bwformat channel fmt va s =
     (case fmt of
        [] \<Rightarrow> Some s
      | ch # fmt \<Rightarrow>
          if ch = 0 then Some s
          else if ch \<noteq> 37 then do { (_, s) \<leftarrow> bwputc channel ch s; bwformat channel fmt va s }
          else
            (case parse_spec fmt of
               (ch, fmt, lz, w) \<Rightarrow>
                 if ch = 0 then Some s
                 else do { (va, s) \<leftarrow> convert channel ch lz w va s; bwformat channel fmt va s }))"
  by pat_completeness auto
termination
  by (relation "measure (\<lambda>(channel, fmt, va, s). length fmt)")
    (auto dest!: parse_spec_length [OF sym] simp: le_imp_less_Suc)

declare bwformat.simps [simp del]

definition bwprintf :: "i32 \<Rightarrow> cstring \<Rightarrow> va_val list \<Rightarrow> 'a machine_scheme \<Rightarrow> 'a machine_scheme option" where
  "bwprintf channel fmt va s = bwformat channel fmt va s"

end
