(* ===== verification/KernelCalls.thy ===== *)
theory KernelCalls
  imports KernelState CString Bwio
begin

text \<open>
  The system call handlers \<^verbatim>\<open>kernel_*\<close> of \<^verbatim>\<open>src/main.c\<close>, one definition each. The active
  task is passed as the index of its descriptor; every handler returns the value of the C
  function (where it has one) and the new state.
\<close>

subsection \<open>Tasks\<close>

definition kernel_create ::
  "nat \<Rightarrow> i32 \<Rightarrow> u32 \<Rightarrow> kernel_context_t \<Rightarrow> (i32 \<times> kernel_context_t) option"
where
  "kernel_create active_td priority code ctx =
     (if sint priority < 0 \<or> sint priority > 63 then Some (- 1, ctx)
      else if unat (next_free_td ctx) \<ge> TASK_DESCRIPTOR_MAX_TASKS then Some (- 2, ctx)
      else do {
        let new_task = unat (next_free_td ctx);
        ctx \<leftarrow> task_descriptor_init new_task (ucast (next_free_td ctx)) (ucast priority)
                 (Some active_td) code ctx;
        (_, ctx) \<leftarrow> scheduler_put new_task ctx;
        (_, ctx) \<leftarrow> scheduler_put active_td ctx;
        let ctx = ctx\<lparr>next_free_td := next_free_td ctx + 1\<rparr>;
        td \<leftarrow> td_get new_task ctx;
        Some (ucast (td_tid td), ctx)
      })"

definition kernel_exit :: "nat \<Rightarrow> kernel_context_t \<Rightarrow> (bool \<times> kernel_context_t) option" where
  "kernel_exit active_td ctx = do {
     ctx \<leftarrow> td_update active_td (\<lambda>td. td\<lparr>td_state := EXITED\<rparr>) ctx;
     Some (scheduler_empty ctx, ctx)
   }"

definition kernel_pass :: "nat \<Rightarrow> kernel_context_t \<Rightarrow> kernel_context_t option" where
  "kernel_pass active_td ctx = do { (_, ctx) \<leftarrow> scheduler_put active_td ctx; Some ctx }"

definition kernel_mytid :: "nat \<Rightarrow> kernel_context_t \<Rightarrow> (i32 \<times> kernel_context_t) option" where
  "kernel_mytid active_td ctx = do {
     (_, ctx) \<leftarrow> scheduler_put active_td ctx;
     td \<leftarrow> td_get active_td ctx;
     Some (ucast (td_tid td), ctx)
   }"

definition kernel_parenttid :: "nat \<Rightarrow> kernel_context_t \<Rightarrow> (i32 \<times> kernel_context_t) option" where
  "kernel_parenttid active_td ctx = do {
     (_, ctx) \<leftarrow> scheduler_put active_td ctx;
     td \<leftarrow> td_get active_td ctx;
     case td_parent td of
       None \<Rightarrow> Some (- 1, ctx)
     | Some p \<Rightarrow> do { parent \<leftarrow> td_get p ctx; Some (ucast (td_tid parent), ctx) }
   }"

subsection \<open>Messages\<close>

text \<open>The two ways a message enters \<open>kernel_send\<close>: the receiver waits for it, or it has to queue.\<close>

definition send_to_waiting ::
  "nat \<Rightarrow> nat \<Rightarrow> u32 \<Rightarrow> u32 \<Rightarrow> kernel_context_t \<Rightarrow> kernel_context_t option"
where
  "send_to_waiting active_td receiver msg msg_len ctx = do {
     r \<leftarrow> td_get receiver ctx;
     m \<leftarrow> memcpy (mem ctx) (mp_msg (td_message_params r)) msg msg_len;
     let ctx = ctx\<lparr>mem := m\<rparr>;
     a \<leftarrow> td_get active_td ctx;
     let ctx = ctx\<lparr>mem := (mem ctx)(mp_tid (td_message_params r) := td_tid a)\<rparr>;
     ctx \<leftarrow> task_descriptor_set_return_value receiver (ucast (td_tid a)) ctx;
     (_, ctx) \<leftarrow> scheduler_put receiver ctx;
     td_update active_td (\<lambda>td. td\<lparr>td_state := REPLY_BLOCKED\<rparr>) ctx
   }"

definition send_to_queue ::
  "nat \<Rightarrow> nat \<Rightarrow> u32 \<Rightarrow> u32 \<Rightarrow> kernel_context_t \<Rightarrow> kernel_context_t option"
where
  "send_to_queue active_td receiver msg msg_len ctx = do {
     r \<leftarrow> td_get receiver ctx;
     (_, q, h) \<leftarrow> queue_put (td_send_q r) (nodes ctx) (Some (SendNode active_td));
     ctx \<leftarrow> td_update receiver (\<lambda>td. td\<lparr>td_send_q := q\<rparr>) (ctx\<lparr>nodes := h\<rparr>);
     ctx \<leftarrow> td_update active_td (\<lambda>td. td\<lparr>td_state := RECEIVE_BLOCKED\<rparr>) ctx;
     td_update active_td (\<lambda>td. td\<lparr>td_message_params :=
       (td_message_params td)\<lparr>mp_msg := msg, mp_msg_len := msg_len\<rparr>\<rparr>) ctx
   }"

definition kernel_send ::
  "nat \<Rightarrow> u8 \<Rightarrow> u32 \<Rightarrow> u32 \<Rightarrow> u32 \<Rightarrow> u32 \<Rightarrow> kernel_context_t \<Rightarrow> (i32 \<times> kernel_context_t) option"
where
  "kernel_send active_td tid msg msg_len rep rep_len ctx = do {
     let receiver = unat tid;
     r \<leftarrow> td_get receiver ctx;
     if td_tid r \<noteq> tid then do {
       (_, ctx) \<leftarrow> scheduler_put active_td ctx;
       Some (- 1, ctx)
     }
     else if td_state r = SEND_BLOCKED \<and> mp_msg_len (td_message_params r) \<noteq> msg_len then do {
       (_, ctx) \<leftarrow> scheduler_put active_td ctx;
       Some (- 2, ctx)
     }
     else do {
       ctx \<leftarrow> (if td_state r = SEND_BLOCKED
              then send_to_waiting active_td receiver msg msg_len ctx
              else send_to_queue active_td receiver msg msg_len ctx);
       ctx \<leftarrow> td_update active_td (\<lambda>td. td\<lparr>td_message_params :=
                (td_message_params td)\<lparr>mp_rep := rep, mp_rep_len := rep_len\<rparr>\<rparr>) ctx;
       Some (0, ctx)
     }
   }"

definition kernel_receive ::
  "nat \<Rightarrow> u32 \<Rightarrow> u32 \<Rightarrow> u32 \<Rightarrow> kernel_context_t \<Rightarrow> (i32 \<times> kernel_context_t) option"
where
  "kernel_receive active_td tid msg msg_len ctx = do {
     a \<leftarrow> td_get active_td ctx;
     if \<not> queue_empty (td_send_q a) then do {
       (sender, q, h) \<leftarrow> queue_get (td_send_q a) (nodes ctx);
       ctx \<leftarrow> td_update active_td (\<lambda>td. td\<lparr>td_send_q := q\<rparr>) (ctx\<lparr>nodes := h\<rparr>);
       sender \<leftarrow> sender;
       sd \<leftarrow> td_get sender ctx;
       if mp_msg_len (td_message_params sd) \<noteq> msg_len then do {
         (_, ctx) \<leftarrow> scheduler_put active_td ctx;
         Some (- 1, ctx)
       }
       else do {
         m \<leftarrow> memcpy (mem ctx) msg (mp_msg (td_message_params sd)) msg_len;
         let ctx = ctx\<lparr>mem := m\<rparr>;
         let ctx = ctx\<lparr>mem := (mem ctx)(tid := td_tid sd)\<rparr>;
         (_, ctx) \<leftarrow> scheduler_put active_td ctx;
         ctx \<leftarrow> td_update sender (\<lambda>td. td\<lparr>td_state := REPLY_BLOCKED\<rparr>) ctx;
         Some (ucast (mem ctx tid), ctx)
       }
     }
     else do {
       ctx \<leftarrow> td_update active_td (\<lambda>td. td\<lparr>td_state := SEND_BLOCKED, td_message_params :=
                (td_message_params td)\<lparr>mp_tid := tid, mp_msg := msg, mp_msg_len := msg_len\<rparr>\<rparr>) ctx;
       Some (0, ctx)
     }
   }"

definition kernel_reply ::
  "nat \<Rightarrow> u8 \<Rightarrow> u32 \<Rightarrow> u32 \<Rightarrow> kernel_context_t \<Rightarrow> (i32 \<times> kernel_context_t) option"
where
  "kernel_reply active_td tid rep rep_len ctx = do {
     let reply_receiver = unat tid;
     r \<leftarrow> td_get reply_receiver ctx;
     if td_tid r \<noteq> tid then do {
       (_, ctx) \<leftarrow> scheduler_put active_td ctx;
       Some (- 1, ctx)
     }
     else if mp_rep_len (td_message_params r) \<noteq> rep_len then do {
       (_, ctx) \<leftarrow> scheduler_put active_td ctx;
       Some (- 2, ctx)
     }
     else do {
       m \<leftarrow> memcpy (mem ctx) (mp_rep (td_message_params r)) rep rep_len;
       let ctx = ctx\<lparr>mem := m\<rparr>;
       ctx \<leftarrow> task_descriptor_set_return_value reply_receiver 0 ctx;
       (_, ctx) \<leftarrow> scheduler_put reply_receiver ctx;
       (_, ctx) \<leftarrow> scheduler_put active_td ctx;
       Some (0, ctx)
     }
   }"

subsection \<open>Events and panic\<close>

definition enable_event_interrupt :: "u32 \<Rightarrow> 'a machine_scheme \<Rightarrow> 'a machine_scheme" where
  "enable_event_interrupt event s =
     (if event = SYS_CALL_EVENT_UART1_TX then reg_set_bits (UART1_BASE + UART_CTLR_OFFSET) TIEN_MASK s
      else if event = SYS_CALL_EVENT_UART2_TX then reg_set_bits (UART2_BASE + UART_CTLR_OFFSET) TIEN_MASK s
      else if event = SYS_CALL_EVENT_UART1_RX then reg_set_bits (UART1_BASE + UART_CTLR_OFFSET) RIEN_MASK s
      else if event = SYS_CALL_EVENT_UART2_RX then reg_set_bits (UART2_BASE + UART_CTLR_OFFSET) RIEN_MASK s
      else if event = SYS_CALL_EVENT_UART1_MS then reg_set_bits (UART1_BASE + UART_CTLR_OFFSET) MSIEN_MASK s
      else s)"

definition kernel_await_event ::
  "nat \<Rightarrow> u32 \<Rightarrow> kernel_context_t \<Rightarrow> (i32 \<times> kernel_context_t) option"
where
  "kernel_await_event active_td event ctx =
     (if unat event \<ge> EVENT_HANDLER_MAX_EVENTS then do {
        (_, ctx) \<leftarrow> scheduler_put active_td ctx;
        Some (- 1, ctx)
      }
      else do {
        let ctx = enable_event_interrupt event ctx;
        (_, ctx) \<leftarrow> event_handler_add_task event active_td ctx;
        Some (0, ctx)
      })"

definition kernel_panic :: "nat \<Rightarrow> cstring \<Rightarrow> kernel_context_t \<Rightarrow> kernel_context_t option" where
  "kernel_panic active_td msg ctx = do {
     let ctx = ctx\<lparr>sch := (sch ctx)\<lparr>bitmap := 0\<rparr>\<rparr>;
     bwprintf COM2 (cstr (''Panic: %s'' @ [CHR 0x0A, CHR 0x0D])) [VaStr msg] ctx
   }"

end
