(* ===== verification/KernelMain.thy ===== *)
theory KernelMain
  imports KernelCalls
begin

text \<open>
  The rest of \<^verbatim>\<open>src/main.c\<close>: the dispatcher \<^verbatim>\<open>handle\<close> for software and hardware interrupts,
  the accounting for the idle task, start-up, shutdown and the main loop.

  A system call's arguments are the first words of the register frame that the kernel entry pushed
  on the task's stack; \<^verbatim>\<open>send_params_t\<close> is read from the task's memory at its ARM layout.
  The task that runs between two kernel entries is the parameter \<open>activate\<close> of the loop.
\<close>

subsection \<open>System call codes\<close>

datatype sys_code_t =
  SYS_CODE_EXIT | SYS_CODE_PASS | SYS_CODE_CREATE | SYS_CODE_MYTID | SYS_CODE_PARENTTID |
  SYS_CODE_SEND | SYS_CODE_RECEIVE | SYS_CODE_REPLY | SYS_CODE_AWAITEVENT | SYS_CODE_PANIC |
  SYS_CODE_QUIT

definition sys_codes :: "sys_code_t list" where
  "sys_codes = [SYS_CODE_EXIT, SYS_CODE_PASS, SYS_CODE_CREATE, SYS_CODE_MYTID, SYS_CODE_PARENTTID,
     SYS_CODE_SEND, SYS_CODE_RECEIVE, SYS_CODE_REPLY, SYS_CODE_AWAITEVENT, SYS_CODE_PANIC,
     SYS_CODE_QUIT]"

definition sys_code :: "u32 \<Rightarrow> sys_code_t option" where
  "sys_code req = arr_get sys_codes (unat req)"

subsection \<open>The idle task\<close>

definition IDLE_TASK_TID :: u8 where
  "IDLE_TASK_TID = 1"

definition idle_exit_addr :: u32 where
  "idle_exit_addr = MEM_TASK_STACK_START (ucast IDLE_TASK_TID) - 0x100"

definition non_idle_time_addr :: u32 where
  "non_idle_time_addr = MEM_TASK_STACK_START (ucast IDLE_TASK_TID) - 0x104"

definition update_idle_task :: "kernel_context_t \<Rightarrow> kernel_context_t" where
  "update_idle_task ctx =
     (let ctx = ctx\<lparr>mem := (mem ctx)(idle_exit_addr := of_bool (event_handler_empty ctx))\<rparr>;
          (t, ctx) = clock ctx;
          cur_time = (ucast t :: u32);
          total = load32 (mem ctx) non_idle_time_addr + (cur_time - last_idle_time ctx)
      in ctx\<lparr>mem := store32 (mem ctx) non_idle_time_addr total\<rparr>)"

definition end_idle_task :: "kernel_context_t \<Rightarrow> kernel_context_t" where
  "end_idle_task ctx = (let (t, ctx) = clock ctx in ctx\<lparr>last_idle_time := ucast t\<rparr>)"

subsection \<open>Software interrupts\<close>

partial_function (option) read_cstring :: "(u32 \<Rightarrow> u8) \<Rightarrow> u32 \<Rightarrow> cstring option" where
  "read_cstring m a =
     (if m a = 0 then Some [] else do { cs \<leftarrow> read_cstring m (a + 1); Some (m a # cs) })"

definition handle_swi ::
  "nat \<Rightarrow> u32 \<Rightarrow> kernel_context_t \<Rightarrow> (bool \<times> kernel_context_t) option"
where
  "handle_swi active_td req ctx = do {
     td \<leftarrow> td_get active_td ctx;
     let arg0 = load32 (mem ctx) (td_sp td);
     let arg1 = load32 (mem ctx) (td_sp td + 4);
     let arg2 = load32 (mem ctx) (td_sp td + 8);
     let finish = (\<lambda>(ret, ctx). do {
       ctx \<leftarrow> task_descriptor_set_return_value active_td ret ctx;
       Some (False, ctx)
     });
     case sys_code req of
       Some SYS_CODE_PASS \<Rightarrow> do { ctx \<leftarrow> kernel_pass active_td ctx; finish (0, ctx) }
     | Some SYS_CODE_CREATE \<Rightarrow> kernel_create active_td arg0 arg1 ctx \<bind> finish
     | Some SYS_CODE_MYTID \<Rightarrow> kernel_mytid active_td ctx \<bind> finish
     | Some SYS_CODE_PARENTTID \<Rightarrow> kernel_parenttid active_td ctx \<bind> finish
     | Some SYS_CODE_SEND \<Rightarrow>
         kernel_send active_td (mem ctx arg0) (load32 (mem ctx) (arg0 + 4))
           (load32 (mem ctx) (arg0 + 8)) (load32 (mem ctx) (arg0 + 12))
           (load32 (mem ctx) (arg0 + 16)) ctx \<bind> finish
     | Some SYS_CODE_RECEIVE \<Rightarrow> kernel_receive active_td arg0 arg1 arg2 ctx \<bind> finish
     | Some SYS_CODE_REPLY \<Rightarrow> kernel_reply active_td (ucast arg0) arg1 arg2 ctx \<bind> finish
     | Some SYS_CODE_AWAITEVENT \<Rightarrow> kernel_await_event active_td arg0 ctx \<bind> finish
     | Some SYS_CODE_PANIC \<Rightarrow> do {
         msg \<leftarrow> read_cstring (mem ctx) arg0;
         ctx \<leftarrow> kernel_panic active_td msg ctx;
         finish (0, ctx)
       }
     | Some SYS_CODE_EXIT \<Rightarrow> kernel_exit active_td ctx
     | Some SYS_CODE_QUIT \<Rightarrow> Some (True, ctx)
     | None \<Rightarrow> do {
         ctx \<leftarrow> kernel_panic active_td (cstr ''kernel got unknown SWI sys code'') ctx;
         finish (0, ctx)
       }
   }"

subsection \<open>Hardware interrupts\<close>

text \<open>
  The event a UART interrupt stands for and the value it delivers. The tests are in the source's
  priority order. When no status bit is set the source panics and goes on with event 0.
\<close>

definition unexpected_uart ::
  "nat \<Rightarrow> u32 \<Rightarrow> kernel_context_t \<Rightarrow> (u32 \<times> u32 \<times> kernel_context_t) option"
where
  "unexpected_uart active_td event ctx = do {
     ctx \<leftarrow> kernel_panic active_td (cstr ''handler got unexpected event type'') ctx;
     ctx \<leftarrow> bwprintf COM2 (cstr (''Handler got unexpected event type: %d'' @ [CHR 0x0A, CHR 0x0D]))
              [VaWord event] ctx;
     Some (0, 0, ctx)
   }"

definition uart1_event ::
  "nat \<Rightarrow> u32 \<Rightarrow> u8 \<Rightarrow> kernel_context_t \<Rightarrow> (u32 \<times> u32 \<times> kernel_context_t) option"
where
  "uart1_event active_td event intr ctx =
     (if intr AND RIS_MASK \<noteq> 0 then
        (let (v, ctx) = reg_read (UART1_BASE + UART_DATA_OFFSET) ctx
         in Some (SYS_CALL_EVENT_UART1_RX, v AND DATA_MASK, ctx))
      else if intr AND MIS_MASK \<noteq> 0 then
        (let (v, ctx) = reg_read (UART1_BASE + UART_FLAG_OFFSET) ctx;
             ctx = reg_clear_bits (UART1_BASE + UART_CTLR_OFFSET) MSIEN_MASK ctx;
             ctx = reg_write (UART1_BASE + UART_INTR_OFFSET) 0 ctx
         in Some (SYS_CALL_EVENT_UART1_MS, v, ctx))
      else if intr AND TIS_MASK \<noteq> 0 then
        Some (SYS_CALL_EVENT_UART1_TX, 0, reg_clear_bits (UART1_BASE + UART_CTLR_OFFSET) TIEN_MASK ctx)
      else unexpected_uart active_td event ctx)"

definition uart2_event ::
  "nat \<Rightarrow> u32 \<Rightarrow> u8 \<Rightarrow> kernel_context_t \<Rightarrow> (u32 \<times> u32 \<times> kernel_context_t) option"
where
  "uart2_event active_td event intr ctx =
     (if intr AND RIS_MASK \<noteq> 0 then
        (let (v, ctx) = reg_read (UART2_BASE + UART_DATA_OFFSET) ctx
         in Some (SYS_CALL_EVENT_UART2_RX, v AND DATA_MASK, ctx))
      else if intr AND TIS_MASK \<noteq> 0 then
        Some (SYS_CALL_EVENT_UART2_TX, 0, reg_clear_bits (UART2_BASE + UART_CTLR_OFFSET) TIEN_MASK ctx)
      else unexpected_uart active_td event ctx)"

definition handle_irq :: "nat \<Rightarrow> kernel_context_t \<Rightarrow> (bool \<times> kernel_context_t) option" where
  "handle_irq active_td ctx = do {
     let (event, ctx) = reg_read (VIC2_BASE + VIC_VEC_ADDR_OFFSET) ctx;
     let (v1, ctx) = reg_read (UART1_BASE + UART_INTR_OFFSET) ctx;
     let (v2, ctx) = reg_read (UART2_BASE + UART_INTR_OFFSET) ctx;
     ctx \<leftarrow>
       (if event = SYS_CALL_EVENT_TIMER then do {
          (_, ctx) \<leftarrow> event_handler_handle_event event 0 ctx;
          let ctx = reg_write (TIMER3_BASE + CLR_OFFSET) 0 ctx;
          Some (reg_write (VIC2_BASE + VIC_VEC_ADDR_OFFSET) 0 ctx)
        }
        else if event = SYS_CALL_EVENT_UART1 \<or> event = SYS_CALL_EVENT_UART2 then do {
          (single_event, retVal, ctx) \<leftarrow>
            (if event = SYS_CALL_EVENT_UART1 then uart1_event active_td event (ucast v1) ctx
             else uart2_event active_td event (ucast v2) ctx);
          let ctx = reg_write (VIC2_BASE + VIC_VEC_ADDR_OFFSET) 0 ctx;
          (_, ctx) \<leftarrow> event_handler_handle_event single_event retVal ctx;
          Some ctx
        }
        else kernel_panic active_td (cstr ''kernel handle got unexpected interrupt'') ctx);
     (_, ctx) \<leftarrow> scheduler_put active_td ctx;
     Some (False, ctx)
   }"

definition handle :: "nat \<Rightarrow> u32 \<Rightarrow> kernel_context_t \<Rightarrow> (bool \<times> kernel_context_t) option" where
  "handle active_td req ctx =
     (if load32 (mem ctx) (irq_stack_start ctx) = 0 then handle_swi active_td req ctx
      else handle_irq active_td ctx)"

subsection \<open>Start-up and shutdown\<close>

definition enable_vectored_interrupt ::
  "u32 \<Rightarrow> u32 \<Rightarrow> u32 \<Rightarrow> u8 \<Rightarrow> 'a machine_scheme \<Rightarrow> 'a machine_scheme"
where
  "enable_vectored_interrupt vic_base event int_src int_priority s =
     (let s = reg_write (VIC2_BASE + VIC_VEC_ADDR_N_OFFSET (ucast int_priority)) event s;
          s = reg_write (VIC2_BASE + VIC_VEC_CTRL_N_OFFSET (ucast int_priority))
                (int_src OR VIC_VEC_CTRL_EN_MASK) s
      in reg_set_bits (VIC2_BASE + VIC_INT_EN_OFFSET) (push_bit (unat int_src) 1) s)"

definition setup_vectored_interrupts :: "'a machine_scheme \<Rightarrow> 'a machine_scheme" where
  "setup_vectored_interrupts s =
     (let s = enable_vectored_interrupt VIC2_BASE SYS_CALL_EVENT_TIMER VIC2_TIMER3_INT 0 s;
          s = enable_vectored_interrupt VIC2_BASE SYS_CALL_EVENT_UART1 VIC2_UART1_INT 1 s
      in enable_vectored_interrupt VIC2_BASE SYS_CALL_EVENT_UART2 VIC2_UART2_INT 2 s)"

text \<open>The addresses of code that \<^verbatim>\<open>init\<close> stores are fixed by the linker.\<close>

record code_labels =
  user_main_addr :: u32
  idle_main_addr :: u32
  kernel_entry_addr :: u32
  irq_entry_addr :: u32

definition init_devices :: "'a machine_scheme \<Rightarrow> 'a machine_scheme" where
  "init_devices s =
     (let s = reg_write (UART1_BASE + UART_LCRL_OFFSET) 0xBF s;
          s = reg_write (UART1_BASE + UART_LCRM_OFFSET) 0x0 s;
          s = reg_write (UART1_BASE + UART_LCRH_OFFSET) (STP2_MASK OR WLEN_MASK) s;
          s = reg_write (UART2_BASE + UART_LCRL_OFFSET) 0x3 s;
          s = reg_write (UART2_BASE + UART_LCRM_OFFSET) 0x0 s;
          s = reg_write (UART2_BASE + UART_LCRH_OFFSET) 0x60 s;
          s = reg_write (TIMER4_BASE + TIMER4_VAL_HIGH_OFFSET) 0 s;
          s = reg_write (TIMER4_BASE + TIMER4_VAL_HIGH_OFFSET) TIMER4_ENABLE_MASK s;
          s = reg_write (TIMER3_BASE + CRTL_OFFSET) 0 s;
          s = reg_write (TIMER3_BASE + LDR_OFFSET) (10 * (TIMER_SLOW_CLOCK_PER_SEC div 1000)) s
      in reg_write (TIMER3_BASE + CRTL_OFFSET) (ENABLE_MASK OR MODE_MASK) s)"

definition init_vectors :: "code_labels \<Rightarrow> 'a machine_scheme \<Rightarrow> 'a machine_scheme" where
  "init_vectors labels s =
     (let s = s\<lparr>mem := store32 (mem s) 0x28 (kernel_entry_addr labels)\<rparr>;
          s = s\<lparr>mem := store32 (mem s) 0x38 (irq_entry_addr labels)\<rparr>
      in s\<lparr>mem := store32 (mem s) (irq_stack_start s) 0\<rparr>)"

definition init_tasks :: "code_labels \<Rightarrow> kernel_context_t \<Rightarrow> kernel_context_t option" where
  "init_tasks labels ctx = do {
     ctx \<leftarrow> task_descriptor_init 0 0 1 None (user_main_addr labels) ctx;
     ctx \<leftarrow> task_descriptor_init (unat IDLE_TASK_TID) IDLE_TASK_TID 28 (Some 0) (idle_main_addr labels) ctx;
     let ctx = scheduler_init ctx;
     (_, ctx) \<leftarrow> scheduler_put 0 ctx;
     (_, ctx) \<leftarrow> scheduler_put (unat IDLE_TASK_TID) ctx;
     let ctx = event_handler_init ctx;
     Some (ctx\<lparr>next_free_td := 2, last_idle_time := 0\<rparr>)
   }"

definition init :: "code_labels \<Rightarrow> kernel_context_t \<Rightarrow> kernel_context_t option" where
  "init labels ctx = do {
     let ctx = init_vectors labels (init_devices ctx);
     ctx \<leftarrow> init_tasks labels ctx;
     let ctx = ctx\<lparr>mem := (mem ctx)(idle_exit_addr := 0)\<rparr>;
     let ctx = ctx\<lparr>mem := store32 (mem ctx) non_idle_time_addr 0\<rparr>;
     Some (setup_vectored_interrupts ctx)
   }"

definition cleanup :: "'a machine_scheme \<Rightarrow> 'a machine_scheme" where
  "cleanup s =
     (let s = s\<lparr>mem := store32 (mem s) 0x38 0x8348\<rparr>;
          s = reg_write (VIC2_BASE + VIC_VEC_ADDR_OFFSET) 0 s;
          s = reg_write (VIC2_BASE + VIC_VEC_CTRL_N_OFFSET 0) 0 s;
          s = reg_write (VIC2_BASE + VIC_INT_EN_OFFSET) 0 s
      in reg_write (TIMER3_BASE + CRTL_OFFSET) 0 s)"

subsection \<open>The main loop\<close>

text \<open>An iteration up to the call of \<open>activate\<close>, and what follows it.\<close>

definition main_schedule :: "kernel_context_t \<Rightarrow> (nat option \<times> kernel_context_t) option" where
  "main_schedule ctx = do {
     (active_td, ctx) \<leftarrow> scheduler_get ctx;
     case active_td of
       None \<Rightarrow> Some (None, ctx)
     | Some a \<Rightarrow> do {
         td \<leftarrow> td_get a ctx;
         Some (Some a, if td_tid td = IDLE_TASK_TID then update_idle_task ctx else ctx)
       }
   }"

definition main_handle :: "nat \<Rightarrow> u32 \<Rightarrow> kernel_context_t \<Rightarrow> (bool \<times> kernel_context_t) option" where
  "main_handle active_td req ctx = do {
     td \<leftarrow> td_get active_td ctx;
     handle active_td req (if td_tid td = IDLE_TASK_TID then end_idle_task ctx else ctx)
   }"

partial_function (option) main_loop ::
  "(nat \<Rightarrow> kernel_context_t \<Rightarrow> u32 \<times> kernel_context_t) \<Rightarrow> kernel_context_t \<Rightarrow> kernel_context_t option"
where
  "main_loop activate ctx = do {
     (active_td, ctx) \<leftarrow> main_schedule ctx;
     case active_td of
       None \<Rightarrow> Some ctx
     | Some a \<Rightarrow> do {
         let (req, ctx) = activate a ctx;
         (stop, ctx) \<leftarrow> main_handle a req ctx;
         if stop then Some ctx else main_loop activate ctx
       }
   }"

definition main_report :: "kernel_context_t \<Rightarrow> kernel_context_t option" where
  "main_report ctx = do {
     let non_idle = load32 (mem ctx) non_idle_time_addr;
     let (t, ctx) = clock ctx;
     bwprintf COM2 (cstr (''Non-idle time: %u/%u'' @ [CHR 0x0A, CHR 0x0D]))
       [VaWord non_idle, VaWord (ucast t), VaWord (ucast (drop_bit 32 t))] ctx
   }"

definition kernel_main ::
  "code_labels \<Rightarrow> (nat \<Rightarrow> kernel_context_t \<Rightarrow> u32 \<times> kernel_context_t) \<Rightarrow> kernel_context_t \<Rightarrow>
     (i32 \<times> kernel_context_t) option"
where
  "kernel_main labels activate ctx = do {
     ctx \<leftarrow> init labels ctx;
     ctx \<leftarrow> main_loop activate ctx;
     ctx \<leftarrow> main_report ctx;
     Some (0, cleanup ctx)
   }"

end
