(* ===== verification/BwioProps.thy ===== *)
theory BwioProps
  imports Bwio
begin

text \<open>
  What the busy-wait routines do: they change nothing but the register history, they return
  when the transmitter is live, the bytes they write to the data register are the characters
  printed, and the number conversions are inverse to each other.
\<close>

subsection \<open>Transmission\<close>

text \<open>The register writes of a piece of history, and a call that sent the bytes \<open>cs\<close>.\<close>

fun writes :: "io_event list \<Rightarrow> (u32 \<times> u32) list" where
  "writes [] = []"
| "writes (RegWrite a v # es) = (a, v) # writes es"
| "writes (RegRead a v # es) = writes es"

definition transmits :: "u32 \<Rightarrow> cstring \<Rightarrow> 'a machine_scheme \<Rightarrow> 'a machine_scheme \<Rightarrow> bool" where
  "transmits base cs s s' \<longleftrightarrow>
     (\<exists>es. s' = s\<lparr>io := io s @ es\<rparr> \<and> writes es = map (\<lambda>c. (base + UART_DATA_OFFSET, ucast c)) cs)"

fun polls :: "(u32 \<Rightarrow> io_event list \<Rightarrow> u32) \<Rightarrow> u32 \<Rightarrow> nat \<Rightarrow> io_event list \<Rightarrow> io_event list" where
  "polls d a 0 h = h"
| "polls d a (Suc k) h = polls d a k (h @ [RegRead a (d a h)])"

definition uart_tx_live :: "u32 \<Rightarrow> (u32 \<Rightarrow> io_event list \<Rightarrow> u32) \<Rightarrow> bool" where
  "uart_tx_live base d \<longleftrightarrow>
     (\<forall>h. \<exists>k. d (base + UART_FLAG_OFFSET) (polls d (base + UART_FLAG_OFFSET) k h) AND TXFF_MASK = 0)"

lemma writes_append [simp]: "writes (es @ fs) = writes es @ writes fs"
  by (induction es rule: writes.induct) auto

lemma transmits_refl [simp]: "transmits base [] s s"
  by (auto simp: transmits_def intro: exI [of _ "[]"])

lemma transmits_trans:
  assumes "transmits base cs s s'" "transmits base ds s' s''"
  shows "transmits base (cs @ ds) s s''"
proof -
  from assms(1) obtain es where es: "s' = s\<lparr>io := io s @ es\<rparr>"
    "writes es = map (\<lambda>c. (base + UART_DATA_OFFSET, ucast c)) cs"
    by (auto simp: transmits_def)
  from assms(2) obtain fs where fs: "s'' = s'\<lparr>io := io s' @ fs\<rparr>"
    "writes fs = map (\<lambda>c. (base + UART_DATA_OFFSET, ucast c)) ds"
    by (auto simp: transmits_def)
  from es fs show ?thesis
    unfolding transmits_def by (intro exI [of _ "es @ fs"]) simp
qed

lemma transmits_frame:
  assumes "transmits base cs s s'"
  shows "mem s' = mem s" "dev s' = dev s" "irq_stack_start s' = irq_stack_start s"
    "machine.more s' = machine.more s"
  using assms by (auto simp: transmits_def)

text \<open>Waiting only polls the flag register.\<close>

lemma wait_tx_frame:
  assumes "wait_tx a s = Some s'"
  shows "\<exists>es. s' = s\<lparr>io := io s @ es\<rparr> \<and> writes es = []"
proof (rule wait_tx.raw_induct [where P = "\<lambda>a s s'. \<exists>es. s' = s\<lparr>io := io s @ es\<rparr> \<and> writes es = []", OF _ assms])
  fix f :: "u32 \<Rightarrow> 'a machine_scheme \<Rightarrow> 'a machine_scheme option" and a s s'
  assume IH: "\<And>a s s'. f a s = Some s' \<Longrightarrow> \<exists>es. s' = s\<lparr>io := io s @ es\<rparr> \<and> writes es = []"
    and eq: "(let (v, s) = reg_read a s in if v AND TXFF_MASK \<noteq> 0 then f a s else Some s) = Some s'"
  let ?e = "RegRead a (dev s a (io s))"
  show "\<exists>es. s' = s\<lparr>io := io s @ es\<rparr> \<and> writes es = []"
  proof (cases "dev s a (io s) AND TXFF_MASK = 0")
    case True
    with eq show ?thesis by (auto simp: reg_read_def Let_def intro!: exI [of _ "[?e]"])
  next
    case False
    with eq have "f a (s\<lparr>io := io s @ [?e]\<rparr>) = Some s'" by (simp add: reg_read_def Let_def)
    from IH [OF this] obtain es where "s' = s\<lparr>io := io s @ ?e # es\<rparr>" "writes es = []" by auto
    then show ?thesis by (intro exI [of _ "?e # es"]) simp
  qed
qed

lemma wait_tx_returns:
  assumes "dev s a (polls (dev s) a k (io s)) AND TXFF_MASK = 0"
  shows "\<exists>s'. wait_tx a s = Some s'"
  using assms
proof (induction k arbitrary: s)
  case 0
  then show ?case by (subst wait_tx.simps) (simp add: reg_read_def Let_def)
next
  case (Suc k)
  show ?case
  proof (cases "dev s a (io s) AND TXFF_MASK = 0")
    case True
    then show ?thesis by (subst wait_tx.simps) (simp add: reg_read_def Let_def)
  next
    case False
    have "\<exists>s'. wait_tx a (s\<lparr>io := io s @ [RegRead a (dev s a (io s))]\<rparr>) = Some s'"
      using Suc.prems by (intro Suc.IH) simp
    with False show ?thesis by (subst wait_tx.simps) (simp add: reg_read_def Let_def)
  qed
qed

lemma wait_tx_live:
  assumes "uart_tx_live base (dev s)"
  obtains s' where "wait_tx (base + UART_FLAG_OFFSET) s = Some s'" "transmits base [] s s'"
proof -
  let ?a = "base + UART_FLAG_OFFSET"
  from assms obtain k where "dev s ?a (polls (dev s) ?a k (io s)) AND TXFF_MASK = 0"
    unfolding uart_tx_live_def by blast
  from wait_tx_returns [OF this] obtain s' where s': "wait_tx ?a s = Some s'" by blast
  with wait_tx_frame [OF s'] show ?thesis by (intro that) (auto simp: transmits_def)
qed

lemma uart_base_cases: "uart_base ch = Some b \<longleftrightarrow> ch = COM1 \<and> b = UART1_BASE \<or> ch = COM2 \<and> b = UART2_BASE"
  by (auto simp: uart_base_def COM1_def COM2_def)

lemma bwputc_live:
  assumes "uart_base ch = Some b" "uart_tx_live b (dev s)"
  obtains s' where "bwputc ch c s = Some (0, s')" "transmits b [c] s s'"
proof -
  obtain s1 where s1: "wait_tx (b + UART_FLAG_OFFSET) s = Some s1" "transmits b [] s s1"
    by (rule wait_tx_live [OF assms(2)])
  let ?s = "reg_write (b + UART_DATA_OFFSET) (ucast c) s1"
  have "transmits b [c] s1 ?s"
    by (auto simp: transmits_def reg_write_def intro!: exI [of _ "[RegWrite (b + UART_DATA_OFFSET) (ucast c)]"])
  with transmits_trans [OF s1(2)] have "transmits b [c] s ?s" by fastforce
  with assms(1) s1(1) show ?thesis by (intro that) (simp_all add: bwputc_def)
qed

lemma bwputw_text_live:
  assumes "uart_base ch = Some b" "uart_tx_live b (dev s)" "0 \<notin> set cs"
  shows "\<exists>s'. bwputw_text ch cs s = Some s' \<and> transmits b cs s s'"
  using assms(2,3)
proof (induction cs arbitrary: s)
  case Nil
  then show ?case by simp
next
  case (Cons c cs)
  obtain s1 where s1: "bwputc ch c s = Some (0, s1)" "transmits b [c] s s1"
    by (rule bwputc_live [OF assms(1) Cons.prems(1)])
  obtain s' where "bwputw_text ch cs s1 = Some s'" "transmits b cs s1 s'"
    using Cons.IH [of s1] Cons.prems transmits_frame [OF s1(2)] by auto
  with s1 Cons.prems(2) transmits_trans [OF s1(2)] show ?case by fastforce
qed

lemma bwputw_pad_live:
  assumes "uart_base ch = Some b" "uart_tx_live b (dev s)"
  shows "\<exists>s'. bwputw_pad ch n fc s = Some s' \<and> transmits b (replicate n fc) s s'"
  using assms(2)
proof (induction n arbitrary: s)
  case 0
  then show ?case by simp
next
  case (Suc n)
  obtain s1 where s1: "bwputc ch fc s = Some (0, s1)" "transmits b [fc] s s1"
    by (rule bwputc_live [OF assms(1) Suc.prems])
  obtain s' where "bwputw_pad ch n fc s1 = Some s'" "transmits b (replicate n fc) s1 s'"
    using Suc.IH [of s1] Suc.prems transmits_frame [OF s1(2)] by auto
  with s1 transmits_trans [OF s1(2)] show ?case by fastforce
qed

lemma bwputw_skip_eq:
  "0 \<notin> set cs \<Longrightarrow> nat (sint (bwputw_skip n cs)) = nat (sint n) - length cs"
proof (induction n cs rule: bwputw_skip.induct)
  case (2 n c cs)
  show ?case
  proof (cases "sint n > 0")
    case True
    then have "sint (n - 1) = sint n - 1"
      using sint_lt [of n] by (simp add: sint_word_ariths signed_take_bit_int_eq_self)
    with True 2 show ?thesis by simp
  next
    case False
    then show ?thesis by simp
  qed
qed simp

text \<open>\<open>bwputw\<close> prints the text right-aligned in a field of width \<open>n\<close>.\<close>

lemma bwputw_live:
  assumes "uart_base ch = Some b" "uart_tx_live b (dev s)" "0 \<notin> set bf"
  obtains s' where "bwputw ch n fc bf s = Some s'"
    "transmits b (replicate (nat (sint n) - length bf) fc @ bf) s s'"
proof -
  obtain s1 where s1: "bwputw_pad ch (nat (sint n) - length bf) fc s = Some s1"
    "transmits b (replicate (nat (sint n) - length bf) fc) s s1"
    using bwputw_pad_live [OF assms(1,2)] by blast
  obtain s' where "bwputw_text ch bf s1 = Some s'" "transmits b bf s1 s'"
    using bwputw_text_live [OF assms(1) _ assms(3), of s1] assms(2) transmits_frame [OF s1(2)] by auto
  with s1 show ?thesis
    by (intro that [of s']) (simp_all add: bwputw_def bwputw_skip_eq [OF assms(3)] transmits_trans)
qed

subsection \<open>Formats\<close>

lemma bwformat_Nil [simp]: "bwformat ch [] va s = Some s"
  by (simp add: bwformat.simps)

lemma bwformat_char:
  "c \<noteq> 0 \<Longrightarrow> c \<noteq> 37 \<Longrightarrow> bwformat ch (c # fmt) va s =
     do { (_, s) \<leftarrow> bwputc ch c s; bwformat ch fmt va s }"
  by (simp add: bwformat.simps [of ch "c # fmt"])

lemma bwformat_text:
  assumes "uart_base ch = Some b" "uart_tx_live b (dev s)" "0 \<notin> set cs" "37 \<notin> set cs"
  shows "\<exists>s'. transmits b cs s s' \<and> bwformat ch (cs @ fmt) va s = bwformat ch fmt va s'"
  using assms(2-4)
proof (induction cs arbitrary: s)
  case Nil
  then show ?case by (intro exI [of _ s]) simp
next
  case (Cons c cs)
  obtain s1 where s1: "bwputc ch c s = Some (0, s1)" "transmits b [c] s s1"
    by (rule bwputc_live [OF assms(1) Cons.prems(1)])
  obtain s' where s': "transmits b cs s1 s'" "bwformat ch (cs @ fmt) va s1 = bwformat ch fmt va s'"
    using Cons.IH [of s1] Cons.prems transmits_frame [OF s1(2)] by auto
  have "transmits b (c # cs) s s'" using transmits_trans [OF s1(2) s'(1)] by simp
  moreover have "bwformat ch ((c # cs) @ fmt) va s = bwformat ch (cs @ fmt) va s1"
    using Cons.prems s1(1) by (auto simp: bwformat_char)
  ultimately show ?case using s'(2) by auto
qed

lemma bwformat_string:
  assumes "uart_base ch = Some b" "uart_tx_live b (dev s)" "0 \<notin> set bf"
  shows "\<exists>s'. transmits b bf s s' \<and>
    bwformat ch (37 # 115 # fmt) (VaStr bf # va) s = bwformat ch fmt va s'"
proof -
  obtain s' where "bwputw ch 0 0 bf s = Some s'" "transmits b bf s s'"
    using bwputw_live [OF assms, of 0 0] by auto
  then show ?thesis
    by (intro exI [of _ s']) (simp add: bwformat.simps [of ch "37 # 115 # fmt"] parse_spec_def)
qed

subsection \<open>Numbers\<close>

text \<open>The value of a string of digits, read from the left with an accumulator.\<close>

definition digits_value :: "u32 \<Rightarrow> u32 \<Rightarrow> cstring \<Rightarrow> u32" where
  "digits_value base acc cs = foldl (\<lambda>v c. v * base + of_int (bwa2d c)) acc cs"

definition digit_char :: "u32 \<Rightarrow> u8" where
  "digit_char dgt = ucast (dgt + (if sint dgt < 10 then 48 else 97 - 10))"

lemma bwa2d_digit_char:
  assumes "unat dgt < 16"
  shows "bwa2d (digit_char dgt) = uint dgt"
proof -
  have "list_all (\<lambda>i. bwa2d (digit_char (of_nat i)) = int i) [0..<16]" by code_simp
  with assms have "bwa2d (digit_char (of_nat (unat dgt))) = int (unat dgt)"
    by (simp only: list_all_iff set_upt) (metis atLeastLessThan_iff zero_le)
  then show ?thesis by simp
qed

lemma ui2a_digits_0: "ui2a_digits num base 0 n = Some []"
  by (subst ui2a_digits.simps) simp

text \<open>The digit is a signed integer in the source; as long as it is below the base this makes no difference.\<close>

lemma sint_small:
  assumes "unat (x :: u32) < 2147483648"
  shows "sint x = uint x"
proof -
  have "int (unat x) < int 2147483648" using assms by (simp only: of_nat_less_iff)
  then have "uint x < 2 ^ (LENGTH(32) - Suc 0)" by simp
  moreover have "- (2 ^ (LENGTH(32) - Suc 0)) \<le> uint x"
    by (rule order_trans [OF _ uint_ge_0]) simp
  ultimately show ?thesis by (subst sint_uint, intro signed_take_bit_int_eq_self)
qed

lemma ui2a_digits_emit:
  assumes "d \<noteq> 0" "base \<noteq> 0" "unat (num div d) < 2147483648" "n \<or> 0 < num div d \<or> d div base = 0"
    "ui2a_digits (num mod d) base (d div base) True = Some cs"
  shows "ui2a_digits num base d n = Some (digit_char (num div d) # cs)"
  unfolding ui2a_digits.simps [of num base d n] Let_def digit_char_def using assms sint_small [OF assms(3)]
  by (auto simp: word_less_def)

lemma ui2a_scale_spec:
  assumes "2 \<le> unat base" "0 < unat d"
  shows "\<exists>k d'. ui2a_scale num base d = Some d' \<and> unat d' = unat d * unat base ^ k \<and>
    unat num div unat d' < unat base \<and> (k = 0 \<or> unat d' \<le> unat num)"
  using assms(2)
proof (induction "unat num - unat d" arbitrary: d rule: less_induct)
  case less
  have d0: "d \<noteq> 0" using less.prems by auto
  show ?case
  proof (cases "unat num div unat d < unat base")
    case True
    then have "ui2a_scale num base d = Some d"
      using d0 by (subst ui2a_scale.simps) (simp add: word_le_nat_alt unat_div)
    with True show ?thesis by (intro exI [of _ 0] exI [of _ d]) simp
  next
    case False
    then have le: "unat d * unat base \<le> unat num"
      by (metis div_le_mono less_eq_div_iff_mult_less_eq less.prems linorder_not_less mult.commute)
    then have "unat d * unat base < 2 ^ 32" using unsigned_less [of num, where ?'a = nat] by simp
    then have mult: "unat (d * base) = unat d * unat base" by (simp add: unat_word_ariths)
    have "unat d * 2 \<le> unat d * unat base" using assms(1) by simp
    with less.prems have lt: "unat d < unat d * unat base" by linarith
    have "\<exists>k d'. ui2a_scale num base (d * base) = Some d' \<and> unat d' = unat (d * base) * unat base ^ k \<and>
        unat num div unat d' < unat base \<and> (k = 0 \<or> unat d' \<le> unat num)"
      using diff_less_mono2 [OF lt less_le_trans [OF lt le]] mult lt by (intro less.hyps) auto
    then obtain k d' where sc: "ui2a_scale num base (d * base) = Some d'"
      "unat d' = unat (d * base) * unat base ^ k" "unat num div unat d' < unat base"
      "k = 0 \<or> unat d' \<le> unat num"
      by blast
    then have kd: "ui2a_scale num base (d * base) = Some d'"
      "unat d' = unat d * unat base ^ Suc k" "unat num div unat d' < unat base"
      "k = 0 \<or> unat d' \<le> unat num"
      using mult by simp_all
    moreover have "unat d' \<le> unat num" using kd(2,4) le by auto
    moreover have "ui2a_scale num base d = ui2a_scale num base (d * base)"
      using d0 False by (subst ui2a_scale.simps) (simp add: word_le_nat_alt unat_div)
    ultimately show ?thesis by (intro exI [of _ "Suc k"] exI [of _ d']) simp
  qed
qed

lemma ui2a_digits_spec:
  assumes base: "2 \<le> unat base" "unat base \<le> 16"
  shows "unat d = unat base ^ k \<Longrightarrow> unat num div unat d < unat base \<Longrightarrow>
    n \<or> 0 < unat num div unat d \<or> k = 0 \<Longrightarrow>
    \<exists>cs. ui2a_digits num base d n = Some cs \<and> length cs = Suc k \<and>
      (\<forall>c\<in>set cs. 0 \<le> bwa2d c \<and> bwa2d c < uint base) \<and>
      (\<forall>acc. digits_value base acc cs = acc * base ^ Suc k + num)"
proof (induction k arbitrary: d num n)
  case 0
  then have d: "d = 1" by (simp add: word_unat_eq_iff)
  have "unat (1 div base) = unat (1 :: u32) div unat base" by (rule unat_div)
  also have "\<dots> = 0" using base by simp
  finally have b: "base \<noteq> 0" "1 div base = 0" using base by auto
  have dig: "bwa2d (digit_char num) = uint num"
    using 0 base d by (intro bwa2d_digit_char) simp
  have "ui2a_digits num base d n = Some [digit_char num]"
    using ui2a_digits_emit [of 1 base num n "[]"] d b 0 base by (simp add: ui2a_digits_0)
  moreover have "uint num < uint base" using 0 d by (simp add: word_less_nat_alt [symmetric] word_less_def)
  ultimately show ?case using dig by (simp add: digits_value_def)
next
  case (Suc k)
  let ?q = "num div d" and ?r = "num mod d" and ?d = "d div base"
  have d0: "d \<noteq> 0" and b0: "base \<noteq> 0" using Suc.prems(1) base by auto
  have ud: "unat ?d = unat base ^ k" using Suc.prems(1) base by (simp add: unat_div)
  have "unat ?r < unat base * unat base ^ k"
    using Suc.prems(1) base by (metis mod_less_divisor power_Suc unat_mod zero_less_power gr0I not_numeral_le_zero)
  then have rq: "unat ?r div unat ?d < unat base"
    using ud base by (simp add: less_mult_imp_div_less)
  obtain cs where cs: "ui2a_digits ?r base ?d True = Some cs" "length cs = Suc k"
    "\<forall>c\<in>set cs. 0 \<le> bwa2d c \<and> bwa2d c < uint base"
    "\<And>acc. digits_value base acc cs = acc * base ^ Suc k + ?r"
    using Suc.IH [OF ud rq, of True] by auto
  have q: "unat ?q < unat base" using Suc.prems(2) by (simp add: unat_div)
  have dig: "bwa2d (digit_char ?q) = uint ?q" using q base by (intro bwa2d_digit_char) simp
  have emit: "n \<or> 0 < ?q \<or> ?d = 0"
    using Suc.prems(3) by (auto simp: word_less_nat_alt unat_div)
  have "ui2a_digits num base d n = Some (digit_char ?q # cs)"
    using d0 b0 _ emit cs(1) by (rule ui2a_digits_emit) (use q base in simp)
  moreover have "uint ?q < uint base" using q by (simp add: word_less_nat_alt [symmetric] word_less_def)
  moreover have "digits_value base acc (digit_char ?q # cs) = acc * base ^ Suc (Suc k) + num" for acc
  proof -
    have "d = of_nat (unat d)" by simp
    also have "\<dots> = of_nat (unat base) ^ Suc k" using Suc.prems(1) by simp
    finally have "d = base ^ Suc k" by simp
    then have "num = ?q * base ^ Suc k + ?r" using word_mod_div_equality [of num d] by simp
    then show ?thesis
      using cs(4) [of "acc * base + ?q"] dig by (simp add: digits_value_def algebra_simps)
  qed
  ultimately show ?case using cs(2,3) dig by auto
qed

lemma bwa2i_loop_digits:
  "\<forall>x\<in>set (c # cs). 0 \<le> bwa2d x \<and> bwa2d x \<le> sint base \<Longrightarrow>
     bwa2i_loop c cs base num = (0, [], digits_value base num (c # cs))"
proof (induction cs arbitrary: c num)
  case Nil
  then show ?case by (subst bwa2i_loop.simps) (simp add: digits_value_def)
next
  case (Cons c' cs)
  then show ?case
    by (subst bwa2i_loop.simps) (simp add: digits_value_def Let_def)
qed

lemma bwui2a_spec:
  assumes "2 \<le> unat base" "unat base \<le> 16"
  obtains c cs where "bwui2a num base = Some (c # cs)"
    and "\<forall>x\<in>set (c # cs). 0 \<le> bwa2d x \<and> bwa2d x < uint base"
    and "digits_value base 0 (c # cs) = num"
    and "cs = [] \<or> unat base ^ length cs \<le> unat num"
proof -
  obtain k d where d: "ui2a_scale num base 1 = Some d" "unat d = unat base ^ k"
    "unat num div unat d < unat base" "k = 0 \<or> unat d \<le> unat num"
    using ui2a_scale_spec [OF assms(1), of 1 num] unfolding unat_1 mult_1 using zero_less_one by blast
  have "0 < unat d" using d(2) assms(1) by simp
  with d(4) have pos: "False \<or> 0 < unat num div unat d \<or> k = 0" by (auto simp: div_greater_zero_iff)
  obtain ds where ds: "ui2a_digits num base d False = Some ds" "length ds = Suc k"
    "\<forall>c\<in>set ds. 0 \<le> bwa2d c \<and> bwa2d c < uint base"
    "\<forall>acc. digits_value base acc ds = acc * base ^ Suc k + num"
    using ui2a_digits_spec [OF assms d(2,3) pos] by blast
  then obtain c cs where c: "ds = c # cs" by (cases ds) auto
  show ?thesis
  proof (rule that [of c cs])
    show "cs = [] \<or> unat base ^ length cs \<le> unat num" using d(2,4) ds(2) c by auto
    show "digits_value base 0 (c # cs) = num" using ds(4) c by simp
  qed (use d(1) ds c in \<open>simp_all add: bwui2a_def\<close>)
qed

lemma sint_small_base: "unat base \<le> 16 \<Longrightarrow> sint (base :: u32) = uint base"
  by (intro sint_small) simp

text \<open>
  C20: printing an unsigned number and reading it back gives the number. \<open>bwui2a\<close> ends for
  every base from 2 to 16, and \<open>bwa2i\<close> started on the first digit consumes exactly the
  digits written and returns the number.
\<close>

theorem bwui2a_bwa2i_roundtrip:
  assumes "2 \<le> unat base" and "unat base \<le> 16"
  shows "\<exists>c cs. bwui2a num base = Some (c # cs) \<and> bwa2i c cs base = (0, [], num)"
proof -
  obtain c cs where cs: "bwui2a num base = Some (c # cs)"
    "\<forall>x\<in>set (c # cs). 0 \<le> bwa2d x \<and> bwa2d x < uint base" "digits_value base 0 (c # cs) = num"
    by (rule bwui2a_spec [OF assms])
  have "bwa2i c cs base = (0, [], num)"
    using cs(2,3) bwa2i_loop_digits [of c cs base 0] sint_small_base [OF assms(2)]
    by (simp add: bwa2i_def less_imp_le)
  with cs(1) show ?thesis by blast
qed

theorem bwui2a_bwa2i_roundtrip_witness:
  "2 \<le> unat (10 :: u32) \<and> unat (10 :: u32) \<le> 16 \<and>
   (\<exists>c cs. bwui2a 4294967295 10 = Some (c # cs) \<and> bwa2i c cs 10 = (0, [], 4294967295))"
  using bwui2a_bwa2i_roundtrip [of 10 4294967295] by simp

text \<open>
  C21: no number overruns the 12-byte buffer \<open>bf\<close> of \<open>bwformat\<close>: the decimal, hexadecimal and
  signed conversions all end and, with the terminating zero, produce at most 12 bytes.
\<close>

theorem bwformat_buffer_bound:
  "\<exists>d h i. bwui2a num 10 = Some d \<and> bwui2a num 16 = Some h \<and> bwi2a num = Some i \<and>
     length d + 1 \<le> 12 \<and> length h + 1 \<le> 12 \<and> length i + 1 \<le> 12"
proof -
  have dec: "\<exists>ds. bwui2a n 10 = Some ds \<and> length ds \<le> 10" for n
  proof -
    obtain c cs where cs: "bwui2a n 10 = Some (c # cs)" "cs = [] \<or> unat (10 :: u32) ^ length cs \<le> unat n"
      by (rule bwui2a_spec [of 10 n]) auto
    have "length cs < 10"
    proof (rule ccontr)
      assume "\<not> length cs < 10"
      then have "(10 :: nat) ^ 10 \<le> 10 ^ length cs" by (intro power_increasing) auto
      also have "\<dots> \<le> unat n" using cs(2) \<open>\<not> length cs < 10\<close> by auto
      finally show False using unsigned_less [of n, where ?'a = nat] by simp
    qed
    with cs(1) show ?thesis by auto
  qed
  moreover have "\<exists>ds. bwui2a num 16 = Some ds \<and> length ds \<le> 8"
  proof -
    obtain c cs where cs: "bwui2a num 16 = Some (c # cs)" "cs = [] \<or> unat (16 :: u32) ^ length cs \<le> unat num"
      by (rule bwui2a_spec [of 16 num]) auto
    have "length cs < 8"
    proof (rule ccontr)
      assume "\<not> length cs < 8"
      then have "(16 :: nat) ^ 8 \<le> 16 ^ length cs" by (intro power_increasing) auto
      also have "\<dots> \<le> unat num" using cs(2) \<open>\<not> length cs < 8\<close> by auto
      finally show False using unsigned_less [of num, where ?'a = nat] by simp
    qed
    with cs(1) show ?thesis by auto
  qed
  ultimately show ?thesis using dec [of num] dec [of "- num"] by (fastforce simp: bwi2a_def)
qed

end
