(* ===== verification/KernelProps.thy ===== *)
theory KernelProps
  imports KernelCalls BwioProps
begin

text \<open>
  What every system call does to the tasks and queues. \<open>running s L a\<close> is the situation in
  which \<^verbatim>\<open>handle\<close> calls a handler: the state represents the queues \<open>L\<close> and the active task
  \<open>a\<close>, just taken from its ready queue, is in none of them. Each lemma gives the value a
  handler returns, the queues after it, and what it changed beside them.
\<close>

definition running :: "kernel_context_t \<Rightarrow> (qid \<Rightarrow> nat list) \<Rightarrow> nat \<Rightarrow> bool" where
  "running s L a \<longleftrightarrow> krep s L \<and> a < unat (next_free_td s) \<and> floats L a \<and>
     td_state (tds s ! a) = READY"

lemma runningD:
  assumes "running s L a"
  shows "krep s L" "a < unat (next_free_td s)" "floats L a" "a < length (tds s)" "a < 64"
    "length (tds s) = 64" "td_ok s a" "td_state (tds s ! a) = READY"
proof -
  show 1: "krep s L" "a < unat (next_free_td s)" "floats L a" "td_state (tds s ! a) = READY"
    using assms by (simp_all add: running_def)
  show "td_ok s a" by (rule krep_td_ok [OF 1(1,2)])
  show "a < length (tds s)" "a < 64" "length (tds s) = 64" using krep_lengths [OF 1(1)] 1(2) by simp_all
qed

lemma enqueue_ready_1:
  "enqueue_ready s [t] L = L(ReadyQ (unat (td_priority (tds s ! t))) :=
     L (ReadyQ (unat (td_priority (tds s ! t)))) @ [t])"
  by (simp add: enqueue_ready_def)

subsection \<open>Putting the active task back\<close>

lemma put_krep:
  assumes "krep s L" "t < unat (next_free_td s)" "floats L t"
  obtains s' where "scheduler_put t s = Some (0, s')" "krep s' (enqueue_ready s [t] L)"
    "made_ready t s s'"
  using scheduler_put_krep [OF assms refl] unfolding enqueue_ready_1 by blast

lemma put_active:
  assumes "running s L a"
  obtains s' where "scheduler_put a s = Some (0, s')" "krep s' (enqueue_ready s [a] L)"
    "made_ready a s s'"
  by (rule put_krep [OF runningD(1-3) [OF assms]])

lemma kernel_pass_running:
  assumes "running s L a"
  obtains s' where "kernel_pass a s = Some s'" "krep s' (enqueue_ready s [a] L)" "made_ready a s s'"
  by (rule put_active [OF assms], rule that) (simp_all add: kernel_pass_def)

lemma made_ready_td:
  assumes "made_ready t s s'" "u < length (tds s)"
  shows "td_tid (tds s' ! u) = td_tid (tds s ! u)" "td_priority (tds s' ! u) = td_priority (tds s ! u)"
    "td_parent (tds s' ! u) = td_parent (tds s ! u)" "td_sp (tds s' ! u) = td_sp (tds s ! u)"
    "td_message_params (tds s' ! u) = td_message_params (tds s ! u)"
    "td_send_q (tds s' ! u) = td_send_q (tds s ! u)"
    "td_state (tds s' ! u) = (if u = t then READY else td_state (tds s ! u))"
  using made_ready_frame(1) [OF assms(1)] assms(2) by (auto simp: nth_list_update_if)

lemma made_ready_length: "made_ready t s s' \<Longrightarrow> length (tds s') = length (tds s)"
  by (simp add: made_ready_frame(1))

lemma kernel_mytid_running:
  assumes "running s L a"
  obtains s' where "kernel_mytid a s = Some (of_nat a, s')" "krep s' (enqueue_ready s [a] L)"
    "made_ready a s s'"
proof -
  obtain s' where s': "scheduler_put a s = Some (0, s')" "krep s' (enqueue_ready s [a] L)"
    "made_ready a s s'"
    by (rule put_active [OF assms])
  have "ucast (td_tid (tds s' ! a)) = (of_nat a :: i32)"
    using made_ready_td [OF s'(3) runningD(4) [OF assms]] runningD(5,7) [OF assms]
    by (simp add: td_ok_def unsigned_of_nat take_bit_nat_eq_self)
  with s' runningD(4) [OF assms] show ?thesis
    by (intro that) (simp_all add: kernel_mytid_def made_ready_length [OF s'(3)])
qed

lemma kernel_parenttid_running:
  assumes "running s L a"
  obtains s' where "kernel_parenttid a s =
      Some (case td_parent (tds s ! a) of None \<Rightarrow> - 1 | Some p \<Rightarrow> of_nat p, s')"
    "krep s' (enqueue_ready s [a] L)" "made_ready a s s'"
proof -
  note r = runningD [OF assms]
  obtain s' where s': "scheduler_put a s = Some (0, s')" "krep s' (enqueue_ready s [a] L)"
    "made_ready a s s'"
    by (rule put_active [OF assms])
  have par: "p < 64 \<and> ucast (td_tid (tds s' ! p)) = (of_nat p :: i32)"
    if "td_parent (tds s ! a) = Some p" for p
  proof -
    have p: "p < unat (next_free_td s)" using r(7) that by (simp add: td_ok_def)
    then have "p < 64" using krep_lengths(4) [OF r(1)] by simp
    moreover have "td_tid (tds s' ! p) = of_nat p"
      using made_ready_td(1) [OF s'(3), of p] krep_td_ok [OF r(1) p] \<open>p < 64\<close> r(6)
      by (simp add: td_ok_def)
    ultimately show ?thesis by (simp add: unsigned_of_nat take_bit_nat_eq_self)
  qed
  have "kernel_parenttid a s =
      Some (case td_parent (tds s ! a) of None \<Rightarrow> - 1 | Some p \<Rightarrow> of_nat p, s')"
    using s'(1) made_ready_td(3) [OF s'(3) r(4)] par r(4,6) made_ready_length [OF s'(3)]
    by (auto simp: kernel_parenttid_def split: option.split)
  with s' show ?thesis by (intro that)
qed

subsection \<open>Exit\<close>

lemma kernel_exit_running:
  assumes "running s L a"
  shows "kernel_exit a s = Some (\<forall>p<64. L (ReadyQ p) = [],
      s\<lparr>tds := (tds s)[a := (tds s ! a)\<lparr>td_state := EXITED\<rparr>]\<rparr>)"
    and "krep (s\<lparr>tds := (tds s)[a := (tds s ! a)\<lparr>td_state := EXITED\<rparr>]\<rparr>) L"
proof -
  note r = runningD [OF assms]
  show 2: "krep (s\<lparr>tds := (tds s)[a := (tds s ! a)\<lparr>td_state := EXITED\<rparr>]\<rparr>) L"
    using r by (intro krep_td_update) (auto simp: same_identity_def)
  show "kernel_exit a s = Some (\<forall>p<64. L (ReadyQ p) = [],
      s\<lparr>tds := (tds s)[a := (tds s ! a)\<lparr>td_state := EXITED\<rparr>]\<rparr>)"
    using r(4) scheduler_empty_krep [OF 2] by (simp add: kernel_exit_def)
qed

subsection \<open>Events\<close>

lemma enable_event_interrupt_frame:
  "\<exists>es. enable_event_interrupt event s = s\<lparr>io := io s @ es\<rparr>"
proof -
  have set_bits: "\<exists>es. reg_set_bits a m s = s\<lparr>io := io s @ es\<rparr>" for a m
    by (auto simp: reg_set_bits_def reg_read_def reg_write_def Let_def)
  show ?thesis
    unfolding enable_event_interrupt_def
    using set_bits by (auto intro: exI [of _ "[]"])
qed

lemma kernel_await_event_bad:
  assumes "running s L a" "16 \<le> unat event"
  obtains s' where "kernel_await_event a event s = Some (- 1, s')" "krep s' (enqueue_ready s [a] L)"
    "made_ready a s s'"
  by (rule put_active [OF assms(1)], rule that)
    (use assms(2) in \<open>simp_all add: kernel_await_event_def EVENT_HANDLER_MAX_EVENTS_def\<close>)

lemma kernel_await_event_running:
  assumes "running s L a" "unat event < 16"
  obtains s' where "kernel_await_event a event s = Some (0, s')"
    and "krep s' (L(AwaitQ (unat event) := L (AwaitQ (unat event)) @ [a]))"
    and "tds s' = (tds s)[a := (tds s ! a)\<lparr>td_state := EVENT_BLOCKED\<rparr>]"
    and "io s' = io (enable_event_interrupt event s)" and "mem s' = mem s" and "sch s' = sch s"
    and "next_free_td s' = next_free_td s"
proof -
  note r = runningD [OF assms(1)]
  obtain es where es: "enable_event_interrupt event s = s\<lparr>io := io s @ es\<rparr>"
    using enable_event_interrupt_frame by blast
  have rep: "krep (s\<lparr>io := io s @ es\<rparr>) L" using r(1) by simp
  obtain s' where s': "event_handler_add_task event a (s\<lparr>io := io s @ es\<rparr>) = Some (0, s')"
    "krep s' (L(AwaitQ (unat event) := L (AwaitQ (unat event)) @ [a]))"
    and eq: "s' = (s\<lparr>io := io s @ es\<rparr>)\<lparr>tds := (tds s)[a := (tds s ! a)\<lparr>td_state := EVENT_BLOCKED\<rparr>],
                nodes := nodes s', await_qs := await_qs s'\<rparr>"
    by (rule event_handler_add_task_krep [OF rep _ r(3) assms(2)]) (use r(2) in simp_all)
  show ?thesis
  proof (rule that [of s'])
    show "kernel_await_event a event s = Some (0, s')"
      using s'(1) assms(2) es
      by (simp add: kernel_await_event_def EVENT_HANDLER_MAX_EVENTS_def)
    show "io s' = io (enable_event_interrupt event s)" using eq [THEN arg_cong, of io] es by simp
    show "tds s' = (tds s)[a := (tds s ! a)\<lparr>td_state := EVENT_BLOCKED\<rparr>]"
      using eq [THEN arg_cong, of tds] by simp
    show "mem s' = mem s" using eq [THEN arg_cong, of mem] by simp
    show "sch s' = sch s" using eq [THEN arg_cong, of sch] by simp
    show "next_free_td s' = next_free_td s" using eq [THEN arg_cong, of next_free_td] by simp
  qed (rule s'(2))
qed

subsection \<open>Create\<close>

lemma scheduler_put_next_free:
  "scheduler_put t (s\<lparr>next_free_td := n\<rparr>) =
     map_option (\<lambda>(e, s'). (e, s'\<lparr>next_free_td := n\<rparr>)) (scheduler_put t s)"
  by (auto simp: scheduler_put_def td_get_def td_update_def Let_def split: Option.bind_splits)

lemma unat_next_free_Suc: "unat n < 64 \<Longrightarrow> unat (n + 1 :: u32) = Suc (unat n)"
  using unat_u32_add1 [of n] by simp

text \<open>A freshly initialised descriptor becomes part of the table, in no queue.\<close>

lemma krep_new_td:
  assumes rep: "krep s L" and nf: "unat (next_free_td s) = t" "t < 64"
    and d: "td_tid d = of_nat t" "unat (td_priority d) < 64" "td_send_q d = queue_init"
      "td_parent d = Some a" "a < t"
    and s': "s' = s\<lparr>mem := m, nodes := init_nodes t (nodes s), tds := (tds s)[t := d],
      next_free_td := next_free_td s + 1\<rparr>"
  shows "krep s' L" and "floats L t" and "unat (next_free_td s') = Suc t"
proof -
  note len = krep_lengths [OF rep]
  show nf': "unat (next_free_td s') = Suc t" using nf unat_next_free_Suc [of "next_free_td s"] s' by simp
  have lt: "u < t" if "u \<in> set (L i)" for u i using krep_bound [OF rep that] nf by simp
  then show "floats L t" by (auto simp: floats_def)
  have sendq: "L (SendQ t) = []" using rep nf by (simp add: krep_def)
  have reps: "queue_rep (nodes s') (kqueue s' i) (map (qnode i) (L i))" if "i \<in> set (qids s')" for i
  proof (cases "i = SendQ t")
    case True
    with sendq s' len nf nf' d(3) show ?thesis by simp
  next
    case False
    with that nf' nf have i: "i \<in> set (qids s)" by (auto simp: qids_def less_Suc_eq)
    have "kqueue s' i = kqueue s i" using False nf nf' len s' by (cases i) (auto simp: nth_list_update)
    moreover have "queue_rep (nodes s') (kqueue s i) (map (qnode i) (L i)) =
        queue_rep (nodes s) (kqueue s i) (map (qnode i) (L i))"
      using lt s' by (intro queue_rep_cong) (fastforce simp: init_nodes_other)
    ultimately show ?thesis using rep i by (simp add: krep_def)
  qed
  have "td_ok s' u" if "u < Suc t" for u
  proof (cases "u = t")
    case True
    with d len nf nf' show ?thesis by (auto simp: td_ok_def init_nodes_data s')
  next
    case False
    with that nf have "td_ok s u" by (intro krep_td_ok [OF rep]) simp
    with False that nf nf' show ?thesis
      by (auto simp: td_ok_def s' init_nodes_other elim: option.pred_mono_strong)
  qed
  then have "kshape s'" using krep_shape [OF rep] nf' nf(2) s' by (simp add: kshape_def)
  moreover have "L i = []" if "i \<notin> set (qids s')" for i
  proof -
    from that nf nf' have "i \<notin> set (qids s)" by (auto simp: qids_def)
    with rep show ?thesis by (simp add: krep_def)
  qed
  moreover have "belongs s' i u" if "u \<in> set (L i)" for i u
    using krep_belongs [OF rep that] lt [OF that] s' by (cases i) auto
  ultimately show "krep s' L"
    using rep reps nf' lt s' by (auto simp: krep_def less_Suc_eq)
qed

lemma kernel_create_errors:
  "sint priority < 0 \<or> 63 < sint priority \<Longrightarrow> kernel_create a priority code s = Some (- 1, s)"
  "0 \<le> sint priority \<Longrightarrow> sint priority \<le> 63 \<Longrightarrow> 64 \<le> unat (next_free_td s) \<Longrightarrow>
     kernel_create a priority code s = Some (- 2, s)"
  by (auto simp: kernel_create_def TASK_DESCRIPTOR_MAX_TASKS_def)

lemma priority_byte:
  assumes "0 \<le> sint (priority :: i32)" "sint priority \<le> 63"
  shows "unat (ucast priority :: u8) = nat (sint priority)"
proof -
  obtain n where n: "sint priority = int n" "n \<le> 63" using assms by (auto dest: zero_le_imp_eq_int)
  have "priority = of_int (sint priority)" by simp
  then have "priority = of_nat n" using n(1) by (metis of_int_of_nat_eq)
  with n show ?thesis by (simp add: unsigned_of_nat unsigned_ucast_eq take_bit_nat_eq_self)
qed

lemma scheduler_put_keeps_next_free:
  "scheduler_put t s = Some (e, s') \<Longrightarrow> next_free_td s' = next_free_td s"
  by (auto simp: scheduler_put_def td_get_def td_update_def Let_def split: Option.bind_splits if_splits)

text \<open>Two tasks put in a row while the table is not yet extended.\<close>

lemma scheduler_put_before_extend:
  assumes "scheduler_put t (s\<lparr>next_free_td := n\<rparr>) = Some (0, s1)" "scheduler_put u s1 = Some (0, s2)"
  obtains r1 r2 where "scheduler_put t s = Some (0, r1)" "scheduler_put u r1 = Some (0, r2)"
    "next_free_td r2 = next_free_td s" "s2 = r2\<lparr>next_free_td := n\<rparr>"
proof -
  from assms(1) obtain r1 where r1: "scheduler_put t s = Some (0, r1)" "s1 = r1\<lparr>next_free_td := n\<rparr>"
    by (auto simp: scheduler_put_next_free)
  from assms(2) obtain r2 where r2: "scheduler_put u r1 = Some (0, r2)" "s2 = r2\<lparr>next_free_td := n\<rparr>"
    by (auto simp: scheduler_put_next_free r1(2))
  show ?thesis
    using r1(1) r2 scheduler_put_keeps_next_free [OF r1(1)] scheduler_put_keeps_next_free [OF r2(1)]
    by (intro that) simp_all
qed

lemma floats_enqueue: "floats L a \<Longrightarrow> a \<notin> set ts \<Longrightarrow> floats (enqueue_ready s ts L) a"
proof (induction ts arbitrary: L)
  case Nil
  then show ?case by (simp add: enqueue_ready_def)
next
  case (Cons t ts)
  have "floats (enqueue_ready s [t] L) a"
    using Cons.prems by (auto simp: floats_def enqueue_ready_def)
  with Cons show ?case by (simp add: enqueue_ready_Cons [of s t ts])
qed

lemma kernel_create_running:
  assumes run: "running s L a" and p: "0 \<le> sint priority" "sint priority \<le> 63"
    and nf: "unat (next_free_td s) = t" "t < 64"
  obtains s' where "kernel_create a priority code s = Some (of_nat t, s')"
    and "krep s' (enqueue_ready s' [t, a] L)" and "unat (next_free_td s') = Suc t"
    and "tds s' = (tds s)[t := fresh_td (of_nat t) (ucast priority) (Some a) code (td_message_params (tds s ! t)),
                          a := (tds s ! a)\<lparr>td_state := READY\<rparr>]"
proof -
  note r = runningD [OF run]
  let ?d = "fresh_td (of_nat t) (ucast priority) (Some a) code (td_message_params (tds s ! t))"
  let ?tid = "ucast (next_free_td s) :: u8"
  have "next_free_td s = of_nat t" using nf(1) by auto
  then have tid: "?tid = of_nat t" using nf(2) by (simp add: unsigned_of_nat take_bit_nat_eq_self)
  obtain m where init: "task_descriptor_init t ?tid (ucast priority) (Some a) code s =
      Some (s\<lparr>mem := m, nodes := init_nodes t (nodes s), tds := (tds s)[t := ?d]\<rparr>)"
    using task_descriptor_init_eq [of t s ?tid "ucast priority" "Some a" code] r(6) nf(2) tid by auto
  let ?s = "s\<lparr>mem := m, nodes := init_nodes t (nodes s), tds := (tds s)[t := ?d]\<rparr>"
  let ?e = "s\<lparr>mem := m, nodes := init_nodes t (nodes s), tds := (tds s)[t := ?d], next_free_td := next_free_td s + 1\<rparr>"
  have at: "a < t" using r(2) nf(1) by simp
  have d: "td_tid ?d = of_nat t" "unat (td_priority ?d) < 64" "td_send_q ?d = queue_init"
    "td_parent ?d = Some a" "?d\<lparr>td_state := READY\<rparr> = ?d"
    using priority_byte [OF p] p by (simp_all add: fresh_td_def)
  have new: "krep ?e L" "floats L t" "unat (next_free_td ?e) = Suc t"
    by (rule krep_new_td [OF r(1) nf d(1-4) at refl])+
  obtain s1 where s1: "scheduler_put t ?e = Some (0, s1)" "krep s1 (enqueue_ready ?e [t] L)"
    "made_ready t ?e s1"
    by (rule put_krep [OF new(1) _ new(2)]) (use new(3) in simp_all)
  have fa: "floats (enqueue_ready ?e [t] L) a" using r(3) at by (intro floats_enqueue) auto
  have nf1: "unat (next_free_td s1) = Suc t" using made_ready_frame(7) [OF s1(3)] new(3) by simp
  obtain s2 where s2: "scheduler_put a s1 = Some (0, s2)"
    "krep s2 (enqueue_ready s1 [a] (enqueue_ready ?e [t] L))" "made_ready a s1 s2"
    by (rule put_krep [OF s1(2) _ fa]) (use nf1 at in simp_all)
  obtain r1 r2 where r12: "scheduler_put t ?s = Some (0, r1)" "scheduler_put a r1 = Some (0, r2)"
    "next_free_td r2 = next_free_td s" "s2 = r2\<lparr>next_free_td := next_free_td s + 1\<rparr>"
    using scheduler_put_before_extend [OF s1(1) s2(1)] by auto
  have tds2: "tds s2 = (tds s)[t := ?d, a := (tds s ! a)\<lparr>td_state := READY\<rparr>]"
    using made_ready_frame(1) [OF s2(3)] made_ready_frame(1) [OF s1(3)] at nf(2) r(6) d(5)
    by (simp add: list_update_swap)
  have pr: "td_priority (tds s2 ! t) = td_priority (tds ?e ! t)"
    "td_priority (tds s2 ! a) = td_priority (tds s1 ! a)"
    using tds2 made_ready_frame(1) [OF s1(3)] at nf(2) r(6) by auto
  have "enqueue_ready s1 [a] (enqueue_ready ?e [t] L) = enqueue_ready s2 [t, a] L"
    using pr by (simp add: enqueue_ready_def)
  moreover have "kernel_create a priority code s = Some (of_nat t, s2)"
  proof -
    have "td_tid (tds s2 ! t) = of_nat t" using tds2 at nf(2) r(6) d(1) by simp
    moreover have "tds s2 = tds r2" "length (tds s2) = 64" using r12(4) tds2 r(6) by simp_all
    ultimately have "td_get t (r2\<lparr>next_free_td := next_free_td r2 + 1\<rparr>) = Some (tds s2 ! t)"
      "(ucast (td_tid (tds s2 ! t)) :: i32) = of_nat t"
      using nf(2) by (simp_all add: unsigned_of_nat take_bit_nat_eq_self)
    with p nf r12 init show ?thesis
      by (simp add: kernel_create_def TASK_DESCRIPTOR_MAX_TASKS_def)
  qed
  moreover have "unat (next_free_td s2) = Suc t" using made_ready_frame(7) [OF s2(3)] nf1 by simp
  ultimately show ?thesis using s2(2) tds2 by (intro that) simp_all
qed

subsection \<open>Send\<close>

lemma kernel_send_bad_tid:
  assumes "running s L a" "unat tid < 64" "td_tid (tds s ! unat tid) \<noteq> tid"
  obtains s' where "kernel_send a tid msg len rep rlen s = Some (- 1, s')"
    "krep s' (enqueue_ready s [a] L)" "made_ready a s s'"
  by (rule put_active [OF assms(1)], rule that)
    (use assms runningD [OF assms(1)] in \<open>simp_all add: kernel_send_def\<close>)

lemma kernel_send_size_mismatch:
  assumes "running s L a" "unat tid < 64" "td_tid (tds s ! unat tid) = tid"
    "td_state (tds s ! unat tid) = SEND_BLOCKED"
    "mp_msg_len (td_message_params (tds s ! unat tid)) \<noteq> len"
  obtains s' where "kernel_send a tid msg len rep rlen s = Some (- 2, s')"
    "krep s' (enqueue_ready s [a] L)" "made_ready a s s'"
  by (rule put_active [OF assms(1)], rule that)
    (use assms runningD [OF assms(1)] in \<open>simp_all add: kernel_send_def\<close>)

text \<open>
  The receiver does not wait: the sender joins its send queue and is blocked until it
  receives. Nothing is copied yet; the descriptor keeps the message's address and length.
\<close>

lemma kernel_send_queued:
  assumes run: "running s L a" and r: "r < unat (next_free_td s)" "unat tid = r"
    and st: "td_state (tds s ! r) \<noteq> SEND_BLOCKED"
  obtains s' where "kernel_send a tid msg len rep rlen s = Some (0, s')"
    and "krep s' (L(SendQ r := L (SendQ r) @ [a]))"
    and "td_state (tds s' ! a) = RECEIVE_BLOCKED"
    and "td_message_params (tds s' ! a) = (td_message_params (tds s ! a))
           \<lparr>mp_msg := msg, mp_msg_len := len, mp_rep := rep, mp_rep_len := rlen\<rparr>"
    and "\<And>u. u < 64 \<Longrightarrow> u \<noteq> a \<Longrightarrow> td_state (tds s' ! u) = td_state (tds s ! u) \<and>
           td_message_params (tds s' ! u) = td_message_params (tds s ! u)"
    and "\<And>u. u < 64 \<Longrightarrow> td_tid (tds s' ! u) = td_tid (tds s ! u) \<and> td_sp (tds s' ! u) = td_sp (tds s ! u)
           \<and> td_priority (tds s' ! u) = td_priority (tds s ! u)"
    and "mem s' = mem s" and "sch s' = sch s" and "next_free_td s' = next_free_td s"
proof -
  note ra = runningD [OF run]
  note len = krep_lengths [OF ra(1)]
  have r64: "r < 64" using r(1) len by simp
  have tid: "td_tid (tds s ! r) = tid"
    using krep_td_ok [OF ra(1) r(1)] r(2) by (auto simp: td_ok_def)
  obtain q h where put: "queue_put (kqueue s (SendQ r)) (nodes s) (Some (qnode (SendQ r) a)) = Some (0, q, h)"
    and post: "\<And>s'. same_tds a s s' \<Longrightarrow> nodes s' = h \<Longrightarrow> kqueue s' = (kqueue s)(SendQ r := q) \<Longrightarrow>
      belongs s' (SendQ r) a \<Longrightarrow>
      (\<And>p. p < 64 \<Longrightarrow> bit (bitmap (sch s')) p \<longleftrightarrow> bit (bitmap (sch s)) p \<or> SendQ r = ReadyQ p) \<Longrightarrow>
      krep s' (L(SendQ r := L (SendQ r) @ [a]))"
    by (rule krep_put [OF ra(1) _ ra(2,3), where i = "SendQ r"]) (use r in auto)
  let ?t1 = "(tds s)[r := (tds s ! r)\<lparr>td_send_q := q\<rparr>]"
  let ?d = "(?t1 ! a)\<lparr>td_state := RECEIVE_BLOCKED, td_message_params := (td_message_params (tds s ! a))
      \<lparr>mp_msg := msg, mp_msg_len := len, mp_rep := rep, mp_rep_len := rlen\<rparr>\<rparr>"
  let ?s = "s\<lparr>nodes := h, tds := ?t1[a := ?d]\<rparr>"
  have mp: "td_message_params (?t1 ! a) = td_message_params (tds s ! a)"
    using ra(4) r64 len by (simp add: nth_list_update_if)
  have "kqueue ?s j = ((kqueue s)(SendQ r := q)) j" for j
    using len r ra(4) r64 by (cases j) (auto simp: nth_list_update)
  moreover have "same_tds a s ?s"
    by (auto simp: same_tds_def same_identity_def nth_list_update_if)
  moreover have "belongs ?s (SendQ r) a" using ra(4) by simp
  ultimately have "krep ?s (L(SendQ r := L (SendQ r) @ [a]))" by (intro post) auto
  moreover have "kernel_send a tid msg len rep rlen s = Some (0, ?s)"
    using put tid st r ra(4) r64 len mp
    by (simp add: kernel_send_def send_to_queue_def)
  moreover have "td_message_params (tds ?s ! u) = td_message_params (tds s ! u)"
    "td_state (tds ?s ! u) = td_state (tds s ! u)" if "u < 64" "u \<noteq> a" for u
    using that len by (simp_all add: nth_list_update_if)
  moreover have "td_tid (tds ?s ! u) = td_tid (tds s ! u)" "td_sp (tds ?s ! u) = td_sp (tds s ! u)"
    "td_priority (tds ?s ! u) = td_priority (tds s ! u)" if "u < 64" for u
    using that len by (simp_all add: nth_list_update_if)
  ultimately show ?thesis using ra(4) by (intro that [of ?s]) simp_all
qed

text \<open>
  The receiver waits: the message is copied into its buffer, its \<open>Receive\<close> returns the
  sender's id, and the sender waits for the reply.
\<close>

lemma kernel_send_delivered:
  assumes run: "running s L a" and r: "r < unat (next_free_td s)" "unat tid = r"
    and st: "td_state (tds s ! r) = SEND_BLOCKED" "mp_msg_len (td_message_params (tds s ! r)) = len"
    and cp: "memcpy (mem s) (mp_msg (td_message_params (tds s ! r))) msg len = Some m"
  obtains s' where "kernel_send a tid msg len rep rlen s = Some (0, s')"
    and "krep s' (enqueue_ready s [r] L)"
    and "tds s' = (tds s)[r := (tds s ! r)\<lparr>td_state := READY\<rparr>,
           a := (tds s ! a)\<lparr>td_state := REPLY_BLOCKED,
             td_message_params := (td_message_params (tds s ! a))\<lparr>mp_rep := rep, mp_rep_len := rlen\<rparr>\<rparr>]"
    and "mem s' = store32 (m(mp_tid (td_message_params (tds s ! r)) := of_nat a)) (td_sp (tds s ! r)) (of_nat a)"
    and "next_free_td s' = next_free_td s"
proof -
  note ra = runningD [OF run]
  note len = krep_lengths [OF ra(1)]
  have r64: "r < 64" using r(1) len by simp
  have ar: "a \<noteq> r" using st(1) ra(8) by auto
  have tid: "td_tid (tds s ! r) = tid" "td_tid (tds s ! a) = of_nat a"
    using krep_td_ok [OF ra(1) r(1)] r(2) ra(7) by (auto simp: td_ok_def)
  have fl: "floats L r" by (rule krep_floats [OF ra(1)]) (simp add: st)
  let ?m = "store32 (m(mp_tid (td_message_params (tds s ! r)) := of_nat a)) (td_sp (tds s ! r)) (of_nat a)"
  let ?s = "s\<lparr>mem := ?m\<rparr>"
  obtain s1 where s1: "scheduler_put r ?s = Some (0, s1)" "krep s1 (enqueue_ready ?s [r] L)"
    "made_ready r ?s s1"
    by (rule put_krep [of ?s L r]) (use ra r fl in simp_all)
  note fr = made_ready_frame [OF s1(3)]
  let ?d = "(tds s1 ! a)\<lparr>td_state := REPLY_BLOCKED,
      td_message_params := (td_message_params (tds s1 ! a))\<lparr>mp_rep := rep, mp_rep_len := rlen\<rparr>\<rparr>"
  have eq: "enqueue_ready ?s [r] L = enqueue_ready s [r] L" by (simp add: enqueue_ready_def)
  have fa: "floats (enqueue_ready s [r] L) a" using ra(3) ar by (intro floats_enqueue) auto
  have "krep (s1\<lparr>tds := (tds s1)[a := ?d]\<rparr>) (enqueue_ready s [r] L)"
    using s1(2) fr(7) ra(2) fa eq by (intro krep_td_update) (auto simp: same_identity_def)
  moreover have "kernel_send a tid msg len rep rlen s = Some (0, s1\<lparr>tds := (tds s1)[a := ?d]\<rparr>)"
  proof -
    have "(ucast (of_nat a :: u8) :: i32) = of_nat a"
      using ra(5) by (simp add: unsigned_of_nat take_bit_nat_eq_self)
    then show ?thesis
      using s1(1) tid st r r64 ra(4) len cp fr(1)
      by (simp add: kernel_send_def send_to_waiting_def Let_def)
  qed
  moreover have "tds s1 ! a = tds s ! a" using fr(1) ar by simp
  ultimately show ?thesis using fr by (intro that [of "s1\<lparr>tds := (tds s1)[a := ?d]\<rparr>"]) simp_all
qed

subsection \<open>Receive\<close>

lemma kernel_receive_blocks:
  assumes run: "running s L a" and L: "L (SendQ a) = []"
  shows "kernel_receive a tid msg len s = Some (0, s\<lparr>tds := (tds s)[a := (tds s ! a)\<lparr>td_state := SEND_BLOCKED,
      td_message_params := (td_message_params (tds s ! a))\<lparr>mp_tid := tid, mp_msg := msg, mp_msg_len := len\<rparr>\<rparr>]\<rparr>)"
    and "krep (s\<lparr>tds := (tds s)[a := (tds s ! a)\<lparr>td_state := SEND_BLOCKED,
      td_message_params := (td_message_params (tds s ! a))\<lparr>mp_tid := tid, mp_msg := msg, mp_msg_len := len\<rparr>\<rparr>]\<rparr>) L"
proof -
  note ra = runningD [OF run]
  have "queue_empty (td_send_q (tds s ! a))"
    using krep_queue_empty [OF ra(1), of "SendQ a"] L ra(2) by simp
  then show "kernel_receive a tid msg len s = Some (0, s\<lparr>tds := (tds s)[a := (tds s ! a)\<lparr>td_state := SEND_BLOCKED,
      td_message_params := (td_message_params (tds s ! a))\<lparr>mp_tid := tid, mp_msg := msg, mp_msg_len := len\<rparr>\<rparr>]\<rparr>)"
    using ra(4) by (simp add: kernel_receive_def)
  show "krep (s\<lparr>tds := (tds s)[a := (tds s ! a)\<lparr>td_state := SEND_BLOCKED,
      td_message_params := (td_message_params (tds s ! a))\<lparr>mp_tid := tid, mp_msg := msg, mp_msg_len := len\<rparr>\<rparr>]\<rparr>) L"
    using ra by (intro krep_td_update) (auto simp: same_identity_def)
qed

text \<open>Taking the first sender from the active task's send queue.\<close>

lemma receive_dequeue:
  assumes run: "running s L a" and L: "L (SendQ a) = t # ts"
  obtains q h where "queue_get (td_send_q (tds s ! a)) (nodes s) = Some (Some t, q, h)"
    and "\<not> queue_empty (td_send_q (tds s ! a))"
    and "running (s\<lparr>nodes := h, tds := (tds s)[a := (tds s ! a)\<lparr>td_send_q := q\<rparr>]\<rparr>) (L(SendQ a := ts)) a"
    and "floats (L(SendQ a := ts)) t" and "t < 64" and "t \<noteq> a" and "t < unat (next_free_td s)"
    and "td_tid (tds s ! t) = of_nat t" and "td_state (tds s ! t) = RECEIVE_BLOCKED"
proof -
  note ra = runningD [OF run]
  note len = krep_lengths [OF ra(1)]
  have mem: "t \<in> set (L (SendQ a))" using L by simp
  have tnf: "t < unat (next_free_td s)" by (rule krep_bound [OF ra(1) mem])
  have ta: "t \<noteq> a" using mem ra(3) by (auto simp: floats_def)
  have st: "td_state (tds s ! t) = RECEIVE_BLOCKED" using krep_belongs [OF ra(1) mem] by simp
  obtain q h where get: "queue_get (kqueue s (SendQ a)) (nodes s) = Some (Some t, q, h)"
    and fl: "floats (L(SendQ a := ts)) t"
    and post: "\<And>s'. same_tds t s s' \<Longrightarrow> td_state (tds s' ! t) = td_state (tds s ! t) \<Longrightarrow>
      nodes s' = h \<Longrightarrow> kqueue s' = (kqueue s)(SendQ a := q) \<Longrightarrow>
      (\<And>r. r < 64 \<Longrightarrow> bit (bitmap (sch s')) r \<longleftrightarrow>
        bit (bitmap (sch s)) r \<and> (SendQ a = ReadyQ r \<longrightarrow> ts \<noteq> [])) \<Longrightarrow>
      krep s' (L(SendQ a := ts))"
    by (rule krep_get [OF ra(1) L]) auto
  let ?s = "s\<lparr>nodes := h, tds := (tds s)[a := (tds s ! a)\<lparr>td_send_q := q\<rparr>]\<rparr>"
  have "kqueue ?s j = ((kqueue s)(SendQ a := q)) j" for j
    using len ra(2,4) by (cases j) (auto simp: nth_list_update)
  moreover have "same_tds t s ?s"
    by (auto simp: same_tds_def same_identity_def nth_list_update_if)
  ultimately have "krep ?s (L(SendQ a := ts))" using ta by (intro post) auto
  moreover have "floats (L(SendQ a := ts)) a"
    using ra(3) L by (auto simp: floats_def) (metis list.set_intros(2))
  ultimately have "running ?s (L(SendQ a := ts)) a" using ra by (simp add: running_def)
  moreover have "\<not> queue_empty (td_send_q (tds s ! a))"
    using krep_queue_empty [OF ra(1), of "SendQ a"] L ra(2) by simp
  moreover have "td_tid (tds s ! t) = of_nat t" using krep_td_ok [OF ra(1) tnf] by (simp add: td_ok_def)
  ultimately show ?thesis
    using get fl ra(2) len tnf ta st by (intro that [of q h]) auto
qed

lemma kernel_receive_size_mismatch:
  assumes run: "running s L a" and L: "L (SendQ a) = t # ts"
    and sz: "mp_msg_len (td_message_params (tds s ! t)) \<noteq> len"
  obtains s' where "kernel_receive a tid msg len s = Some (- 1, s')"
    and "krep s' (enqueue_ready s [a] (L(SendQ a := ts)))"
    and "floats (enqueue_ready s [a] (L(SendQ a := ts))) t"
    and "td_state (tds s' ! t) = RECEIVE_BLOCKED"
proof -
  obtain q h where d: "queue_get (td_send_q (tds s ! a)) (nodes s) = Some (Some t, q, h)"
    "\<not> queue_empty (td_send_q (tds s ! a))"
    "running (s\<lparr>nodes := h, tds := (tds s)[a := (tds s ! a)\<lparr>td_send_q := q\<rparr>]\<rparr>) (L(SendQ a := ts)) a"
    "floats (L(SendQ a := ts)) t" "t < 64" "t \<noteq> a" "t < unat (next_free_td s)"
    "td_tid (tds s ! t) = of_nat t" "td_state (tds s ! t) = RECEIVE_BLOCKED"
    by (rule receive_dequeue [OF run L])
  note ra = runningD [OF run]
  let ?s = "s\<lparr>nodes := h, tds := (tds s)[a := (tds s ! a)\<lparr>td_send_q := q\<rparr>]\<rparr>"
  obtain s' where s': "scheduler_put a ?s = Some (0, s')"
    "krep s' (enqueue_ready ?s [a] (L(SendQ a := ts)))" "made_ready a ?s s'"
    by (rule put_active [OF d(3)])
  have eq: "enqueue_ready ?s [a] K = enqueue_ready s [a] K" for K
    using ra(4) by (simp add: enqueue_ready_def)
  have "floats (enqueue_ready s [a] (L(SendQ a := ts))) t" using d(4,6) by (intro floats_enqueue) auto
  moreover have "td_state (tds s' ! t) = RECEIVE_BLOCKED"
    using made_ready_td(7) [OF s'(3), of t] d(5,6,9) ra(6) by simp
  moreover have "kernel_receive a tid msg len s = Some (- 1, s')"
    using d s'(1) sz ra(4,6) by (simp add: kernel_receive_def)
  ultimately show ?thesis using s'(2) eq by (intro that) simp_all
qed

text \<open>A queued message is delivered: copied, its sender named, and the sender waits for the reply.\<close>

lemma kernel_receive_delivered:
  assumes run: "running s L a" and L: "L (SendQ a) = t # ts"
    and sz: "mp_msg_len (td_message_params (tds s ! t)) = len"
    and cp: "memcpy (mem s) msg (mp_msg (td_message_params (tds s ! t))) len = Some m"
  obtains s' where "kernel_receive a tid msg len s = Some (of_nat t, s')"
    and "krep s' (enqueue_ready s [a] (L(SendQ a := ts)))"
    and "td_state (tds s' ! t) = REPLY_BLOCKED" and "td_state (tds s' ! a) = READY"
    and "\<And>u. u < 64 \<Longrightarrow> td_message_params (tds s' ! u) = td_message_params (tds s ! u) \<and>
           td_tid (tds s' ! u) = td_tid (tds s ! u) \<and> td_sp (tds s' ! u) = td_sp (tds s ! u) \<and>
           td_priority (tds s' ! u) = td_priority (tds s ! u)"
    and "mem s' = m(tid := of_nat t)" and "next_free_td s' = next_free_td s"
proof -
  obtain q h where d: "queue_get (td_send_q (tds s ! a)) (nodes s) = Some (Some t, q, h)"
    "\<not> queue_empty (td_send_q (tds s ! a))"
    "running (s\<lparr>nodes := h, tds := (tds s)[a := (tds s ! a)\<lparr>td_send_q := q\<rparr>]\<rparr>) (L(SendQ a := ts)) a"
    "floats (L(SendQ a := ts)) t" "t < 64" "t \<noteq> a" "t < unat (next_free_td s)"
    "td_tid (tds s ! t) = of_nat t" "td_state (tds s ! t) = RECEIVE_BLOCKED"
    by (rule receive_dequeue [OF run L])
  note ra = runningD [OF run]
  let ?s = "s\<lparr>nodes := h, tds := (tds s)[a := (tds s ! a)\<lparr>td_send_q := q\<rparr>], mem := m(tid := of_nat t)\<rparr>"
  have run': "running ?s (L(SendQ a := ts)) a"
    using d(3) by (simp add: running_def)
  obtain s1 where s1: "scheduler_put a ?s = Some (0, s1)"
    "krep s1 (enqueue_ready ?s [a] (L(SendQ a := ts)))" "made_ready a ?s s1"
    by (rule put_active [OF run'])
  have eq: "enqueue_ready ?s [a] K = enqueue_ready s [a] K" for K
    using ra(4) by (simp add: enqueue_ready_def)
  note fr = made_ready_frame [OF s1(3)]
  let ?d = "(tds s1 ! t)\<lparr>td_state := REPLY_BLOCKED\<rparr>"
  let ?s' = "s1\<lparr>tds := (tds s1)[t := ?d]\<rparr>"
  have len: "length (tds s1) = 64" using fr(1) ra(6) by simp
  have "floats (enqueue_ready s [a] (L(SendQ a := ts))) t" using d(4,6) by (intro floats_enqueue) auto
  then have rep: "krep ?s' (enqueue_ready s [a] (L(SendQ a := ts)))"
    using s1(2) eq fr(7) d(7) by (intro krep_td_update) (auto simp: same_identity_def)
  have "(ucast (of_nat t :: u8) :: i32) = of_nat t"
    using d(5) by (simp add: unsigned_of_nat take_bit_nat_eq_self)
  then have "kernel_receive a tid msg len s = Some (of_nat t, ?s')"
    using d s1(1) sz ra(4,6) cp len fr(2) by (simp add: kernel_receive_def)
  moreover have "td_message_params (tds ?s' ! u) = td_message_params (tds s ! u) \<and>
      td_tid (tds ?s' ! u) = td_tid (tds s ! u) \<and> td_sp (tds ?s' ! u) = td_sp (tds s ! u) \<and>
      td_priority (tds ?s' ! u) = td_priority (tds s ! u)" if "u < 64" for u
    using fr(1) ra(6) that by (auto simp: nth_list_update_if)
  ultimately show ?thesis
    using rep fr ra d(5,6) by (intro that [of ?s']) simp_all
qed

subsection \<open>Reply\<close>

lemma kernel_reply_bad_tid:
  assumes "running s L a" "unat tid < 64" "td_tid (tds s ! unat tid) \<noteq> tid"
  obtains s' where "kernel_reply a tid rep rlen s = Some (- 1, s')"
    "krep s' (enqueue_ready s [a] L)" "made_ready a s s'"
  by (rule put_active [OF assms(1)], rule that)
    (use assms runningD [OF assms(1)] in \<open>simp_all add: kernel_reply_def\<close>)

lemma kernel_reply_size_mismatch:
  assumes "running s L a" "unat tid < 64" "td_tid (tds s ! unat tid) = tid"
    "mp_rep_len (td_message_params (tds s ! unat tid)) \<noteq> rlen"
  obtains s' where "kernel_reply a tid rep rlen s = Some (- 2, s')"
    "krep s' (enqueue_ready s [a] L)" "made_ready a s s'"
  by (rule put_active [OF assms(1)], rule that)
    (use assms runningD [OF assms(1)] in \<open>simp_all add: kernel_reply_def\<close>)

text \<open>
  \<open>Reply\<close> does not look at the state of the addressee: what follows needs only that it is in no queue.
\<close>

lemma kernel_reply_floating:
  assumes run: "running s L a" and r: "r < unat (next_free_td s)" "unat tid = r"
    and fl: "floats L r" and ar: "a \<noteq> r" and st: "mp_rep_len (td_message_params (tds s ! r)) = rlen"
    and cp: "memcpy (mem s) (mp_rep (td_message_params (tds s ! r))) rep rlen = Some m"
  obtains s' where "kernel_reply a tid rep rlen s = Some (0, s')"
    and "krep s' (enqueue_ready s [r, a] L)"
    and "tds s' = (tds s)[r := (tds s ! r)\<lparr>td_state := READY\<rparr>, a := (tds s ! a)\<lparr>td_state := READY\<rparr>]"
    and "mem s' = store32 m (td_sp (tds s ! r)) 0" and "next_free_td s' = next_free_td s"
proof -
  note ra = runningD [OF run]
  note len = krep_lengths [OF ra(1)]
  have r64: "r < 64" using r(1) len by simp
  have tid: "td_tid (tds s ! r) = tid" using krep_td_ok [OF ra(1) r(1)] r(2) by (auto simp: td_ok_def)
  let ?s = "s\<lparr>mem := store32 m (td_sp (tds s ! r)) 0\<rparr>"
  obtain s1 where s1: "scheduler_put r ?s = Some (0, s1)" "krep s1 (enqueue_ready ?s [r] L)"
    "made_ready r ?s s1"
    by (rule put_krep [of ?s L r]) (use ra r fl in simp_all)
  note fr = made_ready_frame [OF s1(3)]
  have fa: "floats (enqueue_ready ?s [r] L) a" using ra(3) ar by (intro floats_enqueue) auto
  obtain s2 where s2: "scheduler_put a s1 = Some (0, s2)"
    "krep s2 (enqueue_ready s1 [a] (enqueue_ready ?s [r] L))" "made_ready a s1 s2"
    by (rule put_krep [OF s1(2) _ fa]) (use fr(7) ra(2) in simp_all)
  note fr2 = made_ready_frame [OF s2(3)]
  have "enqueue_ready s1 [a] (enqueue_ready ?s [r] L) = enqueue_ready s [r, a] L"
    using fr(1) ar by (simp add: enqueue_ready_def)
  moreover have "kernel_reply a tid rep rlen s = Some (0, s2)"
    using s1(1) s2(1) tid st r r64 len cp by (simp add: kernel_reply_def)
  ultimately show ?thesis
    using s2(2) fr fr2 ar by (intro that [of s2]) simp_all
qed

lemma kernel_reply_delivered:
  assumes run: "running s L a" and r: "r < unat (next_free_td s)" "unat tid = r"
    and st: "td_state (tds s ! r) = REPLY_BLOCKED" "mp_rep_len (td_message_params (tds s ! r)) = rlen"
    and cp: "memcpy (mem s) (mp_rep (td_message_params (tds s ! r))) rep rlen = Some m"
  obtains s' where "kernel_reply a tid rep rlen s = Some (0, s')"
    and "krep s' (enqueue_ready s [r, a] L)"
    and "tds s' = (tds s)[r := (tds s ! r)\<lparr>td_state := READY\<rparr>, a := (tds s ! a)\<lparr>td_state := READY\<rparr>]"
    and "mem s' = store32 m (td_sp (tds s ! r)) 0" and "next_free_td s' = next_free_td s"
proof -
  note ra = runningD [OF run]
  have ar: "a \<noteq> r" using st(1) ra(8) by auto
  have fl: "floats L r" by (rule krep_floats [OF ra(1)]) (simp add: st)
  show ?thesis by (rule kernel_reply_floating [OF run r fl ar st(2) cp], rule that)
qed

end
