(* ===== verification/KernelMainProps.thy ===== *)
theory KernelMainProps
  imports KernelMain KernelProps
begin

text \<open>
  The dispatcher and the main loop keep the kernel's invariant. What a task may ask for without
  breaking the kernel is \<open>request_ok\<close>, and what the interrupt hardware has to report is
  \<open>irq_expected\<close>; both name exactly the guards that the source leaves out.
\<close>

subsection \<open>Requests and interrupts the kernel can serve\<close>

definition known_tid :: "kernel_context_t \<Rightarrow> u8 \<Rightarrow> bool" where
  "known_tid s tid \<longleftrightarrow> unat tid < unat (next_free_td s)"

text \<open>
  A task id that is no index of the descriptor array, or that belongs to a descriptor which was
  never initialised but happens to hold that id, is not served: the source does not check.
\<close>

definition target_ok :: "kernel_context_t \<Rightarrow> u8 \<Rightarrow> bool" where
  "target_ok s tid \<longleftrightarrow> unat tid < 64 \<and> (known_tid s tid \<or> td_tid (tds s ! unat tid) \<noteq> tid)"

definition reply_ok :: "kernel_context_t \<Rightarrow> u8 \<Rightarrow> u32 \<Rightarrow> bool" where
  "reply_ok s tid len \<longleftrightarrow> target_ok s tid \<and> unat len < 2 ^ 31 \<and>
     (td_tid (tds s ! unat tid) = tid \<longrightarrow> mp_rep_len (td_message_params (tds s ! unat tid)) = len \<longrightarrow>
        td_state (tds s ! unat tid) = REPLY_BLOCKED)"

definition request_ok :: "nat \<Rightarrow> u32 \<Rightarrow> kernel_context_t \<Rightarrow> bool" where
  "request_ok a req s \<longleftrightarrow>
     (let sp = td_sp (tds s ! a);
          arg0 = load32 (mem s) sp; arg1 = load32 (mem s) (sp + 4); arg2 = load32 (mem s) (sp + 8)
      in case sys_code req of
           Some SYS_CODE_SEND \<Rightarrow> target_ok s (mem s arg0) \<and> unat (load32 (mem s) (arg0 + 8)) < 2 ^ 31
         | Some SYS_CODE_RECEIVE \<Rightarrow> unat arg2 < 2 ^ 31
         | Some SYS_CODE_REPLY \<Rightarrow> reply_ok s (ucast arg0) arg2
         | Some SYS_CODE_PANIC \<Rightarrow> read_cstring (mem s) arg0 \<noteq> None
         | _ \<Rightarrow> True)"

text \<open>
  The event and the value that the hardware reports in an interrupt: the vector from the interrupt
  controller, then the status of the UART, receive before modem status before transmit.
\<close>

definition irq_event :: "'a machine_scheme \<Rightarrow> (u32 \<times> u32) option" where
  "irq_event s =
     (let (event, s) = reg_read (VIC2_BASE + VIC_VEC_ADDR_OFFSET) s;
          (v1, s) = reg_read (UART1_BASE + UART_INTR_OFFSET) s;
          (v2, s) = reg_read (UART2_BASE + UART_INTR_OFFSET) s;
          data1 = fst (reg_read (UART1_BASE + UART_DATA_OFFSET) s) AND DATA_MASK;
          data2 = fst (reg_read (UART2_BASE + UART_DATA_OFFSET) s) AND DATA_MASK;
          flags1 = fst (reg_read (UART1_BASE + UART_FLAG_OFFSET) s)
      in if event = SYS_CALL_EVENT_TIMER then Some (SYS_CALL_EVENT_TIMER, 0)
         else if event = SYS_CALL_EVENT_UART1 then
           (if ucast v1 AND RIS_MASK \<noteq> 0 then Some (SYS_CALL_EVENT_UART1_RX, data1)
            else if ucast v1 AND MIS_MASK \<noteq> 0 then Some (SYS_CALL_EVENT_UART1_MS, flags1)
            else if ucast v1 AND TIS_MASK \<noteq> 0 then Some (SYS_CALL_EVENT_UART1_TX, 0)
            else None)
         else if event = SYS_CALL_EVENT_UART2 then
           (if ucast v2 AND RIS_MASK \<noteq> 0 then Some (SYS_CALL_EVENT_UART2_RX, data2)
            else if ucast v2 AND TIS_MASK \<noteq> 0 then Some (SYS_CALL_EVENT_UART2_TX, 0)
            else None)
         else None)"

definition irq_expected :: "'a machine_scheme \<Rightarrow> bool" where
  "irq_expected s \<longleftrightarrow> irq_event s \<noteq> None"

subsection \<open>System calls keep the invariant\<close>

text \<open>A handler that returns, in a state that satisfies the invariant.\<close>

definition returns_inv :: "('r \<times> kernel_context_t) option \<Rightarrow> bool" where
  "returns_inv r \<longleftrightarrow> (\<exists>v s'. r = Some (v, s') \<and> kinv s')"

lemma returns_invI: "r = Some (v, s') \<Longrightarrow> krep s' L \<Longrightarrow> returns_inv r"
  by (auto simp: returns_inv_def intro: krep_kinv)

lemma create_inv: "running s L a \<Longrightarrow> returns_inv (kernel_create a priority code s)"
proof -
  assume run: "running s L a"
  consider (bad) "sint priority < 0 \<or> 63 < sint priority"
    | (full) "0 \<le> sint priority" "sint priority \<le> 63" "64 \<le> unat (next_free_td s)"
    | (ok) "0 \<le> sint priority" "sint priority \<le> 63" "unat (next_free_td s) < 64"
    by linarith
  then show ?thesis
  proof cases
    case bad
    show ?thesis by (rule returns_invI [OF kernel_create_errors(1) [OF bad] runningD(1) [OF run]])
  next
    case full
    show ?thesis by (rule returns_invI [OF kernel_create_errors(2) [OF full] runningD(1) [OF run]])
  next
    case ok
    show ?thesis by (rule kernel_create_running [OF run ok(1,2) refl ok(3)]) (rule returns_invI)
  qed
qed

lemma send_inv:
  assumes run: "running s L a" and tgt: "target_ok s tid" and len: "unat len < 2 ^ 31"
  shows "returns_inv (kernel_send a tid msg len rep rlen s)"
proof (cases "td_tid (tds s ! unat tid) = tid")
  case False
  from tgt have "unat tid < 64" by (simp add: target_ok_def)
  then show ?thesis by (rule kernel_send_bad_tid [OF run _ False]) (rule returns_invI)
next
  case True
  with tgt have t: "unat tid < 64" "unat tid < unat (next_free_td s)"
    by (auto simp: target_ok_def known_tid_def)
  show ?thesis
  proof (cases "td_state (tds s ! unat tid) = SEND_BLOCKED")
    case blocked: True
    obtain m where m: "memcpy (mem s) (mp_msg (td_message_params (tds s ! unat tid))) msg len = Some m"
      using memcpy_total [OF len] by blast
    show ?thesis
    proof (cases "mp_msg_len (td_message_params (tds s ! unat tid)) = len")
      case same: True
      show ?thesis
        by (rule kernel_send_delivered [OF run t(2) refl blocked same m]) (rule returns_invI)
    next
      case False
      show ?thesis
        by (rule kernel_send_size_mismatch [OF run t(1) True blocked False]) (rule returns_invI)
    qed
  next
    case False
    show ?thesis by (rule kernel_send_queued [OF run t(2) refl False]) (rule returns_invI)
  qed
qed

lemma receive_inv:
  assumes run: "running s L a" and len: "unat len < 2 ^ 31"
  shows "returns_inv (kernel_receive a tid msg len s)"
proof (cases "L (SendQ a)")
  case Nil
  show ?thesis by (rule returns_invI [OF kernel_receive_blocks [OF run Nil]])
next
  case (Cons t ts)
  obtain m where m: "memcpy (mem s) msg (mp_msg (td_message_params (tds s ! t))) len = Some m"
    using memcpy_total [OF len] by blast
  show ?thesis
  proof (cases "mp_msg_len (td_message_params (tds s ! t)) = len")
    case True
    show ?thesis by (rule kernel_receive_delivered [OF run Cons True m]) (rule returns_invI)
  next
    case False
    show ?thesis by (rule kernel_receive_size_mismatch [OF run Cons False]) (rule returns_invI)
  qed
qed

lemma reply_inv:
  assumes run: "running s L a" and ok: "reply_ok s tid len"
  shows "returns_inv (kernel_reply a tid rep len s)"
proof (cases "td_tid (tds s ! unat tid) = tid")
  case False
  from ok have "unat tid < 64" by (simp add: reply_ok_def target_ok_def)
  then show ?thesis by (rule kernel_reply_bad_tid [OF run _ False]) (rule returns_invI)
next
  case True
  with ok have t: "unat tid < 64" "unat tid < unat (next_free_td s)"
    by (auto simp: reply_ok_def target_ok_def known_tid_def)
  obtain m where m: "memcpy (mem s) (mp_rep (td_message_params (tds s ! unat tid))) rep len = Some m"
    using memcpy_total [of len] ok unfolding reply_ok_def by blast
  show ?thesis
  proof (cases "mp_rep_len (td_message_params (tds s ! unat tid)) = len")
    case same: True
    with ok True have "td_state (tds s ! unat tid) = REPLY_BLOCKED" by (simp add: reply_ok_def)
    then show ?thesis
      by (rule kernel_reply_delivered [OF run t(2) refl _ same m]) (rule returns_invI)
  next
    case False
    show ?thesis by (rule kernel_reply_size_mismatch [OF run t(1) True False]) (rule returns_invI)
  qed
qed

lemma await_inv: "running s L a \<Longrightarrow> returns_inv (kernel_await_event a event s)"
proof (cases "unat event < 16")
  case True
  assume run: "running s L a"
  show ?thesis by (rule kernel_await_event_running [OF run True]) (rule returns_invI)
next
  case False
  assume run: "running s L a"
  from False have "16 \<le> unat event" by simp
  then show ?thesis by (rule kernel_await_event_bad [OF run]) (rule returns_invI)
qed

lemma mytid_inv: "running s L a \<Longrightarrow> returns_inv (kernel_mytid a s)"
  by (erule kernel_mytid_running) (rule returns_invI)

lemma parenttid_inv: "running s L a \<Longrightarrow> returns_inv (kernel_parenttid a s)"
  by (erule kernel_parenttid_running) (rule returns_invI)

lemma exit_inv: "running s L a \<Longrightarrow> returns_inv (kernel_exit a s)"
  by (rule returns_invI [OF kernel_exit_running])

lemmas call_invs = create_inv send_inv receive_inv reply_inv await_inv mytid_inv parenttid_inv

subsection \<open>Panic\<close>

text \<open>
  \<open>kernel_panic\<close> prints the message and empties the scheduler's bit map, so that the main loop
  stops at its next iteration; nothing else changes.
\<close>

lemma panic_text_chars:
  "0 \<notin> set (cstr ''Panic: '')" "37 \<notin> set (cstr ''Panic: '')"
  "cstr (''Panic: %s'' @ [CHR 0x0A, CHR 0x0D]) = cstr ''Panic: '' @ 37 # 115 # [10, 13]"
  by (simp_all add: cstr_def of_char_def)

lemma kernel_panic_spec:
  assumes live: "uart_tx_live UART2_BASE (dev s)" and msg: "0 \<notin> set msg"
  obtains es where "kernel_panic a msg s = Some (s\<lparr>sch := (sch s)\<lparr>bitmap := 0\<rparr>, io := io s @ es\<rparr>)"
    and "writes es = map (\<lambda>c. (UART2_BASE + UART_DATA_OFFSET, ucast c)) (cstr ''Panic: '' @ msg @ [10, 13])"
proof -
  let ?s = "s\<lparr>sch := (sch s)\<lparr>bitmap := 0\<rparr>\<rparr>"
  have com: "uart_base COM2 = Some UART2_BASE" by (simp add: uart_base_def COM1_def COM2_def)
  obtain s1 where s1: "transmits UART2_BASE (cstr ''Panic: '') ?s s1"
    "bwformat COM2 (cstr ''Panic: '' @ 37 # 115 # [10, 13]) [VaStr msg] ?s =
     bwformat COM2 (37 # 115 # [10, 13]) [VaStr msg] s1"
    using bwformat_text [OF com, of ?s "cstr ''Panic: ''" "37 # 115 # [10, 13]" "[VaStr msg]"]
      live panic_text_chars by auto
  obtain s2 where s2: "transmits UART2_BASE msg s1 s2"
    "bwformat COM2 (37 # 115 # [10, 13]) [VaStr msg] s1 = bwformat COM2 [10, 13] [] s2"
    using bwformat_string [OF com, of s1 msg "[10, 13]" "[]"] live msg transmits_frame(2) [OF s1(1)]
    by auto
  obtain s3 where s3: "transmits UART2_BASE [10, 13] s2 s3"
    "bwformat COM2 ([10, 13] @ []) [] s2 = bwformat COM2 [] [] s3"
    using bwformat_text [OF com, of s2 "[10, 13]" "[]" "[]"] live
      transmits_frame(2) [OF s1(1)] transmits_frame(2) [OF s2(1)] by auto
  have "transmits UART2_BASE (cstr ''Panic: '' @ msg @ [10, 13]) ?s s3"
    using transmits_trans [OF s1(1) transmits_trans [OF s2(1) s3(1)]] .
  then obtain es where es: "s3 = ?s\<lparr>io := io ?s @ es\<rparr>"
    "writes es = map (\<lambda>c. (UART2_BASE + UART_DATA_OFFSET, ucast c)) (cstr ''Panic: '' @ msg @ [10, 13])"
    unfolding transmits_def by blast
  have "kernel_panic a msg s = Some s3"
    using s1(2) s2(2) s3(2) unfolding kernel_panic_def bwprintf_def panic_text_chars(3) Let_def
    by simp
  with es show ?thesis by (intro that [of es]) simp_all
qed

lemma read_cstring_nonzero: "read_cstring m a = Some cs \<Longrightarrow> 0 \<notin> set cs"
proof (induction cs arbitrary: a)
  case (Cons c cs)
  from Cons.prems have "m a \<noteq> 0" "c = m a" "read_cstring m (a + 1) = Some cs"
    by (subst (asm) read_cstring.simps; auto split: if_splits Option.bind_splits)+
  with Cons.IH show ?case by auto
qed simp

subsection \<open>The dispatcher\<close>

text \<open>
  The states between two iterations of the main loop: the invariant holds, or a panic has
  emptied the scheduler and the loop is about to end.
\<close>

definition kernel_safe :: "kernel_context_t \<Rightarrow> bool" where
  "kernel_safe s \<longleftrightarrow> kinv s \<or> scheduler_empty s"

definition returns_safe :: "(bool \<times> kernel_context_t) option \<Rightarrow> bool" where
  "returns_safe r \<longleftrightarrow> (\<exists>stop s'. r = Some (stop, s') \<and> kernel_safe s')"

lemma kinv_length: "kinv s \<Longrightarrow> length (tds s) = 64"
  by (auto simp: kinv_def krep_lengths)

lemma kinv_mem [simp]: "kinv (s\<lparr>mem := m\<rparr>) = kinv s"
proof -
  have "members (s\<lparr>mem := m\<rparr>) = members s"
    by (intro ext) (simp add: members_def kqueue_cong [of "s\<lparr>mem := m\<rparr>" s])
  then show ?thesis by (simp add: kinv_def)
qed

lemma finish_safe:
  assumes "returns_inv r" "a < 64"
  shows "returns_safe (r \<bind> (\<lambda>(ret, ctx). do {
     ctx \<leftarrow> task_descriptor_set_return_value a ret ctx; Some (False, ctx) }))"
proof -
  from assms(1) obtain v s' where "r = Some (v, s')" "kinv s'" by (auto simp: returns_inv_def)
  with kinv_length [of s'] assms(2) show ?thesis by (auto simp: returns_safe_def kernel_safe_def)
qed

lemma panic_safe:
  assumes "uart_tx_live UART2_BASE (dev s)" "0 \<notin> set msg" "a < length (tds s)"
  shows "returns_safe (do { ctx \<leftarrow> kernel_panic a msg s;
     ctx \<leftarrow> task_descriptor_set_return_value a ret ctx; Some (False, ctx) })"
  by (rule kernel_panic_spec [OF assms(1,2), of a])
    (use assms(3) in \<open>auto simp: returns_safe_def kernel_safe_def scheduler_empty_def\<close>)

lemma unknown_swi_text: "0 \<notin> set (cstr ''kernel got unknown SWI sys code'')"
  by (simp add: cstr_def of_char_def)

lemma handle_swi_safe:
  assumes run: "running s L a" and live: "uart_tx_live UART2_BASE (dev s)" and ok: "request_ok a req s"
  shows "returns_safe (handle_swi a req s)"
proof -
  note r = runningD [OF run]
  note fin = finish_safe [OF _ r(5), simplified split_def]
  note ok' = ok [unfolded request_ok_def Let_def]
  show ?thesis
  proof (cases "sys_code req")
    case None
    then show ?thesis
      using panic_safe [OF live unknown_swi_text r(4)] r(4) by (simp add: handle_swi_def Let_def)
  next
    case (Some c)
    show ?thesis
    proof (cases c)
      case SYS_CODE_EXIT
      with Some exit_inv [OF run] r(4) show ?thesis
        by (auto simp: handle_swi_def returns_inv_def returns_safe_def kernel_safe_def)
    next
      case SYS_CODE_PASS
      obtain s' where "kernel_pass a s = Some s'" "krep s' (enqueue_ready s [a] L)"
        by (rule kernel_pass_running [OF run])
      with Some SYS_CODE_PASS r(4,5) krep_lengths(1) [of s'] show ?thesis
        by (auto simp: handle_swi_def returns_safe_def kernel_safe_def intro: krep_kinv)
    next
      case SYS_CODE_CREATE
      with Some fin [OF create_inv [OF run]] r(4) show ?thesis by (simp add: handle_swi_def split_def Let_def)
    next
      case SYS_CODE_MYTID
      with Some fin [OF mytid_inv [OF run]] r(4) show ?thesis by (simp add: handle_swi_def split_def Let_def)
    next
      case SYS_CODE_PARENTTID
      with Some fin [OF parenttid_inv [OF run]] r(4) show ?thesis by (simp add: handle_swi_def split_def Let_def)
    next
      case SYS_CODE_SEND
      with Some ok' fin [OF send_inv [OF run]] r(4) show ?thesis by (simp add: handle_swi_def split_def Let_def)
    next
      case SYS_CODE_RECEIVE
      with Some ok' fin [OF receive_inv [OF run]] r(4) show ?thesis by (simp add: handle_swi_def split_def Let_def)
    next
      case SYS_CODE_REPLY
      with Some ok' fin [OF reply_inv [OF run]] r(4) show ?thesis by (simp add: handle_swi_def split_def Let_def)
    next
      case SYS_CODE_AWAITEVENT
      with Some fin [OF await_inv [OF run]] r(4) show ?thesis by (simp add: handle_swi_def split_def Let_def)
    next
      case SYS_CODE_PANIC
      with Some ok' obtain msg where "read_cstring (mem s) (load32 (mem s) (td_sp (tds s ! a))) = Some msg"
        by auto
      with Some SYS_CODE_PANIC panic_safe [OF live read_cstring_nonzero r(4)] r(4) show ?thesis
        by (simp add: handle_swi_def)
    next
      case SYS_CODE_QUIT
      with Some r(1,4) show ?thesis
        by (auto simp: handle_swi_def returns_safe_def kernel_safe_def intro: krep_kinv)
    qed
  qed
qed

subsection \<open>Interrupts\<close>

lemma handle_event_krep:
  assumes rep: "krep s L" and e: "unat event < 16"
  obtains s' where "event_handler_handle_event event ret s = Some (0, s')"
    and "krep s' (enqueue_ready s (L (AwaitQ (unat event))) (L(AwaitQ (unat event) := [])))"
    and "woken (L (AwaitQ (unat event))) s s'"
    and "mem s' = write_returns s (L (AwaitQ (unat event))) ret (mem s)"
  using wake_all_krep [OF rep refl e, of ret] e that
  by (auto simp: event_handler_handle_event_def EVENT_HANDLER_MAX_EVENTS_def)

lemma reg_rw_io:
  "reg_read r s = (dev s r (io s), s\<lparr>io := io s @ [RegRead r (dev s r (io s))]\<rparr>)"
  "reg_write r v s = s\<lparr>io := io s @ [RegWrite r v]\<rparr>"
  "reg_clear_bits r b s = s\<lparr>io := io s @ [RegRead r (dev s r (io s)), RegWrite r (dev s r (io s) AND NOT b)]\<rparr>"
  by (simp_all add: reg_read_def reg_write_def reg_clear_bits_def Let_def)

lemma enqueue_ready_append: "enqueue_ready s (ts @ us) L = enqueue_ready s us (enqueue_ready s ts L)"
  by (simp add: enqueue_ready_def)

lemma enqueue_ready_upd [simp]:
  "enqueue_ready (s\<lparr>io := l\<rparr>) = enqueue_ready s" "enqueue_ready (s\<lparr>mem := m\<rparr>) = enqueue_ready s"
  by (intro ext, simp add: enqueue_ready_def)+

lemma write_returns_io [simp]: "write_returns (s\<lparr>io := l\<rparr>) = write_returns s"
  by (intro ext) (simp add: write_returns_def)

lemma woken_io: "woken ts (s\<lparr>io := l\<rparr>) s' \<Longrightarrow> woken ts s (s'\<lparr>io := io s\<rparr>)"
  by (simp add: woken_def)

text \<open>Waking the tasks of an event and putting the interrupted task back behind them.\<close>

lemma wake_and_put:
  assumes run: "running s L a" and e: "unat event < 16"
  obtains s1 s2 where "event_handler_handle_event event ret (s\<lparr>io := l\<rparr>) = Some (0, s1)"
    and "scheduler_put a (s1\<lparr>io := l'\<rparr>) = Some (0, s2)"
    and "krep s2 (enqueue_ready s (L (AwaitQ (unat event)) @ [a]) (L(AwaitQ (unat event) := [])))"
    and "mem s2 = write_returns s (L (AwaitQ (unat event))) ret (mem s)" and "io s1 = l"
    and "woken (L (AwaitQ (unat event)) @ [a]) s (s2\<lparr>io := io s\<rparr>)"
proof -
  note r = runningD [OF run]
  let ?ts = "L (AwaitQ (unat event))"
  have "krep (s\<lparr>io := l\<rparr>) L" using r(1) by simp
  from handle_event_krep [OF this e] obtain s1
    where s1: "event_handler_handle_event event ret (s\<lparr>io := l\<rparr>) = Some (0, s1)"
      "krep s1 (enqueue_ready s ?ts (L(AwaitQ (unat event) := [])))"
      "woken ?ts (s\<lparr>io := l\<rparr>) s1" "mem s1 = write_returns s ?ts ret (mem s)"
    by auto
  have ats: "a \<notin> set ?ts" using r(3) by (simp add: floats_def)
  have "floats (L(AwaitQ (unat event) := [])) a" using r(3) by (auto simp: floats_def)
  then have fl: "floats (enqueue_ready s ?ts (L(AwaitQ (unat event) := []))) a"
    using ats by (rule floats_enqueue)
  have rep: "krep (s1\<lparr>io := l'\<rparr>) (enqueue_ready s ?ts (L(AwaitQ (unat event) := [])))" using s1(2) by simp
  obtain s2 where s2: "scheduler_put a (s1\<lparr>io := l'\<rparr>) = Some (0, s2)"
    "krep s2 (enqueue_ready (s1\<lparr>io := l'\<rparr>) [a] (enqueue_ready s ?ts (L(AwaitQ (unat event) := []))))"
    "made_ready a (s1\<lparr>io := l'\<rparr>) s2"
    by (rule put_krep [OF rep _ fl]) (use r(2) s1(3) in \<open>simp_all add: woken_def\<close>)
  note fr = made_ready_frame [OF s2(3)]
  have pr: "enqueue_ready (s1\<lparr>io := l'\<rparr>) [a] K = enqueue_ready s [a] K" for K
    using woken_priority [OF s1(3), of a] r(4) by (intro enqueue_ready_cong) simp
  have "woken (?ts @ [a]) s (s2\<lparr>io := io s\<rparr>)"
    using s1(3) fr r(4) unfolding woken_def
    by (auto intro!: nth_equalityI simp: nth_list_update_if)
  moreover have "krep s2 (enqueue_ready s (?ts @ [a]) (L(AwaitQ (unat event) := [])))"
    using s2(2) pr by (simp add: enqueue_ready_append)
  moreover have "io s1 = l" using s1(3) by (simp add: woken_def)
  ultimately show ?thesis using s1 s2(1) fr(2) by (intro that [of s1 s2]) simp_all
qed

lemma uart1_event_io:
  "intr AND RIS_MASK \<noteq> 0 \<or> intr AND MIS_MASK \<noteq> 0 \<or> intr AND TIS_MASK \<noteq> 0 \<Longrightarrow>
     \<exists>l. uart1_event a event intr (s\<lparr>io := h\<rparr>) = Some (
       (if intr AND RIS_MASK \<noteq> 0 then (SYS_CALL_EVENT_UART1_RX, dev s (UART1_BASE + UART_DATA_OFFSET) h AND DATA_MASK, s\<lparr>io := l\<rparr>)
        else if intr AND MIS_MASK \<noteq> 0 then (SYS_CALL_EVENT_UART1_MS, dev s (UART1_BASE + UART_FLAG_OFFSET) h, s\<lparr>io := l\<rparr>)
        else (SYS_CALL_EVENT_UART1_TX, 0, s\<lparr>io := l\<rparr>)))"
  by (cases "intr AND RIS_MASK = 0"; cases "intr AND MIS_MASK = 0"; cases "intr AND TIS_MASK = 0")
    (auto simp: uart1_event_def reg_rw_io)

lemma uart2_event_io:
  "intr AND RIS_MASK \<noteq> 0 \<or> intr AND TIS_MASK \<noteq> 0 \<Longrightarrow>
     \<exists>l. uart2_event a event intr (s\<lparr>io := h\<rparr>) = Some (
       (if intr AND RIS_MASK \<noteq> 0 then (SYS_CALL_EVENT_UART2_RX, dev s (UART2_BASE + UART_DATA_OFFSET) h AND DATA_MASK, s\<lparr>io := l\<rparr>)
        else (SYS_CALL_EVENT_UART2_TX, 0, s\<lparr>io := l\<rparr>)))"
  by (cases "intr AND RIS_MASK = 0"; cases "intr AND TIS_MASK = 0")
    (auto simp: uart2_event_def reg_rw_io)

lemma irq_event_bound: "irq_event s = Some (e, v) \<Longrightarrow> unat e < 16"
  by (auto simp: irq_event_def event_defs Let_def split: prod.splits if_splits)

lemma handle_irq_timer:
  assumes "dev s (VIC2_BASE + VIC_VEC_ADDR_OFFSET) (io s) = SYS_CALL_EVENT_TIMER"
  shows "\<exists>l l'. handle_irq a s = do {
     (_, s1) \<leftarrow> event_handler_handle_event SYS_CALL_EVENT_TIMER 0 (s\<lparr>io := l\<rparr>);
     (_, s2) \<leftarrow> scheduler_put a (s1\<lparr>io := io s1 @ l'\<rparr>); Some (False, s2) }"
  unfolding handle_irq_def
  by (intro exI [of _ "io s @ _"] exI [of _ "[RegWrite (TIMER3_BASE + CLR_OFFSET) 0,
        RegWrite (VIC2_BASE + VIC_VEC_ADDR_OFFSET) 0]"])
    (simp add: reg_rw_io assms split_def)

lemma handle_irq_uart:
  assumes "dev s (VIC2_BASE + VIC_VEC_ADDR_OFFSET) (io s) \<noteq> SYS_CALL_EVENT_TIMER"
    and "irq_event s = Some (e, v)"
  shows "\<exists>l. handle_irq a s = do {
     (_, s1) \<leftarrow> event_handler_handle_event e v (s\<lparr>io := l\<rparr>);
     (_, s2) \<leftarrow> scheduler_put a s1; Some (False, s2) }"
proof -
  let ?ev = "dev s (VIC2_BASE + VIC_VEC_ADDR_OFFSET) (io s)"
  let ?h1 = "io s @ [RegRead (VIC2_BASE + VIC_VEC_ADDR_OFFSET) ?ev]"
  let ?v1 = "dev s (UART1_BASE + UART_INTR_OFFSET) ?h1"
  let ?h2 = "?h1 @ [RegRead (UART1_BASE + UART_INTR_OFFSET) ?v1]"
  let ?v2 = "dev s (UART2_BASE + UART_INTR_OFFSET) ?h2"
  let ?h3 = "?h2 @ [RegRead (UART2_BASE + UART_INTR_OFFSET) ?v2]"
  have "\<exists>l. (if ?ev = SYS_CALL_EVENT_UART1 then uart1_event a ?ev (ucast ?v1) (s\<lparr>io := ?h3\<rparr>)
      else uart2_event a ?ev (ucast ?v2) (s\<lparr>io := ?h3\<rparr>)) = Some (e, v, s\<lparr>io := l\<rparr>)"
    and uart: "?ev = SYS_CALL_EVENT_UART1 \<or> ?ev = SYS_CALL_EVENT_UART2"
    using assms uart1_event_io [of "ucast ?v1" a ?ev ?h3 s] uart2_event_io [of "ucast ?v2" a ?ev ?h3 s]
    by (auto simp: irq_event_def reg_rw_io Let_def split: if_splits)
  then obtain l where l: "(if ?ev = SYS_CALL_EVENT_UART1 then uart1_event a ?ev (ucast ?v1) (s\<lparr>io := ?h3\<rparr>)
      else uart2_event a ?ev (ucast ?v2) (s\<lparr>io := ?h3\<rparr>)) = Some (e, v, s\<lparr>io := l\<rparr>)"
    by blast
  from l assms(1) uart show ?thesis
    unfolding handle_irq_def
    by (intro exI [of _ "l @ [RegWrite (VIC2_BASE + VIC_VEC_ADDR_OFFSET) 0]"])
      (auto simp: reg_rw_io split_def Let_def event_defs)
qed

lemma handle_irq_spec:
  assumes run: "running s L a" and ev: "irq_event s = Some (e, v)"
  obtains s' where "handle_irq a s = Some (False, s')"
    and "krep s' (enqueue_ready s (L (AwaitQ (unat e)) @ [a]) (L(AwaitQ (unat e) := [])))"
    and "mem s' = write_returns s (L (AwaitQ (unat e))) v (mem s)"
    and "woken (L (AwaitQ (unat e)) @ [a]) s (s'\<lparr>io := io s\<rparr>)"
proof (cases "dev s (VIC2_BASE + VIC_VEC_ADDR_OFFSET) (io s) = SYS_CALL_EVENT_TIMER")
  case True
  with ev have ev': "e = SYS_CALL_EVENT_TIMER" "v = 0"
    by (auto simp: irq_event_def reg_rw_io Let_def)
  obtain l l' where eq: "handle_irq a s = do {
     (_, s1) \<leftarrow> event_handler_handle_event SYS_CALL_EVENT_TIMER 0 (s\<lparr>io := l\<rparr>);
     (_, s2) \<leftarrow> scheduler_put a (s1\<lparr>io := io s1 @ l'\<rparr>); Some (False, s2) }"
    using handle_irq_timer [OF True] by blast
  show ?thesis
    by (rule wake_and_put [OF run irq_event_bound [OF ev], of v l "l @ l'"])
      (rule that, simp_all add: eq ev')
next
  case False
  obtain l where eq: "handle_irq a s = do {
     (_, s1) \<leftarrow> event_handler_handle_event e v (s\<lparr>io := l\<rparr>);
     (_, s2) \<leftarrow> scheduler_put a s1; Some (False, s2) }"
    using handle_irq_uart [OF False ev] by blast
  show ?thesis
    by (rule wake_and_put [OF run irq_event_bound [OF ev], of v l l])
      (rule that, auto simp: eq)
qed

lemma handle_safe:
  assumes "running s L a" "uart_tx_live UART2_BASE (dev s)"
    and "if load32 (mem s) (irq_stack_start s) = 0 then request_ok a req s else irq_expected s"
  shows "returns_safe (handle a req s)"
proof (cases "load32 (mem s) (irq_stack_start s) = 0")
  case True
  with assms handle_swi_safe show ?thesis by (simp add: handle_def)
next
  case False
  with assms(3) obtain e v where "irq_event s = Some (e, v)" by (auto simp: irq_expected_def)
  from handle_irq_spec [OF assms(1) this] obtain s' where
    "handle_irq a s = Some (False, s')" "kinv s'"
    by (metis krep_kinv)
  with False show ?thesis by (auto simp: handle_def returns_safe_def kernel_safe_def)
qed

subsection \<open>Start-up\<close>

lemma scheduler_init_eq:
  "length (priority_qs (sch s)) = 64 \<Longrightarrow>
     scheduler_init s = s\<lparr>sch := \<lparr>bitmap = 0, priority_qs = replicate 64 queue_init\<rparr>\<rparr>"
  by (simp add: scheduler_init_def SCHEDULER_PRIORITY_COUNT_def fold_fill)

lemma event_handler_init_eq:
  "length (await_qs s) = 16 \<Longrightarrow> event_handler_init s = s\<lparr>await_qs := replicate 16 queue_init\<rparr>"
  by (simp add: event_handler_init_def EVENT_HANDLER_MAX_EVENTS_def fold_fill)

lemma scheduler_put_context:
  "scheduler_put t (s\<lparr>await_qs := q, next_free_td := n, last_idle_time := c\<rparr>) =
     map_option (\<lambda>(e, s'). (e, s'\<lparr>await_qs := q, next_free_td := n, last_idle_time := c\<rparr>)) (scheduler_put t s)"
  by (auto simp: scheduler_put_def td_get_def td_update_def Let_def split: Option.bind_splits)

text \<open>A context with initialised descriptors for the first two tasks and no task in any queue.\<close>

lemma krep_empty:
  assumes "length (tds s) = 64" "priority_qs (sch s) = replicate 64 queue_init" "bitmap (sch s) = 0"
    "await_qs s = replicate 16 queue_init" "unat (next_free_td s) \<le> 64"
    "\<forall>t<unat (next_free_td s). td_ok s t \<and> td_send_q (tds s ! t) = queue_init"
  shows "krep s (\<lambda>_. [])"
proof -
  have "kqueue s i = queue_init" for i using assms by (cases i) auto
  then show ?thesis
    using assms by (simp add: krep_def kshape_def one_queue_def)
qed

definition boot_shape :: "kernel_context_t \<Rightarrow> bool" where
  "boot_shape s \<longleftrightarrow> length (tds s) = 64 \<and> length (priority_qs (sch s)) = 64 \<and> length (await_qs s) = 16"

text \<open>The two task descriptors that \<open>init_tasks\<close> prepares.\<close>

definition boot_tds :: "code_labels \<Rightarrow> task_descriptor_t list \<Rightarrow> task_descriptor_t list" where
  "boot_tds labels ts = ts[0 := fresh_td 0 1 None (user_main_addr labels) (td_message_params (ts ! 0)),
     1 := fresh_td 1 28 (Some 0) (idle_main_addr labels) (td_message_params (ts ! 1))]"

text \<open>The words that initialising the two descriptors writes on the tasks' stacks.\<close>

definition boot_stack :: "u32 \<Rightarrow> (u32 \<Rightarrow> u8) \<Rightarrow> (u32 \<Rightarrow> u8)" where
  "boot_stack t m = store32 (store32 m (MEM_TASK_STACK_START t - 56) 0)
     (MEM_TASK_STACK_START t - 4) (MEM_TASK_STACK_START t)"

lemma IDLE_tid [simp]: "unat IDLE_TASK_TID = 1"
  by (simp add: IDLE_TASK_TID_def)

lemma init_tasks_spec:
  assumes "boot_shape s"
  obtains s' where "init_tasks labels s = Some s'"
    and "krep s' ((\<lambda>_. [])(ReadyQ 1 := [0], ReadyQ 28 := [1]))" and "unat (next_free_td s') = 2"
    and "tds s' = boot_tds labels (tds s)" and "dev s' = dev s" and "io s' = io s"
    and "irq_stack_start s' = irq_stack_start s" and "last_idle_time s' = 0"
    and "mem s' = boot_stack 1 (boot_stack 0 (mem s))"
proof -
  have len: "length (tds s) = 64" "length (priority_qs (sch s)) = 64" "length (await_qs s) = 16"
    using assms by (simp_all add: boot_shape_def)
  define m where "m = boot_stack 1 (boot_stack 0 (mem s))"
  have init: "do {
      ctx \<leftarrow> task_descriptor_init 0 0 1 None (user_main_addr labels) s;
      task_descriptor_init (unat IDLE_TASK_TID) IDLE_TASK_TID 28 (Some 0) (idle_main_addr labels) ctx } =
    Some (s\<lparr>mem := m, nodes := init_nodes 1 (init_nodes 0 (nodes s)), tds := boot_tds labels (tds s)\<rparr>)"
    using len by (simp add: task_descriptor_init_eq boot_tds_def IDLE_TASK_TID_def m_def boot_stack_def)
  let ?b = "s\<lparr>mem := m, nodes := init_nodes 1 (init_nodes 0 (nodes s)), tds := boot_tds labels (tds s),
     sch := \<lparr>bitmap = 0, priority_qs = replicate 64 queue_init\<rparr>\<rparr>"
  let ?s = "?b\<lparr>await_qs := replicate 16 queue_init, next_free_td := 2, last_idle_time := 0\<rparr>"
  have "td_ok ?s t \<and> td_send_q (tds ?s ! t) = queue_init" if "t < 2" for t
  proof -
    from that consider "t = 0" | "t = 1" by linarith
    then show ?thesis
      using len by cases (auto simp: td_ok_def boot_tds_def fresh_td_def init_nodes_data init_nodes_other)
  qed
  then have rep: "krep ?s (\<lambda>_. [])"
    using len by (intro krep_empty) (simp_all add: boot_tds_def)
  have "unat (next_free_td ?s) = 2" by simp
  then have nf: "0 < unat (next_free_td ?s)" by linarith
  obtain s1 where s1: "scheduler_put 0 ?s = Some (0, s1)" "krep s1 (enqueue_ready ?s [0] (\<lambda>_. []))"
    "made_ready 0 ?s s1"
    by (rule put_krep [OF rep nf]) (simp_all add: floats_def)
  note fr1 = made_ready_frame [OF s1(3)]
  have fl: "floats (enqueue_ready ?s [0] (\<lambda>_. [])) 1" by (rule floats_enqueue) (simp_all add: floats_def)
  obtain s2 where s2: "scheduler_put 1 s1 = Some (0, s2)"
    "krep s2 (enqueue_ready s1 [1] (enqueue_ready ?s [0] (\<lambda>_. [])))" "made_ready 1 s1 s2"
    by (rule put_krep [OF s1(2) _ fl]) (simp_all add: fr1(7))
  note fr2 = made_ready_frame [OF s2(3)]
  from s1(1) obtain r1 where r1: "scheduler_put 0 ?b = Some (0, r1)"
    "s1 = r1\<lparr>await_qs := replicate 16 queue_init, next_free_td := 2, last_idle_time := 0\<rparr>"
    unfolding scheduler_put_context by auto
  from s2(1) obtain r2 where r2: "scheduler_put 1 r1 = Some (0, r2)"
    "s2 = r2\<lparr>await_qs := replicate 16 queue_init, next_free_td := 2, last_idle_time := 0\<rparr>"
    unfolding r1(2) scheduler_put_context by auto
  have await: "length (await_qs r2) = 16"
    using r1(1) r2(1) len
    by (auto simp: scheduler_put_def td_get_def td_update_def Let_def split: Option.bind_splits if_splits)
  have "init_tasks labels s = Some s2"
    using init r1(1) r2 len
    by (auto simp: init_tasks_def scheduler_init_eq event_handler_init_eq [OF await] Option.bind_eq_Some_conv
        split: Option.bind_splits)
  moreover have tds2: "tds s2 = boot_tds labels (tds s)"
    using fr1(1) fr2(1) len by (simp add: boot_tds_def fresh_td_def list_update_swap)
  moreover have "enqueue_ready s1 [1] (enqueue_ready ?s [0] (\<lambda>_. [])) =
      (\<lambda>_. [])(ReadyQ 1 := [0], ReadyQ 28 := [1])"
    using fr1(1) len by (simp add: enqueue_ready_def boot_tds_def fresh_td_def)
  ultimately show ?thesis using s2(2) fr1 fr2 by (intro that [of s2]) (simp_all add: m_def)
qed

lemma reg_set_bits_io: "\<exists>es. reg_set_bits r b s = s\<lparr>io := io s @ es\<rparr>"
  by (auto simp: reg_set_bits_def reg_rw_io Let_def)

lemma init_devices_io: "\<exists>es. init_devices s = s\<lparr>io := io s @ es\<rparr>"
  by (auto simp: init_devices_def reg_rw_io Let_def)

lemma enable_vectored_io: "\<exists>es. enable_vectored_interrupt vic e src p s = s\<lparr>io := io s @ es\<rparr>"
proof -
  let ?s = "reg_write (VIC2_BASE + VIC_VEC_CTRL_N_OFFSET (ucast p)) (src OR VIC_VEC_CTRL_EN_MASK)
      (reg_write (VIC2_BASE + VIC_VEC_ADDR_N_OFFSET (ucast p)) e s)"
  obtain es where "reg_set_bits (VIC2_BASE + VIC_INT_EN_OFFSET) (push_bit (unat src) 1) ?s = ?s\<lparr>io := io ?s @ es\<rparr>"
    using reg_set_bits_io by blast
  then show ?thesis by (auto simp: enable_vectored_interrupt_def Let_def reg_rw_io)
qed

lemma setup_vectored_io: "\<exists>es. setup_vectored_interrupts s = s\<lparr>io := io s @ es\<rparr>"
proof -
  let ?s1 = "enable_vectored_interrupt VIC2_BASE SYS_CALL_EVENT_TIMER VIC2_TIMER3_INT 0 s"
  let ?s2 = "enable_vectored_interrupt VIC2_BASE SYS_CALL_EVENT_UART1 VIC2_UART1_INT 1 ?s1"
  obtain e1 where 1: "?s1 = s\<lparr>io := io s @ e1\<rparr>" using enable_vectored_io by blast
  obtain e2 where 2: "?s2 = ?s1\<lparr>io := io ?s1 @ e2\<rparr>" using enable_vectored_io by blast
  obtain e3 where "setup_vectored_interrupts s = ?s2\<lparr>io := io ?s2 @ e3\<rparr>"
    using enable_vectored_io unfolding setup_vectored_interrupts_def Let_def by blast
  with 1 2 show ?thesis by auto
qed

text \<open>
  After \<^verbatim>\<open>init\<close> the user task and the idle task are ready, at their priorities, and nothing
  else is in any queue.
\<close>

lemma init_spec:
  assumes "boot_shape s"
  obtains s' where "init labels s = Some s'"
    and "krep s' ((\<lambda>_. [])(ReadyQ 1 := [0], ReadyQ 28 := [1]))" and "unat (next_free_td s') = 2"
    and "tds s' = boot_tds labels (tds s)" and "dev s' = dev s" and "last_idle_time s' = 0"
    and "mem s' idle_exit_addr = 0" and "load32 (mem s') non_idle_time_addr = 0"
    and "mem s' = store32 ((boot_stack 1 (boot_stack 0 (mem (init_vectors labels (init_devices s)))))
           (idle_exit_addr := 0)) non_idle_time_addr 0" and "irq_stack_start s' = irq_stack_start s"
proof -
  let ?v = "init_vectors labels (init_devices s)"
  obtain es where "init_devices s = s\<lparr>io := io s @ es\<rparr>" using init_devices_io by blast
  then obtain m where v: "?v = s\<lparr>io := io s @ es, mem := m\<rparr>" by (simp add: init_vectors_def Let_def)
  with assms have "boot_shape ?v" by (simp add: boot_shape_def)
  from init_tasks_spec [OF this, of labels] obtain s1 where s1: "init_tasks labels ?v = Some s1"
    "krep s1 ((\<lambda>_. [])(ReadyQ 1 := [0], ReadyQ 28 := [1]))" "unat (next_free_td s1) = 2"
    "tds s1 = boot_tds labels (tds s)" "dev s1 = dev s" "last_idle_time s1 = 0"
    "mem s1 = boot_stack 1 (boot_stack 0 (mem ?v))" "irq_stack_start s1 = irq_stack_start s"
    using v by auto
  let ?m = "store32 ((mem s1)(idle_exit_addr := 0)) non_idle_time_addr 0"
  obtain es' where es': "setup_vectored_interrupts (s1\<lparr>mem := ?m\<rparr>) = s1\<lparr>mem := ?m, io := io s1 @ es'\<rparr>"
    using setup_vectored_io [of "s1\<lparr>mem := ?m\<rparr>"] by auto
  then have "init labels s = Some (s1\<lparr>mem := ?m, io := io s1 @ es'\<rparr>)"
    using s1(1) by (simp add: init_def Let_def)
  moreover have "?m idle_exit_addr = 0"
    by (subst store32_other) (simp_all add: idle_exit_addr_def non_idle_time_addr_def)
  ultimately show ?thesis
    using s1 by (intro that [of "s1\<lparr>mem := ?m, io := io s1 @ es'\<rparr>"]) simp_all
qed

subsection \<open>The main loop\<close>

text \<open>
  What a task does between two kernel entries, as far as the kernel's data is concerned: it changes
  memory and touches devices, and on the next entry its stack pointer, return address and saved status
  are stored in its descriptor. The kernel's own data is not protected by the hardware; that a task
  leaves it alone is an assumption.
\<close>

definition task_runs :: "nat \<Rightarrow> kernel_context_t \<Rightarrow> kernel_context_t \<Rightarrow> bool" where
  "task_runs a s s' \<longleftrightarrow> (\<exists>m l sp lr psr. s' = s\<lparr>mem := m, io := io s @ l,
     tds := (tds s)[a := (tds s ! a)\<lparr>td_sp := sp, td_svc_lr := lr, td_spsr := psr\<rparr>]\<rparr>)"

definition main_enter :: "nat \<Rightarrow> kernel_context_t \<Rightarrow> kernel_context_t" where
  "main_enter a s = (if td_tid (tds s ! a) = IDLE_TASK_TID then end_idle_task s else s)"

definition served :: "nat \<Rightarrow> u32 \<Rightarrow> kernel_context_t \<Rightarrow> bool" where
  "served a req s \<longleftrightarrow> uart_tx_live UART2_BASE (dev s) \<and>
     (if load32 (mem s) (irq_stack_start s) = 0 then request_ok a req s else irq_expected s)"

inductive kernel_step :: "kernel_context_t \<Rightarrow> kernel_context_t \<Rightarrow> bool" where
  "main_schedule s = Some (Some a, s1) \<Longrightarrow> task_runs a s1 s2 \<Longrightarrow> served a req (main_enter a s2) \<Longrightarrow>
     main_handle a req s2 = Some (False, s') \<Longrightarrow> kernel_step s s'"

inductive_cases kernel_stepE: "kernel_step s s'"

definition kernel_start :: "kernel_context_t \<Rightarrow> bool" where
  "kernel_start s \<longleftrightarrow> (\<exists>labels s0. boot_shape s0 \<and> init labels s0 = Some s)"

lemma clock_eq: "\<exists>t es. clock s = (t, s\<lparr>io := io s @ es\<rparr>)"
  by (auto simp: clock_def reg_rw_io Let_def)

lemma update_idle_frame: "\<exists>m es. update_idle_task s = s\<lparr>io := io s @ es, mem := m\<rparr>"
proof -
  let ?s = "s\<lparr>mem := (mem s)(idle_exit_addr := of_bool (event_handler_empty s))\<rparr>"
  obtain t es where "clock ?s = (t, ?s\<lparr>io := io ?s @ es\<rparr>)" using clock_eq by blast
  then show ?thesis by (auto simp: update_idle_task_def Let_def)
qed

lemma end_idle_frame: "\<exists>c es. end_idle_task s = s\<lparr>io := io s @ es, last_idle_time := c\<rparr>"
proof -
  obtain t es where "clock s = (t, s\<lparr>io := io s @ es\<rparr>)" using clock_eq by blast
  then show ?thesis by (auto simp: end_idle_task_def)
qed

lemma running_cong:
  assumes "tds s' = tds s" "nodes s' = nodes s" "sch s' = sch s" "await_qs s' = await_qs s"
    "next_free_td s' = next_free_td s"
  shows "running s' L a = running s L a"
  using krep_cong [OF assms] assms by (simp add: running_def)

lemma running_enter: "running s L a \<Longrightarrow> running (main_enter a s) L a"
  using end_idle_frame [of s] running_cong [of "end_idle_task s" s L a] by (auto simp: main_enter_def)

lemma running_task_runs:
  assumes run: "running s L a" and "task_runs a s s'"
  shows "running s' L a"
proof -
  note r = runningD [OF run]
  from assms(2) obtain m l sp lr psr where s': "s' = s\<lparr>mem := m, io := io s @ l,
      tds := (tds s)[a := (tds s ! a)\<lparr>td_sp := sp, td_svc_lr := lr, td_spsr := psr\<rparr>]\<rparr>"
    unfolding task_runs_def by blast
  let ?u = "s\<lparr>tds := (tds s)[a := (tds s ! a)\<lparr>td_sp := sp, td_svc_lr := lr, td_spsr := psr\<rparr>]\<rparr>"
  have "krep ?u L" using r by (intro krep_td_update) (auto simp: same_identity_def)
  with r have "running ?u L a" by (simp add: running_def)
  moreover have "running s' L a = running ?u L a" using s' by (intro running_cong) simp_all
  ultimately show ?thesis by simp
qed

lemma main_schedule_empty: "scheduler_empty s \<Longrightarrow> main_schedule s = Some (None, s)"
  by (simp add: main_schedule_def scheduler_get_empty)

lemma main_schedule_running:
  assumes rep: "krep s L" and p: "next_ready L = Some p"
  obtains s' where "main_schedule s = Some (Some (hd (L (ReadyQ p))), s')"
    and "running s' (L(ReadyQ p := tl (L (ReadyQ p)))) (hd (L (ReadyQ p)))" and "tds s' = tds s"
proof -
  from p have p': "L (ReadyQ p) = hd (L (ReadyQ p)) # tl (L (ReadyQ p))" "\<And>r. r < p \<Longrightarrow> L (ReadyQ r) = []"
    by (auto simp: next_ready_Some)
  let ?t = "hd (L (ReadyQ p))" and ?L = "L(ReadyQ p := tl (L (ReadyQ p)))"
  have mem: "?t \<in> set (L (ReadyQ p))" using p' by (metis list.set_intros(1))
  obtain s1 where s1: "scheduler_get s = Some (Some ?t, s1)" "krep s1 ?L" "floats ?L ?t"
    and eq: "s1 = s\<lparr>nodes := nodes s1, sch := sch s1\<rparr>"
    by (rule scheduler_get_krep [OF rep p'(2,1)])
  have fr: "tds s1 = tds s" "next_free_td s1 = next_free_td s"
    using eq [THEN arg_cong, of tds] eq [THEN arg_cong, of next_free_td] by simp_all
  have run: "running s1 ?L ?t"
    using s1 fr krep_bound [OF rep mem] krep_belongs [OF rep mem] by (simp add: running_def)
  obtain m es where upd: "update_idle_task s1 = s1\<lparr>io := io s1 @ es, mem := m\<rparr>"
    using update_idle_frame by blast
  let ?s' = "if td_tid (tds s1 ! ?t) = IDLE_TASK_TID then update_idle_task s1 else s1"
  have "main_schedule s = Some (Some ?t, ?s')"
    using s1(1) runningD(4) [OF run] by (simp add: main_schedule_def)
  moreover have "running ?s' ?L ?t" "tds ?s' = tds s"
    using run upd fr running_cong [of "update_idle_task s1" s1] by simp_all
  ultimately show ?thesis by (rule that)
qed

lemma main_schedule_cases:
  assumes "kernel_safe s"
  obtains "main_schedule s = Some (None, s)"
  | a s' L where "main_schedule s = Some (Some a, s')" "running s' L a"
proof (cases "scheduler_empty s")
  case True
  with that(1) show ?thesis by (simp add: main_schedule_empty)
next
  case False
  with assms have rep: "krep s (members s)" by (simp add: kernel_safe_def kinv_def)
  with False have "next_ready (members s) \<noteq> None"
    by (simp add: next_ready_None scheduler_empty_krep)
  then obtain p where p: "next_ready (members s) = Some p" by blast
  show ?thesis by (rule main_schedule_running [OF rep p]) (rule that(2))
qed

lemma main_handle_safe:
  assumes run: "running s L a" and served: "served a req (main_enter a s)"
  shows "returns_safe (main_handle a req s)"
  using handle_safe [OF running_enter [OF run]] served runningD(4) [OF run]
  by (simp add: main_handle_def main_enter_def served_def)

lemma kernel_step_safe:
  assumes "kernel_safe s" "kernel_step s s'"
  shows "kernel_safe s'"
proof -
  from assms(2) obtain a s1 s2 req where sched: "main_schedule s = Some (Some a, s1)"
    and runs: "task_runs a s1 s2" and served: "served a req (main_enter a s2)"
    and handle: "main_handle a req s2 = Some (False, s')"
    by (rule kernel_stepE)
  obtain L where "running s1 L a"
    using assms(1) sched by (elim main_schedule_cases) auto
  from main_handle_safe [OF running_task_runs [OF this runs] served] handle
  show ?thesis by (simp add: returns_safe_def)
qed

lemma kernel_start_safe: "kernel_start s \<Longrightarrow> kernel_safe s"
proof -
  assume "kernel_start s"
  then obtain labels s0 where "boot_shape s0" "init labels s0 = Some s" by (auto simp: kernel_start_def)
  then show ?thesis by (auto simp: kernel_safe_def intro: krep_kinv elim!: init_spec [of s0 labels])
qed

interpretation kernel_loop: inductive_invariant kernel_start kernel_step kernel_safe
  by unfold_locales (auto intro: kernel_start_safe kernel_step_safe)

end
