(* ===== verification/KernelTheorems.thy ===== *)
theory KernelTheorems
  imports KernelMainProps
begin

text \<open>
  The main theorems about the kernel: the scheduler, the message calls, events, task creation
  and exit, and the main loop. Each is followed by an instance at a concrete state, built from the
  example states of the first section.
\<close>

subsection \<open>Example states\<close>

text \<open>
  Zeroed memory with quiet devices, and on top of it three tasks: task 0 runs at priority 1,
  task 1 is in the state \<open>st\<close> with its buffers at fixed addresses, task 2 at priority 5 is blocked.
\<close>

definition blank_td :: task_descriptor_t where
  "blank_td = \<lparr>td_tid = 0, td_priority = 0, td_parent = None, td_send_q = queue_init, td_state = EXITED,
     td_sp = 0, td_svc_lr = 0, td_spsr = 0,
     td_message_params = \<lparr>mp_tid = 0, mp_msg = 0, mp_msg_len = 0, mp_rep = 0, mp_rep_len = 0\<rparr>\<rparr>"

definition blank :: kernel_context_t where
  "blank = \<lparr>mem = (\<lambda>_. 0), io = [], dev = (\<lambda>_ _. 0), irq_stack_start = 0x400000,
     tds = replicate 64 blank_td, nodes = (\<lambda>_. \<lparr>qn_data = None, qn_next = None\<rparr>),
     sch = \<lparr>bitmap = 0, priority_qs = replicate 64 queue_init\<rparr>,
     await_qs = replicate 16 queue_init, next_free_td = 0, last_idle_time = 0\<rparr>"

definition demo_td :: "task_state_t \<Rightarrow> task_descriptor_t" where
  "demo_td st = (fresh_td 1 3 (Some 0) 0x1000 \<lparr>mp_tid = 0x2000, mp_msg = 0x2010, mp_msg_len = 8,
     mp_rep = 0x2020, mp_rep_len = 4\<rparr>)\<lparr>td_state := st\<rparr>"

definition demo :: "task_state_t \<Rightarrow> kernel_context_t" where
  "demo st = blank\<lparr>next_free_td := 3,
     tds := (replicate 64 blank_td)[0 := fresh_td 0 1 None 0x1000 (td_message_params blank_td),
       1 := demo_td st,
       2 := (fresh_td 2 5 (Some 0) 0x1000 (td_message_params blank_td))\<lparr>td_state := REPLY_BLOCKED\<rparr>],
     nodes := init_nodes 2 (init_nodes 1 (init_nodes 0 (nodes blank)))\<rparr>"

lemma boot_shape_blank: "boot_shape blank"
  by (simp add: boot_shape_def blank_def)

lemma demo_krep: "krep (demo st) (\<lambda>_. [])"
proof (rule krep_empty)
  have "td_ok (demo st) t \<and> td_send_q (tds (demo st) ! t) = queue_init" if "t < 3" for t
  proof -
    from that consider "t = 0" | "t = 1" | "t = 2" by linarith
    then show ?thesis
      by cases (auto simp: td_ok_def demo_def demo_td_def fresh_td_def init_nodes_data init_nodes_other)
  qed
  then show "\<forall>t<unat (next_free_td (demo st)).
      td_ok (demo st) t \<and> td_send_q (tds (demo st) ! t) = queue_init"
    by (simp add: demo_def)
qed (simp_all add: demo_def blank_def)

lemma demo_running: "running (demo st) (\<lambda>_. []) 0"
proof -
  have "unat (next_free_td (demo st)) = 3" by (simp add: demo_def)
  moreover have "td_state (tds (demo st) ! 0) = READY" by (simp add: demo_def fresh_td_def)
  ultimately show ?thesis
    using demo_krep by (simp add: running_def floats_def)
qed

lemma demo_simps:
  "unat (next_free_td (demo st)) = 3" "tds (demo st) ! Suc 0 = demo_td st" "mem (demo st) = (\<lambda>_. 0)"
  "length (tds (demo st)) = 64" "dev (demo st) = (\<lambda>_ _. 0)" "io (demo st) = []"
  by (simp_all add: demo_def blank_def)

lemma quiet_uart_live: "uart_tx_live base (\<lambda>_ _. 0)"
  by (simp add: uart_tx_live_def)

text \<open>The state after start-up from zeroed memory.\<close>

definition labels :: code_labels where
  "labels = \<lparr>user_main_addr = 0x219000, idle_main_addr = 0x21A000, kernel_entry_addr = 0x218100,
     irq_entry_addr = 0x218200\<rparr>"

definition booted :: kernel_context_t where
  "booted = the (init labels blank)"

lemma booted_krep:
  "init labels blank = Some booted"
  "krep booted ((\<lambda>_. [])(ReadyQ 1 := [0], ReadyQ 28 := [1]))"
  "unat (next_free_td booted) = 2" "tds booted = boot_tds labels (tds blank)" "dev booted = (\<lambda>_ _. 0)"
  "mem booted = store32 ((boot_stack 1 (boot_stack 0 (mem (init_vectors labels (init_devices blank)))))
     (idle_exit_addr := 0)) non_idle_time_addr 0" "irq_stack_start booted = 0x400000"
  by (rule init_spec [OF boot_shape_blank, of labels]; simp add: booted_def blank_def)+

lemma booted_members: "members booted = (\<lambda>_. [])(ReadyQ 1 := [0], ReadyQ 28 := [1])"
  by (rule krep_members [OF booted_krep(2)])

lemma booted_kinv: "kinv booted"
  by (rule krep_kinv [OF booted_krep(2)])

lemma booted_next: "next_ready (members booted) = Some 1"
  by (auto simp: next_ready_Some booted_members)

lemma booted_start: "kernel_start booted"
  unfolding kernel_start_def using boot_shape_blank booted_krep(1) by blast

lemma booted_reachable: "reachable kernel_start kernel_step booted"
  by (rule reachable_init [of kernel_start, OF booted_start])

text \<open>The first iteration of the main loop from there, in which the user task calls \<open>Pass\<close>.\<close>

lemma booted_run:
  obtains s1 where "main_schedule booted = Some (Some 0, s1)"
    "running s1 ((\<lambda>_. [])(ReadyQ 28 := [1])) 0" "tds s1 = tds booted" "dev s1 = dev booted"
    "mem s1 = mem booted" "irq_stack_start s1 = irq_stack_start booted"
proof -
  have L: "((\<lambda>_. [])(ReadyQ 1 := [0], ReadyQ 28 := [1])) (ReadyQ 1) = 0 # []"
    "\<And>r. r < 1 \<Longrightarrow> ((\<lambda>_. [])(ReadyQ 1 := [0], ReadyQ 28 := [1 :: nat])) (ReadyQ r) = []"
    by simp_all
  obtain s1 where s1: "scheduler_get booted = Some (Some 0, s1)"
    "krep s1 (((\<lambda>_. [])(ReadyQ 1 := [0], ReadyQ 28 := [1]))(ReadyQ 1 := []))"
    and eq: "s1 = booted\<lparr>nodes := nodes s1, sch := sch s1\<rparr>"
    by (rule scheduler_get_krep [OF booted_krep(2) L(2,1)])
  have fr: "tds s1 = tds booted" "next_free_td s1 = next_free_td booted" "dev s1 = dev booted"
    "mem s1 = mem booted" "irq_stack_start s1 = irq_stack_start booted"
    using eq [THEN arg_cong, of tds] eq [THEN arg_cong, of next_free_td] eq [THEN arg_cong, of dev]
      eq [THEN arg_cong, of mem] eq [THEN arg_cong, of irq_stack_start] by simp_all
  have td: "tds s1 ! 0 = fresh_td 0 1 None (user_main_addr labels) (td_message_params blank_td)"
    "length (tds s1) = 64"
    using fr(1) booted_krep(4) by (simp_all add: boot_tds_def blank_def)
  have "((\<lambda>_. [])(ReadyQ 1 := [0], ReadyQ 28 := [1]))(ReadyQ 1 := []) = (\<lambda>_. [])(ReadyQ 28 := [1 :: nat])"
    by auto
  with s1(2) have "running s1 ((\<lambda>_. [])(ReadyQ 28 := [1])) 0"
    using fr(2) booted_krep(3) td by (simp add: running_def floats_def fresh_td_def)
  moreover have "main_schedule booted = Some (Some 0, s1)"
    using s1(1) td by (simp add: main_schedule_def fresh_td_def IDLE_TASK_TID_def)
  ultimately show ?thesis using fr by (intro that)
qed

lemma booted_flag: "load32 (mem booted) (irq_stack_start booted) = 0"
  by (simp add: booted_krep(6,7) boot_stack_def init_vectors_def init_devices_def reg_rw_io blank_def
      load32_def store32_def idle_exit_addr_def non_idle_time_addr_def task_stack_defs
      IDLE_TASK_TID_def Let_def)

lemma booted_step:
  obtains s' where "kernel_step booted s'"
proof -
  obtain s1 where s1: "main_schedule booted = Some (Some 0, s1)"
    "running s1 ((\<lambda>_. [])(ReadyQ 28 := [1])) 0" "tds s1 = tds booted" "dev s1 = dev booted"
    "mem s1 = mem booted" "irq_stack_start s1 = irq_stack_start booted"
    by (rule booted_run)
  have td: "td_tid (tds s1 ! 0) \<noteq> IDLE_TASK_TID"
    using s1(3) booted_krep(4) by (simp add: boot_tds_def blank_def fresh_td_def IDLE_TASK_TID_def)
  have code: "sys_code 1 = Some SYS_CODE_PASS" by (simp add: sys_code_def sys_codes_def)
  have "s1 = s1\<lparr>mem := mem s1, io := io s1 @ [], tds := (tds s1)[0 := (tds s1 ! 0)
      \<lparr>td_sp := td_sp (tds s1 ! 0), td_svc_lr := td_svc_lr (tds s1 ! 0), td_spsr := td_spsr (tds s1 ! 0)\<rparr>]\<rparr>"
    by simp
  then have runs: "task_runs 0 s1 s1" unfolding task_runs_def by blast
  have served: "served 0 1 (main_enter 0 s1)"
    using td s1(4,5,6) booted_flag booted_krep(5)
    by (simp add: served_def main_enter_def request_ok_def code quiet_uart_live)
  obtain s2 where s2: "kernel_pass 0 s1 = Some s2" "krep s2 (enqueue_ready s1 [0] ((\<lambda>_. [])(ReadyQ 28 := [1])))"
    by (rule kernel_pass_running [OF s1(2)])
  have "main_handle 0 1 s1 = Some (False, s2\<lparr>mem := store32 (mem s2) (td_sp (tds s2 ! 0)) 0\<rparr>)"
    using td s2 s1(5,6) booted_flag runningD(6) [OF s1(2)] krep_lengths(1) [OF s2(2)]
    by (simp add: main_handle_def handle_def handle_swi_def code)
  from kernel_step.intros [OF s1(1) runs served this] show ?thesis by (rule that)
qed

subsection \<open>Scheduling\<close>

text \<open>
  C5: \<open>scheduler_get\<close> implements its contract: on a state that satisfies the kernel's invariant it
  returns what \<open>spec_get\<close> says of the queues the state represents (the longest waiting task of the
  smallest priority number, or NULL when no task is ready), and leaves a state that represents the
  queues without that task.
\<close>

theorem scheduler_get_refines:
  assumes "kinv s"
  shows "\<exists>r s'. scheduler_get s = Some (r, s') \<and> kinv s' \<and> (r, members s') = spec_get (members s) \<and>
    tds s' = tds s \<and> mem s' = mem s"
proof -
  have rep: "krep s (members s)" using assms by (simp add: kinv_def)
  obtain r s' where s': "scheduler_get s = Some (r, s')" "krep s' (snd (spec_get (members s)))"
    "r = fst (spec_get (members s))" "tds s' = tds s" "mem s' = mem s"
    by (rule scheduler_get_refines_krep [OF rep])
  with krep_members [OF s'(2)] krep_kinv [OF s'(2)] show ?thesis by (simp add: prod_eq_iff)
qed

theorem scheduler_get_refines_witness:
  "kinv booted \<and> (\<exists>s'. scheduler_get booted = Some (Some 0, s') \<and> members s' = (\<lambda>_. [])(ReadyQ 28 := [1]))"
proof -
  have "spec_get (members booted) = (Some 0, (\<lambda>_. [])(ReadyQ 28 := [1]))"
    by (simp add: spec_get_def booted_next) (simp add: booted_members fun_eq_iff)
  with scheduler_get_refines [OF booted_kinv] booted_kinv show ?thesis by auto
qed

text \<open>
  C6: \<open>scheduler_put\<close> of a task that is in no queue succeeds, appends the task to the ready queue of
  its priority, marks it ready and changes no other queue, no memory and no other task.
\<close>

theorem scheduler_put_refines:
  assumes "kinv s" and "t < unat (next_free_td s)" and "floats (members s) t"
  shows "\<exists>s'. scheduler_put t s = Some (0, s') \<and> kinv s' \<and>
    members s' = (members s)(ReadyQ (unat (td_priority (tds s ! t))) :=
      members s (ReadyQ (unat (td_priority (tds s ! t)))) @ [t]) \<and>
    tds s' = (tds s)[t := (tds s ! t)\<lparr>td_state := READY\<rparr>] \<and> mem s' = mem s \<and> io s' = io s"
proof -
  have rep: "krep s (members s)" using assms by (simp add: kinv_def)
  obtain s' where s': "scheduler_put t s = Some (0, s')"
    "krep s' ((members s)(ReadyQ (unat (td_priority (tds s ! t))) :=
      members s (ReadyQ (unat (td_priority (tds s ! t)))) @ [t]))" "made_ready t s s'"
    by (rule scheduler_put_krep [OF rep assms(2,3) refl])
  with krep_members [OF s'(2)] krep_kinv [OF s'(2)] made_ready_frame [OF s'(3)] show ?thesis by auto
qed

theorem scheduler_put_refines_witness:
  "\<exists>s'. scheduler_put 1 (demo EXITED) = Some (0, s') \<and> kinv s' \<and> members s' = (\<lambda>_. [])(ReadyQ 3 := [1])"
proof -
  have m: "members (demo EXITED) = (\<lambda>_. [])" by (rule krep_members [OF demo_krep])
  have "td_priority (tds (demo EXITED) ! 1) = 3" by (simp add: demo_simps demo_td_def fresh_td_def)
  then show ?thesis
    using scheduler_put_refines [of "demo EXITED" 1] krep_kinv [OF demo_krep] m
    by (auto simp: demo_simps floats_def)
qed

text \<open>
  C12: Emptying the scheduler returns every ready task exactly in the order of priorities, and
  first come first served within one priority.
\<close>

theorem scheduler_drain_order:
  assumes "kinv s" and "length (concat (map (\<lambda>p. members s (ReadyQ p)) [0..<64])) \<le> n"
  shows "drain scheduler_get n s = Some (concat (map (\<lambda>p. members s (ReadyQ p)) [0..<64]))"
  by (rule ready_tasks.drain_order [OF assms])

theorem scheduler_drain_order_witness: "drain scheduler_get 5 booted = Some [0, 1]"
proof -
  have "concat (map (\<lambda>p. members booted (ReadyQ p)) [0..<64]) = [0, 1]"
    by (simp add: booted_members upt_rec)
  with scheduler_drain_order [OF booted_kinv, of 5] show ?thesis by simp
qed

text \<open>
  C16: \<open>bitmap_leadingzeroes\<close> returns the position of the lowest set bit of a 64-bit map that is not
  zero, that is the smallest priority number with a ready task.
\<close>

theorem bitmap_leadingzeroes_lowest:
  assumes "b \<noteq> 0"
  shows "unat (bitmap_leadingzeroes b) < 64 \<and> bit b (unat (bitmap_leadingzeroes b)) \<and>
    (\<forall>m<unat (bitmap_leadingzeroes b). \<not> bit b m)"
  using leadingzeroes_lowest [OF assms] by (simp add: lowest_bit_def)

theorem bitmap_leadingzeroes_lowest_witness:
  "(0x8000000000000000 :: u64) \<noteq> 0 \<and> bitmap_leadingzeroes 0x8000000000000000 = 63 \<and>
   \<not> bit (0x8000000000000000 :: u64) 62"
proof -
  have "bitmap_leadingzeroes 0x8000000000000000 = 63" by code_simp
  with bitmap_leadingzeroes_lowest [of "0x8000000000000000"] show ?thesis by simp
qed

subsection \<open>The main loop\<close>

text \<open>
  C1: The invariant of the kernel under its contract with the tasks and the hardware. Take any run
  of the main loop in which every step meets the contract: the request of the task can be served
  (\<open>request_ok\<close>: task ids are below 64 and name no descriptor that was never initialised, \<open>Reply\<close> is made
  only to a task that waits for a reply or is turned down for its size, sizes are below
  \<open>2 ^ 31\<close>, the message of a panic ends), an interrupt is one of those that were set up
  (\<open>irq_expected\<close>), UART2 takes characters, and a task changes nothing of the kernel's data but its own saved
  stack pointer, return address and status. Then every state between two iterations satisfies the invariant:
  every task is in at most one queue, which fits its state, all queues are well-formed chains with
  correct counts, and the bit map marks exactly the ready queues that hold a task. The exception
  is a state after a panic, in which the scheduler is empty and the loop ends. The kernel itself does not
  check the contract; a request outside it can break the invariant, as \<open>queue_put_twice\<close> shows for a \<open>Reply\<close> to a
  task that is ready already.
\<close>

theorem kernel_loop_invariant:
  assumes "reachable kernel_start kernel_step s"
  shows "kinv s \<or> scheduler_empty s"
  using kernel_loop.reachable_inv [OF assms] by (simp add: kernel_safe_def)

theorem kernel_loop_invariant_witness:
  "\<exists>s. kernel_step booted s \<and> reachable kernel_start kernel_step s \<and> (kinv s \<or> scheduler_empty s)"
proof -
  obtain s where s: "kernel_step booted s" by (rule booted_step)
  then have "reachable kernel_start kernel_step s" by (rule reachable_step [OF booted_reachable])
  with s kernel_loop_invariant show ?thesis by blast
qed

text \<open>
  C2: Under the same contract (\<open>served\<close>) the kernel never runs into undefined behaviour: in every
  reachable state it finds the next task or stops, and after that task has run, a request that can be served
  or an expected interrupt is handled to the end and leaves a state in which the loop can go on.
\<close>

theorem kernel_loop_progress:
  assumes "reachable kernel_start kernel_step s"
  shows "main_schedule s = Some (None, s) \<or>
    (\<exists>a s1. main_schedule s = Some (Some a, s1) \<and>
       (\<forall>s2 req. task_runs a s1 s2 \<longrightarrow> served a req (main_enter a s2) \<longrightarrow>
          (\<exists>stop s'. main_handle a req s2 = Some (stop, s') \<and> (kinv s' \<or> scheduler_empty s'))))"
proof (rule main_schedule_cases [OF kernel_loop.reachable_inv [OF assms]])
  fix a s1 L
  assume s1: "main_schedule s = Some (Some a, s1)" "running s1 L a"
  have "\<exists>stop s'. main_handle a req s2 = Some (stop, s') \<and> (kinv s' \<or> scheduler_empty s')"
    if "task_runs a s1 s2" "served a req (main_enter a s2)" for s2 req
    using main_handle_safe [OF running_task_runs [OF s1(2) that(1)] that(2)]
    by (simp add: returns_safe_def kernel_safe_def)
  with s1(1) show ?thesis by blast
qed simp

theorem kernel_loop_progress_witness:
  "\<exists>a s1. main_schedule booted = Some (Some a, s1) \<and>
     (\<forall>s2 req. task_runs a s1 s2 \<longrightarrow> served a req (main_enter a s2) \<longrightarrow>
        (\<exists>stop s'. main_handle a req s2 = Some (stop, s') \<and> (kinv s' \<or> scheduler_empty s')))"
proof -
  obtain s1 where "main_schedule booted = Some (Some (hd (members booted (ReadyQ 1))), s1)"
    by (rule main_schedule_running [OF booted_krep(2) [folded booted_members] booted_next])
  then show ?thesis
    using kernel_loop_progress [OF booted_reachable] by simp
qed

text \<open>
  C11: \<^verbatim>\<open>init\<close> establishes the invariant, from any contents of the kernel's arrays: the user task
  waits at priority 1 and the idle task at priority 28, no other queue holds a task, and the words
  the idle task shares with the kernel are cleared.
\<close>

theorem init_establishes_invariant:
  assumes "length (tds s) = 64" and "length (priority_qs (sch s)) = 64" and "length (await_qs s) = 16"
  shows "\<exists>s'. init ls s = Some s' \<and> kinv s' \<and>
    members s' = (\<lambda>_. [])(ReadyQ 1 := [0], ReadyQ 28 := [1]) \<and> next_free_td s' = 2 \<and>
    td_svc_lr (tds s' ! 0) = user_main_addr ls \<and> td_svc_lr (tds s' ! 1) = idle_main_addr ls \<and>
    mem s' idle_exit_addr = 0 \<and> load32 (mem s') non_idle_time_addr = 0"
proof -
  have "boot_shape s" using assms by (simp add: boot_shape_def)
  from init_spec [OF this, of ls] obtain s' where s': "init ls s = Some s'"
    "krep s' ((\<lambda>_. [])(ReadyQ 1 := [0], ReadyQ 28 := [1]))" "unat (next_free_td s') = 2"
    "tds s' = boot_tds ls (tds s)" "mem s' idle_exit_addr = 0" "load32 (mem s') non_idle_time_addr = 0"
    by metis
  have "next_free_td s' = 2" using s'(3) by (simp add: word_unat_eq_iff)
  moreover have "td_svc_lr (tds s' ! 0) = user_main_addr ls" "td_svc_lr (tds s' ! 1) = idle_main_addr ls"
    using s'(4) assms(1) by (simp_all add: boot_tds_def fresh_td_def)
  ultimately show ?thesis using s' krep_members [OF s'(2)] krep_kinv [OF s'(2)] by auto
qed

theorem init_establishes_invariant_witness:
  "\<exists>s'. init labels blank = Some s' \<and> kinv s' \<and> next_free_td s' = 2"
  using init_establishes_invariant [of blank labels] by (auto simp: blank_def)

subsection \<open>Messages\<close>

text \<open>
  C7: \<open>Send\<close> to a task that waits in \<open>Receive\<close> with a buffer of the same size delivers the message at
  once: the receiver's buffer holds the sender's bytes, its \<open>Receive\<close> returns the sender's task id,
  which is also stored where it asked, the receiver is ready again and the sender waits for the
  reply. The buffers have to be disjoint, and the receiver's buffer must not cover its own saved
  register or the place for the task id.
\<close>

theorem send_delivers_to_waiting_receiver:
  assumes run: "running s L a" and r: "unat tid < unat (next_free_td s)"
    and st: "td_state (tds s ! unat tid) = SEND_BLOCKED"
    and P: "P = td_message_params (tds s ! unat tid)" "mp_msg_len P = len" "unat len < 2 ^ 31"
    and sp: "sp = td_sp (tds s ! unat tid)"
    and disj: "addr_range (mp_msg P) (unat len) \<inter> addr_range msg (unat len) = {}"
      "addr_range (mp_msg P) (unat len) \<inter> addr_range sp 4 = {}"
      "mp_tid P \<notin> addr_range (mp_msg P) (unat len)" "mp_tid P \<notin> addr_range sp 4"
  shows "\<exists>s'. kernel_send a tid msg len rep rlen s = Some (0, s') \<and>
    krep s' (enqueue_ready s [unat tid] L) \<and>
    bytes_at (mem s') (mp_msg P) (unat len) = bytes_at (mem s) msg (unat len) \<and>
    mem s' (mp_tid P) = of_nat a \<and> load32 (mem s') sp = of_nat a \<and>
    td_state (tds s' ! unat tid) = READY \<and> td_state (tds s' ! a) = REPLY_BLOCKED"
proof -
  obtain m where m: "memcpy (mem s) (mp_msg P) msg len = Some m"
    "bytes_at m (mp_msg P) (unat len) = bytes_at (mem s) msg (unat len)"
    by (rule memcpy_copies [OF P(3) disj(1)])
  have ra: "a \<noteq> unat tid" "a < 64" "unat tid < 64" "length (tds s) = 64"
    using runningD [OF run] krep_lengths(4) [OF runningD(1) [OF run]] r st by auto
  obtain s' where s': "kernel_send a tid msg len rep rlen s = Some (0, s')"
    "krep s' (enqueue_ready s [unat tid] L)"
    and tds: "tds s' = (tds s)[unat tid := (tds s ! unat tid)\<lparr>td_state := READY\<rparr>,
      a := (tds s ! a)\<lparr>td_state := REPLY_BLOCKED,
        td_message_params := (td_message_params (tds s ! a))\<lparr>mp_rep := rep, mp_rep_len := rlen\<rparr>\<rparr>]"
    and mem: "mem s' = store32 (m(mp_tid P := of_nat a)) sp (of_nat a)"
    by (rule kernel_send_delivered [OF run r refl st P(2) [unfolded P(1)] m(1) [unfolded P(1)]])
      (simp add: P(1) sp)
  have out: "mem s' b = m b" if "b \<in> addr_range (mp_msg P) (unat len)" for b
    using that disj(2,3) mem by (subst mem, subst store32_outside) auto
  have "bytes_at (mem s') (mp_msg P) (unat len) = bytes_at (mem s) msg (unat len)"
    using m(2) bytes_at_cong [of "mp_msg P" "unat len" "mem s'" m, OF out] by simp
  moreover have "mem s' (mp_tid P) = of_nat a"
    using disj(4) by (simp add: mem store32_outside)
  moreover have "load32 (mem s') sp = of_nat a" by (simp add: mem)
  ultimately show ?thesis using s' tds ra by auto
qed

lemma demo_range: "addr_range (a :: u32) 8 = {a, a + 1, a + 2, a + 3, a + 4, a + 5, a + 6, a + 7}"
  by (auto simp: addr_range_def lessThan_nat_numeral lessThan_Suc)

theorem send_delivers_to_waiting_receiver_witness:
  "\<exists>s'. kernel_send 0 1 0x3000 8 0x3010 4 (demo SEND_BLOCKED) = Some (0, s') \<and>
    bytes_at (mem s') 0x2010 8 = bytes_at (mem (demo SEND_BLOCKED)) 0x3000 8 \<and> mem s' 0x2000 = 0 \<and>
    td_state (tds s' ! 1) = READY \<and> td_state (tds s' ! 0) = REPLY_BLOCKED"
proof -
  have "\<exists>s'. kernel_send 0 1 0x3000 8 0x3010 4 (demo SEND_BLOCKED) = Some (0, s') \<and>
    krep s' (enqueue_ready (demo SEND_BLOCKED) [unat (1 :: u8)] (\<lambda>_. [])) \<and>
    bytes_at (mem s') (mp_msg (td_message_params (demo_td SEND_BLOCKED))) (unat (8 :: u32)) =
      bytes_at (mem (demo SEND_BLOCKED)) 0x3000 (unat (8 :: u32)) \<and>
    mem s' (mp_tid (td_message_params (demo_td SEND_BLOCKED))) = of_nat 0 \<and>
    load32 (mem s') (td_sp (demo_td SEND_BLOCKED)) = of_nat 0 \<and>
    td_state (tds s' ! unat (1 :: u8)) = READY \<and> td_state (tds s' ! 0) = REPLY_BLOCKED"
    by (rule send_delivers_to_waiting_receiver [OF demo_running])
      (simp_all add: demo_simps demo_td_def fresh_td_def demo_range addr_range_4
        task_stack_defs)
  then show ?thesis by (auto simp: demo_td_def fresh_td_def)
qed

text \<open>
  \<open>Send\<close> to a task that is not waiting queues the sender behind the earlier senders to that
  task and blocks it; no memory changes, and the descriptor keeps where the message is and where
  the reply goes.
\<close>

theorem send_queues_behind_earlier_senders:
  assumes run: "running s L a" and r: "unat tid < unat (next_free_td s)"
    and st: "td_state (tds s ! unat tid) \<noteq> SEND_BLOCKED"
  shows "\<exists>s'. kernel_send a tid msg len rep rlen s = Some (0, s') \<and>
    krep s' (L(SendQ (unat tid) := L (SendQ (unat tid)) @ [a])) \<and>
    td_state (tds s' ! a) = RECEIVE_BLOCKED \<and> mem s' = mem s \<and>
    td_message_params (tds s' ! a) = (td_message_params (tds s ! a))
      \<lparr>mp_msg := msg, mp_msg_len := len, mp_rep := rep, mp_rep_len := rlen\<rparr>"
  by (rule kernel_send_queued [OF run r refl st, where msg = msg and len = len and rep = rep and rlen = rlen])
    blast

theorem send_queues_behind_earlier_senders_witness:
  "\<exists>s'. kernel_send 0 1 0x3000 8 0x3010 4 (demo READY) = Some (0, s') \<and>
     krep s' ((\<lambda>_. [])(SendQ 1 := [0])) \<and> td_state (tds s' ! 0) = RECEIVE_BLOCKED"
proof -
  have "unat (1 :: u8) < unat (next_free_td (demo READY))"
    "td_state (tds (demo READY) ! unat (1 :: u8)) \<noteq> SEND_BLOCKED"
    by (simp_all add: demo_simps demo_td_def)
  from send_queues_behind_earlier_senders [OF demo_running this, of "0x3000" 8 "0x3010" 4]
  show ?thesis by auto
qed

text \<open>The example state after that call, with task 1 running.\<close>

lemma demo_sent:
  obtains s where "kernel_send 0 1 0x3000 8 0x3010 4 (demo READY) = Some (0, s)"
    and "running s ((\<lambda>_. [])(SendQ 1 := [0])) 1"
    and "td_message_params (tds s ! 0) = \<lparr>mp_tid = 0, mp_msg = 0x3000, mp_msg_len = 8, mp_rep = 0x3010, mp_rep_len = 4\<rparr>"
    and "mem s = (\<lambda>_. 0)" and "td_sp (tds s ! 1) = td_sp (demo_td READY)" and "td_priority (tds s ! 1) = 3"
proof -
  have pre: "1 < unat (next_free_td (demo READY))" "unat (1 :: u8) = 1"
    "td_state (tds (demo READY) ! 1) \<noteq> SEND_BLOCKED"
    by (simp_all add: demo_simps demo_td_def)
  show ?thesis
  proof (rule kernel_send_queued [OF demo_running pre, where msg = "0x3000" and len = 8 and rep = "0x3010" and rlen = 4])
    fix s
    assume a: "kernel_send 0 1 0x3000 8 0x3010 4 (demo READY) = Some (0, s)"
      "krep s ((\<lambda>_. [])(SendQ 1 := [] @ [0]))"
      "td_message_params (tds s ! 0) = (td_message_params (tds (demo READY) ! 0))
         \<lparr>mp_msg := 0x3000, mp_msg_len := 8, mp_rep := 0x3010, mp_rep_len := 4\<rparr>"
      "\<And>u. u < 64 \<Longrightarrow> u \<noteq> 0 \<Longrightarrow> td_state (tds s ! u) = td_state (tds (demo READY) ! u) \<and>
         td_message_params (tds s ! u) = td_message_params (tds (demo READY) ! u)"
      "\<And>u. u < 64 \<Longrightarrow> td_tid (tds s ! u) = td_tid (tds (demo READY) ! u) \<and> td_sp (tds s ! u) = td_sp (tds (demo READY) ! u)
         \<and> td_priority (tds s ! u) = td_priority (tds (demo READY) ! u)"
      "mem s = mem (demo READY)" "next_free_td s = next_free_td (demo READY)"
    have "running s ((\<lambda>_. [])(SendQ 1 := [0])) 1"
      using a(2,7) a(4) [of 1] by (simp add: running_def floats_def demo_simps demo_td_def)
    then show ?thesis
      using a(1,3,6) a(5) [of 1] demo_simps(2) [of READY]
      by (intro that) (auto simp: demo_simps(3) demo_td_def fresh_td_def, simp add: demo_def blank_td_def fresh_td_def)
  qed
qed

text \<open>
  C8: \<open>Receive\<close> with senders waiting takes the one that has waited longest: its message is copied into
  the buffer, its task id is returned and stored, the receiver is ready again and that sender
  now waits for the reply, while the others keep their place.
\<close>

theorem receive_takes_first_sender:
  assumes run: "running s L a" and L: "L (SendQ a) = t # ts"
    and P: "P = td_message_params (tds s ! t)" "mp_msg_len P = len" "unat len < 2 ^ 31"
    and disj: "addr_range msg (unat len) \<inter> addr_range (mp_msg P) (unat len) = {}"
      "tid \<notin> addr_range msg (unat len)"
  shows "\<exists>s'. kernel_receive a tid msg len s = Some (of_nat t, s') \<and>
    krep s' (enqueue_ready s [a] (L(SendQ a := ts))) \<and>
    bytes_at (mem s') msg (unat len) = bytes_at (mem s) (mp_msg P) (unat len) \<and>
    mem s' tid = of_nat t \<and> td_state (tds s' ! t) = REPLY_BLOCKED \<and> td_state (tds s' ! a) = READY"
proof -
  obtain m where m: "memcpy (mem s) msg (mp_msg P) len = Some m"
    "bytes_at m msg (unat len) = bytes_at (mem s) (mp_msg P) (unat len)"
    by (rule memcpy_copies [OF P(3) disj(1)])
  obtain s' where s': "kernel_receive a tid msg len s = Some (of_nat t, s')"
    "krep s' (enqueue_ready s [a] (L(SendQ a := ts)))"
    "td_state (tds s' ! t) = REPLY_BLOCKED" "td_state (tds s' ! a) = READY" "mem s' = m(tid := of_nat t)"
    by (rule kernel_receive_delivered [OF run L P(2) [unfolded P(1)] m(1) [unfolded P(1)], of tid])
  have "bytes_at (mem s') msg (unat len) = bytes_at m msg (unat len)"
    using disj(2) s'(5) by (intro bytes_at_cong) auto
  with s' m(2) show ?thesis by auto
qed

theorem receive_takes_first_sender_witness:
  "\<exists>s s'. kernel_send 0 1 0x3000 8 0x3010 4 (demo READY) = Some (0, s) \<and>
     kernel_receive 1 0x4000 0x4010 8 s = Some (0, s') \<and>
     bytes_at (mem s') 0x4010 8 = bytes_at (mem s) 0x3000 8 \<and> td_state (tds s' ! 0) = REPLY_BLOCKED"
proof -
  obtain s where s: "kernel_send 0 1 0x3000 8 0x3010 4 (demo READY) = Some (0, s)"
    "running s ((\<lambda>_. [])(SendQ 1 := [0])) 1"
    "td_message_params (tds s ! 0) = \<lparr>mp_tid = 0, mp_msg = 0x3000, mp_msg_len = 8, mp_rep = 0x3010, mp_rep_len = 4\<rparr>"
    by (rule demo_sent)
  have "\<exists>s'. kernel_receive 1 0x4000 0x4010 8 s = Some (of_nat 0, s') \<and>
    krep s' (enqueue_ready s [1] (((\<lambda>_. [])(SendQ 1 := [0]))(SendQ 1 := []))) \<and>
    bytes_at (mem s') 0x4010 (unat (8 :: u32)) =
      bytes_at (mem s) (mp_msg \<lparr>mp_tid = 0, mp_msg = 0x3000, mp_msg_len = 8, mp_rep = 0x3010, mp_rep_len = 4\<rparr>) (unat (8 :: u32)) \<and>
    mem s' 0x4000 = of_nat 0 \<and> td_state (tds s' ! 0) = REPLY_BLOCKED \<and> td_state (tds s' ! 1) = READY"
    by (rule receive_takes_first_sender [OF s(2)]) (simp_all add: s(3) demo_range)
  with s(1) show ?thesis by auto
qed

text \<open>
  \<open>Receive\<close> without a sender blocks the task until a message comes, remembering its buffer, and
  changes nothing else.
\<close>

theorem receive_blocks_without_sender:
  assumes "running s L a" and "L (SendQ a) = []"
  shows "\<exists>s'. kernel_receive a tid msg len s = Some (0, s') \<and> krep s' L \<and>
    td_state (tds s' ! a) = SEND_BLOCKED \<and> mem s' = mem s \<and>
    td_message_params (tds s' ! a) = (td_message_params (tds s ! a))\<lparr>mp_tid := tid, mp_msg := msg, mp_msg_len := len\<rparr>"
  using kernel_receive_blocks [OF assms, where tid = tid and msg = msg and len = len]
    runningD(4) [OF assms(1)] by auto

theorem receive_blocks_without_sender_witness:
  "\<exists>s'. kernel_receive 0 0x4000 0x4010 8 (demo READY) = Some (0, s') \<and> krep s' (\<lambda>_. []) \<and>
     td_state (tds s' ! 0) = SEND_BLOCKED"
  using receive_blocks_without_sender [OF demo_running refl, where tid = "0x4000" and msg = "0x4010" and len = 8]
  by blast

text \<open>
  C9: \<open>Reply\<close> to a task that waits for it with a reply buffer of the same size delivers the reply: the
  buffer holds the bytes, the task's \<open>Send\<close> returns 0, and both it and the replying task are ready,
  in this order.
\<close>

theorem reply_delivers:
  assumes run: "running s L a" and r: "unat tid < unat (next_free_td s)"
    and st: "td_state (tds s ! unat tid) = REPLY_BLOCKED"
    and P: "P = td_message_params (tds s ! unat tid)" "mp_rep_len P = len" "unat len < 2 ^ 31"
    and sp: "sp = td_sp (tds s ! unat tid)"
    and disj: "addr_range (mp_rep P) (unat len) \<inter> addr_range rep (unat len) = {}"
      "addr_range (mp_rep P) (unat len) \<inter> addr_range sp 4 = {}"
  shows "\<exists>s'. kernel_reply a tid rep len s = Some (0, s') \<and> krep s' (enqueue_ready s [unat tid, a] L) \<and>
    bytes_at (mem s') (mp_rep P) (unat len) = bytes_at (mem s) rep (unat len) \<and>
    load32 (mem s') sp = 0 \<and> td_state (tds s' ! unat tid) = READY \<and> td_state (tds s' ! a) = READY"
proof -
  obtain m where m: "memcpy (mem s) (mp_rep P) rep len = Some m"
    "bytes_at m (mp_rep P) (unat len) = bytes_at (mem s) rep (unat len)"
    by (rule memcpy_copies [OF P(3) disj(1)])
  have ra: "a \<noteq> unat tid" "a < 64" "unat tid < 64" "length (tds s) = 64"
    using runningD [OF run] krep_lengths(4) [OF runningD(1) [OF run]] r st by auto
  obtain s' where s': "kernel_reply a tid rep len s = Some (0, s')"
    "krep s' (enqueue_ready s [unat tid, a] L)"
    "tds s' = (tds s)[unat tid := (tds s ! unat tid)\<lparr>td_state := READY\<rparr>, a := (tds s ! a)\<lparr>td_state := READY\<rparr>]"
    "mem s' = store32 m sp 0"
    by (rule kernel_reply_delivered [OF run r refl st P(2) [unfolded P(1)] m(1) [unfolded P(1)]])
      (simp add: sp)
  have "bytes_at (mem s') (mp_rep P) (unat len) = bytes_at m (mp_rep P) (unat len)"
    using disj(2) unfolding s'(4) by (intro bytes_at_cong store32_outside) auto
  moreover have "load32 (mem s') sp = 0" by (simp add: s'(4))
  ultimately show ?thesis using s' m(2) ra by auto
qed

lemma demo_range4: "addr_range (a :: u32) (unat (4 :: u32)) = {a, a + 1, a + 2, a + 3}"
  by (simp add: addr_range_4)

theorem reply_delivers_witness:
  "\<exists>s'. kernel_reply 0 1 0x3000 4 (demo REPLY_BLOCKED) = Some (0, s') \<and>
     bytes_at (mem s') 0x2020 4 = bytes_at (mem (demo REPLY_BLOCKED)) 0x3000 4 \<and>
     td_state (tds s' ! 1) = READY"
proof -
  have "\<exists>s'. kernel_reply 0 1 0x3000 4 (demo REPLY_BLOCKED) = Some (0, s') \<and>
    krep s' (enqueue_ready (demo REPLY_BLOCKED) [unat (1 :: u8), 0] (\<lambda>_. [])) \<and>
    bytes_at (mem s') (mp_rep (td_message_params (demo_td REPLY_BLOCKED))) (unat (4 :: u32)) =
      bytes_at (mem (demo REPLY_BLOCKED)) 0x3000 (unat (4 :: u32)) \<and>
    load32 (mem s') (td_sp (demo_td REPLY_BLOCKED)) = 0 \<and>
    td_state (tds s' ! unat (1 :: u8)) = READY \<and> td_state (tds s' ! 0) = READY"
    by (rule reply_delivers [OF demo_running])
      (simp_all add: demo_simps demo_td_def fresh_td_def demo_range4 addr_range_4
        task_stack_defs)
  then show ?thesis by (auto simp: demo_td_def fresh_td_def)
qed




text \<open>
  A size mismatch found by \<open>Receive\<close> returns -1 to the receiver but loses the sender: it has left
  the send queue, is still marked as waiting for a receiver, and is in no queue of the kernel.
\<close>

theorem receive_mismatch_loses_sender:
  assumes run: "running s L a" and L: "L (SendQ a) = t # ts"
    and "mp_msg_len (td_message_params (tds s ! t)) \<noteq> len"
  shows "\<exists>s'. kernel_receive a tid msg len s = Some (- 1, s') \<and> kinv s' \<and>
    td_state (tds s' ! t) = RECEIVE_BLOCKED \<and> (\<forall>i. t \<notin> set (members s' i))"
  by (rule kernel_receive_size_mismatch [OF assms, of tid msg])
    (use krep_members krep_kinv in \<open>auto simp: floats_def\<close>)

theorem receive_mismatch_loses_sender_witness:
  "\<exists>s s'. kernel_send 0 1 0x3000 8 0x3010 4 (demo READY) = Some (0, s) \<and>
     kernel_receive 1 0x4000 0x4010 9 s = Some (- 1, s') \<and> (\<forall>i. 0 \<notin> set (members s' i))"
proof -
  obtain s where s: "kernel_send 0 1 0x3000 8 0x3010 4 (demo READY) = Some (0, s)"
    "running s ((\<lambda>_. [])(SendQ 1 := [0])) 1"
    "td_message_params (tds s ! 0) = \<lparr>mp_tid = 0, mp_msg = 0x3000, mp_msg_len = 8, mp_rep = 0x3010, mp_rep_len = 4\<rparr>"
    by (rule demo_sent)
  then show ?thesis
    using receive_mismatch_loses_sender [OF s(2), of 0 "[]" 9 "0x4000" "0x4010"] by auto
qed

text \<open>
  \<open>Reply\<close> does not check that the addressee waits for a reply. A task that has exited, answered with the
  size of the last reply buffer it gave, is made ready again: this is what the condition on
  \<open>Reply\<close> in \<open>request_ok\<close> excludes.
\<close>

theorem reply_revives_exited:
  assumes run: "running s L a" and r: "unat tid < unat (next_free_td s)"
    and st: "td_state (tds s ! unat tid) = EXITED"
    and len: "mp_rep_len (td_message_params (tds s ! unat tid)) = len" "unat len < 2 ^ 31"
    and disj: "addr_range (mp_rep (td_message_params (tds s ! unat tid))) (unat len) \<inter> addr_range rep (unat len) = {}"
  shows "\<exists>s'. kernel_reply a tid rep len s = Some (0, s') \<and> td_state (tds s' ! unat tid) = READY \<and>
    krep s' (enqueue_ready s [unat tid, a] L)"
proof -
  note ra = runningD [OF run]
  obtain m where m: "memcpy (mem s) (mp_rep (td_message_params (tds s ! unat tid))) rep len = Some m"
    by (rule memcpy_copies [OF len(2) disj])
  have ar: "a \<noteq> unat tid" using st ra(8) by auto
  have fl: "floats L (unat tid)" by (rule krep_floats [OF ra(1)]) (simp add: st)
  have len64: "unat tid < 64" "length (tds s) = 64" using r krep_lengths [OF ra(1)] by simp_all
  obtain s' where s': "kernel_reply a tid rep len s = Some (0, s')" "krep s' (enqueue_ready s [unat tid, a] L)"
    "tds s' = (tds s)[unat tid := (tds s ! unat tid)\<lparr>td_state := READY\<rparr>, a := (tds s ! a)\<lparr>td_state := READY\<rparr>]"
    by (rule kernel_reply_floating [OF run r refl fl ar len(1) m(1)])
  then have "td_state (tds s' ! unat tid) = READY" using ar len64 by simp
  with s'(1,2) show ?thesis by blast
qed

theorem reply_revives_exited_witness:
  "\<exists>s'. kernel_reply 0 1 0x3000 4 (demo EXITED) = Some (0, s') \<and> td_state (tds s' ! 1) = READY"
proof -
  have "\<exists>s'. kernel_reply 0 1 0x3000 4 (demo EXITED) = Some (0, s') \<and>
      td_state (tds s' ! unat (1 :: u8)) = READY \<and>
      krep s' (enqueue_ready (demo EXITED) [unat (1 :: u8), 0] (\<lambda>_. []))"
    by (rule reply_revives_exited [OF demo_running])
      (simp_all add: demo_simps demo_td_def fresh_td_def demo_range4 addr_range_4)
  then show ?thesis by auto
qed

end
