(* ===== verification/KernelEvents.thy ===== *)
theory KernelEvents
  imports KernelTheorems
begin

text \<open>
  Theorems about events and interrupts, task creation and exit, panic and the accounting for
  the idle task, and two behaviours of the system calls that lose or corrupt tasks.
\<close>

subsection \<open>Events and interrupts\<close>

text \<open>The return value of every woken task, when the saved registers of the tasks do not overlap.\<close>

lemma write_returns_outside:
  "\<forall>u\<in>set ts. addr_range (td_sp (tds s ! u)) 4 \<inter> addr_range a 4 = {} \<Longrightarrow>
     load32 (write_returns s ts v m) a = load32 m a"
  unfolding write_returns_def
proof (induction ts arbitrary: m)
  case (Cons u ts)
  then have "load32 (store32 m (td_sp (tds s ! u)) v) a = load32 m a"
    by (intro load32_store32_outside) auto
  with Cons show ?case by simp
qed simp

lemma write_returns_value:
  assumes "t \<in> set ts" "distinct ts"
    and "\<forall>u\<in>set ts. u \<noteq> t \<longrightarrow> addr_range (td_sp (tds s ! u)) 4 \<inter> addr_range (td_sp (tds s ! t)) 4 = {}"
  shows "load32 (write_returns s ts v m) (td_sp (tds s ! t)) = v"
proof -
  from assms(1) obtain us vs where ts: "ts = us @ t # vs" by (meson split_list)
  have "write_returns s ts v m =
      write_returns s vs v (store32 (write_returns s us v m) (td_sp (tds s ! t)) v)"
    by (simp add: ts write_returns_def)
  moreover have "\<forall>u\<in>set vs. addr_range (td_sp (tds s ! u)) 4 \<inter> addr_range (td_sp (tds s ! t)) 4 = {}"
    using assms(2,3) ts by auto
  ultimately show ?thesis by (simp add: write_returns_outside)
qed

text \<open>
  C10: An interrupt wakes every task that waits for its event: they leave the event's queue for
  the ready queues of their priorities, in the order in which they came, each \<open>AwaitEvent\<close> returns the
  value the device delivered, and the interrupted task is put back behind them.
\<close>

theorem interrupt_wakes_waiters:
  assumes run: "running s L a" and irq: "load32 (mem s) (irq_stack_start s) \<noteq> 0"
    and ev: "irq_event s = Some (e, v)"
    and sep: "\<forall>t\<in>set (L (AwaitQ (unat e))). \<forall>u\<in>set (L (AwaitQ (unat e))). u \<noteq> t \<longrightarrow>
      addr_range (td_sp (tds s ! u)) 4 \<inter> addr_range (td_sp (tds s ! t)) 4 = {}"
  shows "\<exists>s'. handle a req s = Some (False, s') \<and>
    krep s' (enqueue_ready s (L (AwaitQ (unat e)) @ [a]) (L(AwaitQ (unat e) := []))) \<and>
    (\<forall>t\<in>set (L (AwaitQ (unat e))). td_state (tds s' ! t) = READY \<and>
       load32 (mem s') (td_sp (tds s' ! t)) = v)"
proof -
  obtain s' where s': "handle_irq a s = Some (False, s')"
    "krep s' (enqueue_ready s (L (AwaitQ (unat e)) @ [a]) (L(AwaitQ (unat e) := [])))"
    "mem s' = write_returns s (L (AwaitQ (unat e))) v (mem s)"
    "woken (L (AwaitQ (unat e)) @ [a]) s (s'\<lparr>io := io s\<rparr>)"
    by (rule handle_irq_spec [OF run ev])
  have "td_state (tds s' ! t) = READY \<and> load32 (mem s') (td_sp (tds s' ! t)) = v"
    if t: "t \<in> set (L (AwaitQ (unat e)))" for t
  proof -
    have "t < length (tds s)"
      using krep_bound [OF runningD(1) [OF run] t] krep_lengths [OF runningD(1) [OF run]] by simp
    with s'(4) t have "tds s' ! t = (tds s ! t)\<lparr>td_state := READY\<rparr>" by (simp add: woken_def)
    with write_returns_value [OF t krep_distinct [OF runningD(1) [OF run]]] sep t s'(3)
    show ?thesis by simp
  qed
  with s' irq show ?thesis by (auto simp: handle_def)
qed

text \<open>The example state in which task 0 has awaited the timer and task 1 is interrupted by it.\<close>

definition flagged :: "kernel_context_t \<Rightarrow> kernel_context_t" where
  "flagged s = s\<lparr>mem := store32 (mem s) (irq_stack_start s) 1\<rparr>"

lemma demo_awaiting:
  obtains s where "kernel_await_event 0 0 (demo READY) = Some (0, s)"
    and "running (flagged s) ((\<lambda>_. [])(AwaitQ 0 := [0])) 1" and "dev s = (\<lambda>_ _. 0)"
proof -
  have e: "unat (0 :: u32) < 16" by simp
  obtain s where s: "kernel_await_event 0 0 (demo READY) = Some (0, s)"
    "krep s ((\<lambda>_. [])(AwaitQ (unat (0 :: u32)) := [] @ [0]))"
    "tds s = (tds (demo READY))[0 := (tds (demo READY) ! 0)\<lparr>td_state := EVENT_BLOCKED\<rparr>]"
    "next_free_td s = next_free_td (demo READY)"
    by (rule kernel_await_event_running [OF demo_running e])
  have "running (flagged s) ((\<lambda>_. [])(AwaitQ 0 := [0])) 1"
    using s by (simp add: running_def flagged_def floats_def demo_simps demo_td_def)
  moreover have "dev s = (\<lambda>_ _. 0)"
    using s(1) by (auto simp: kernel_await_event_def event_handler_add_task_def td_update_def Let_def
        EVENT_HANDLER_MAX_EVENTS_def enable_event_interrupt_def event_defs demo_simps
        split: Option.bind_splits if_splits)
  ultimately show ?thesis using s(1) by (intro that)
qed

theorem interrupt_wakes_waiters_witness:
  "\<exists>s s'. kernel_await_event 0 0 (demo READY) = Some (0, s) \<and>
     handle 1 0 (flagged s) = Some (False, s') \<and> td_state (tds s' ! 0) = READY"
proof -
  obtain s where s: "kernel_await_event 0 0 (demo READY) = Some (0, s)"
    "running (flagged s) ((\<lambda>_. [])(AwaitQ 0 := [0])) 1" "dev s = (\<lambda>_ _. 0)"
    by (rule demo_awaiting)
  have irq: "load32 (mem (flagged s)) (irq_stack_start (flagged s)) \<noteq> 0" by (simp add: flagged_def)
  have ev: "irq_event (flagged s) = Some (0, 0)"
    using s(3) by (simp add: irq_event_def reg_rw_io flagged_def event_defs)
  from interrupt_wakes_waiters [OF s(2) irq ev, of 0] s(1) show ?thesis by auto
qed

text \<open>
  The interrupt that \<open>AwaitEvent\<close> turns on for a UART event, as the device manual numbers it: the
  address of the UART's control register and the bit of the interrupt (3 modem status, 4 receive,
  5 transmit).
\<close>

definition uart_interrupt :: "u32 \<Rightarrow> (u32 \<times> nat) option" where
  "uart_interrupt event =
     (if event = 2 then Some (0x808C0014, 3) else if event = 3 then Some (0x808C0014, 4)
      else if event = 5 then Some (0x808C0014, 5) else if event = 7 then Some (0x808D0014, 4)
      else if event = 9 then Some (0x808D0014, 5) else None)"

lemma enable_event_interrupt_io:
  "io (enable_event_interrupt event s) = io s @
    (case uart_interrupt event of None \<Rightarrow> []
     | Some (r, b) \<Rightarrow> [RegRead r (dev s r (io s)), RegWrite r (dev s r (io s) OR push_bit b 1)])"
  by (simp add: uart_interrupt_def enable_event_interrupt_def reg_set_bits_def reg_read_def reg_write_def
      Let_def event_defs UART1_BASE_def UART2_BASE_def UART_CTLR_OFFSET_def TIEN_MASK_def RIEN_MASK_def
      MSIEN_MASK_def)

text \<open>
  C17: \<open>AwaitEvent\<close> blocks the caller behind the tasks that already wait for the event. For the five
  UART events it makes exactly two accesses to devices: it reads the control register of the event's UART
  and writes the value back with the bit of the event's interrupt set; for the other events it
  touches no device. An event number outside the table returns -1 and only puts the caller back.
\<close>

theorem await_event_blocks:
  assumes "running s L a"
  shows "\<exists>s'. kernel_await_event a event s =
      Some (if unat event < 16 then 0 else - 1, s') \<and> mem s' = mem s \<and>
    (if unat event < 16
     then krep s' (L(AwaitQ (unat event) := L (AwaitQ (unat event)) @ [a])) \<and>
       td_state (tds s' ! a) = EVENT_BLOCKED \<and>
       io s' = io s @
         (case uart_interrupt event of None \<Rightarrow> []
          | Some (r, b) \<Rightarrow> [RegRead r (dev s r (io s)), RegWrite r (dev s r (io s) OR push_bit b 1)])
     else krep s' (enqueue_ready s [a] L) \<and> td_state (tds s' ! a) = READY \<and> io s' = io s)"
proof (cases "unat event < 16")
  case True
  show ?thesis
    by (rule kernel_await_event_running [OF assms True])
      (use True runningD(4) [OF assms] enable_event_interrupt_io [of event s] in auto)
next
  case False
  then have "16 \<le> unat event" by simp
  then show ?thesis
    by (rule kernel_await_event_bad [OF assms])
      (use False made_ready_frame made_ready_td(7) runningD(4) [OF assms] in fastforce)
qed

theorem await_event_blocks_witness:
  "(\<exists>s'. kernel_await_event 0 9 (demo READY) = Some (0, s') \<and> krep s' ((\<lambda>_. [])(AwaitQ 9 := [0])) \<and>
      io s' = io (demo READY) @ [RegRead 0x808D0014 0, RegWrite 0x808D0014 0x20]) \<and>
   (\<exists>s'. kernel_await_event 0 16 (demo READY) = Some (- 1, s'))"
proof -
  have "dev (demo READY) = (\<lambda>_ _. 0)" by (simp add: demo_simps)
  then show ?thesis
    using await_event_blocks [OF demo_running [of READY], of 9]
      await_event_blocks [OF demo_running [of READY], of 16] by (auto simp: uart_interrupt_def)
qed

subsection \<open>Tasks\<close>

lemma byte_of_small:
  assumes "unat n < 64"
  shows "ucast (of_nat (unat (n :: u32)) :: u8) = n"
proof -
  have "unat (ucast (of_nat (unat n) :: u8) :: u32) = unat n"
    using assms by (subst unsigned_ucast_eq, subst unsigned_of_nat) (simp add: take_bit_nat_eq_self)
  then show ?thesis by (simp only: word_unat_eq_iff)
qed

text \<open>
  C13: \<open>Create\<close> with a priority from 0 to 63 and a free descriptor returns the new task's id, which is
  the number of tasks created so far. The new task starts at \<open>code\<close> with the caller as its parent
  and an empty send queue; it is ready at its priority, and the caller is ready behind it.
\<close>

theorem create_adds_task:
  assumes run: "running s L a" and p: "0 \<le> sint priority" "sint priority \<le> 63"
    and nf: "unat (next_free_td s) < 64"
  shows "\<exists>s'. kernel_create a priority code s = Some (next_free_td s, s') \<and>
    next_free_td s' = next_free_td s + 1 \<and>
    krep s' (enqueue_ready s' [unat (next_free_td s), a] L) \<and>
    td_svc_lr (tds s' ! unat (next_free_td s)) = code \<and>
    td_parent (tds s' ! unat (next_free_td s)) = Some a \<and>
    unat (td_priority (tds s' ! unat (next_free_td s))) = nat (sint priority) \<and>
    td_sp (tds s' ! unat (next_free_td s)) = MEM_TASK_STACK_START (next_free_td s) - 56"
proof -
  let ?t = "unat (next_free_td s)"
  obtain s' where s': "kernel_create a priority code s = Some (of_nat ?t, s')"
    "krep s' (enqueue_ready s' [?t, a] L)" "unat (next_free_td s') = Suc ?t"
    and tds: "tds s' = (tds s)[?t := fresh_td (of_nat ?t) (ucast priority) (Some a) code (td_message_params (tds s ! ?t)),
        a := (tds s ! a)\<lparr>td_state := READY\<rparr>]"
    by (rule kernel_create_running [OF run p refl nf])
  have at: "a < ?t" "a < 64" "length (tds s) = 64" using runningD [OF run] by simp_all
  have "unat (next_free_td s') = unat (next_free_td s + 1)"
    using s'(3) unat_next_free_Suc [OF nf] by simp
  then have "next_free_td s' = next_free_td s + 1" by (simp only: word_unat_eq_iff)
  moreover have "tds s' ! ?t = fresh_td (of_nat ?t) (ucast priority) (Some a) code (td_message_params (tds s ! ?t))"
    using tds at nf by simp
  moreover have "ucast (of_nat ?t :: u8) = next_free_td s"
    by (rule byte_of_small [OF nf])
  ultimately show ?thesis using s' priority_byte [OF p] by (auto simp: fresh_td_def)
qed

theorem create_adds_task_witness:
  "\<exists>s'. kernel_create 0 63 0x1234 (demo READY) = Some (3, s') \<and> next_free_td s' = 4 \<and>
     td_svc_lr (tds s' ! 3) = 0x1234"
proof -
  have "next_free_td (demo READY) = 3" by (simp add: demo_def)
  then show ?thesis
    using create_adds_task [OF demo_running [of READY], of 63 "0x1234"] by auto
qed

text \<open>
  A failed \<open>Create\<close> (a priority outside 0 to 63, or no free descriptor) returns its error code but
  does not put the caller back: the state is unchanged, so the caller is in no queue and never runs
  again.
\<close>

theorem failed_create_strands_caller:
  assumes run: "running s L a"
    and bad: "sint priority < 0 \<or> 63 < sint priority \<or> 64 \<le> unat (next_free_td s)"
  shows "\<exists>err. kernel_create a priority code s = Some (err, s) \<and> (err = - 1 \<or> err = - 2) \<and>
    (\<forall>i. a \<notin> set (members s i))"
proof -
  have "members s = L" by (rule krep_members [OF runningD(1) [OF run]])
  then have "\<forall>i. a \<notin> set (members s i)" using runningD(3) [OF run] by (simp add: floats_def)
  moreover have "\<exists>err. kernel_create a priority code s = Some (err, s) \<and> (err = - 1 \<or> err = - 2)"
    using kernel_create_errors [where priority = priority and a = a and code = code and s = s] bad
    by fastforce
  ultimately show ?thesis by blast
qed

theorem failed_create_strands_caller_witness:
  "\<exists>err. kernel_create 0 64 0x1234 (demo READY) = Some (err, demo READY) \<and> (err = - 1 \<or> err = - 2) \<and>
     (\<forall>i. 0 \<notin> set (members (demo READY) i))"
  by (rule failed_create_strands_caller [OF demo_running]) simp

text \<open>
  C18: \<open>Exit\<close> puts the caller, which is in no queue while it runs, into none: after the call its state
  is EXITED, no queue of the kernel holds it, every queue holds the tasks it held before, no other
  descriptor and no memory has changed, and the kernel is told to stop exactly when no task is ready.
\<close>

theorem exit_removes_task:
  assumes "running s L a"
  shows "\<exists>s'. kernel_exit a s = Some (\<forall>p<64. members s' (ReadyQ p) = [], s') \<and> kinv s' \<and>
    members s' = L \<and> (\<forall>i. a \<notin> set (members s' i)) \<and>
    tds s' = (tds s)[a := (tds s ! a)\<lparr>td_state := EXITED\<rparr>] \<and> td_state (tds s' ! a) = EXITED \<and>
    mem s' = mem s"
proof -
  let ?s = "s\<lparr>tds := (tds s)[a := (tds s ! a)\<lparr>td_state := EXITED\<rparr>]\<rparr>"
  note e = kernel_exit_running [OF assms] and r = runningD(3,4) [OF assms]
  have m: "members ?s = L" by (rule krep_members [OF e(2)])
  show ?thesis
  proof (intro exI conjI)
    show "kernel_exit a s = Some (\<forall>p<64. members ?s (ReadyQ p) = [], ?s)" unfolding m by (rule e(1))
    show "kinv ?s" by (rule krep_kinv [OF e(2)])
    show "members ?s = L" by (rule m)
    show "\<forall>i. a \<notin> set (members ?s i)" using r unfolding m by (simp add: floats_def)
    show "td_state (tds ?s ! a) = EXITED" using r by simp
  qed simp_all
qed

theorem exit_removes_task_witness:
  "\<exists>s'. kernel_exit 0 (demo READY) = Some (True, s') \<and> td_state (tds s' ! 0) = EXITED \<and>
     (\<forall>i. 0 \<notin> set (members s' i))"
  using exit_removes_task [OF demo_running [of READY]] by auto

text \<open>
  \<open>MyTid\<close> and \<open>MyParentTid\<close> return the caller's id and the id of the task that created it (-1 for
  the first task), and put the caller back at the end of its ready queue.
\<close>

theorem tid_calls:
  assumes "running s L a"
  shows "\<exists>s' s''. kernel_mytid a s = Some (of_nat a, s') \<and> krep s' (enqueue_ready s [a] L) \<and>
    kernel_parenttid a s = Some (case td_parent (tds s ! a) of None \<Rightarrow> - 1 | Some p \<Rightarrow> of_nat p, s'') \<and>
    krep s'' (enqueue_ready s [a] L)"
proof -
  obtain s' where s': "kernel_mytid a s = Some (of_nat a, s')" "krep s' (enqueue_ready s [a] L)"
    by (rule kernel_mytid_running [OF assms])
  obtain s'' where "kernel_parenttid a s =
      Some (case td_parent (tds s ! a) of None \<Rightarrow> - 1 | Some p \<Rightarrow> of_nat p, s'')"
    "krep s'' (enqueue_ready s [a] L)"
    by (rule kernel_parenttid_running [OF assms])
  with s' show ?thesis by blast
qed

theorem tid_calls_witness:
  "\<exists>s' s''. kernel_mytid 0 (demo READY) = Some (0, s') \<and> kernel_parenttid 0 (demo READY) = Some (- 1, s'')"
proof -
  have "td_parent (tds (demo READY) ! 0) = None" by (simp add: demo_def fresh_td_def)
  then show ?thesis using tid_calls [OF demo_running [of READY]] by auto
qed

subsection \<open>Panic\<close>

text \<open>
  C19: A \<open>panic\<close> system call prints its message after \<open>Panic: \<close> on the second UART and nothing else,
  provided the UART transmits, and stops the kernel: the next iteration of the main loop finds no
  task.
\<close>

theorem panic_prints_and_stops:
  assumes run: "running s L a" and swi: "load32 (mem s) (irq_stack_start s) = 0"
    and code: "sys_code req = Some SYS_CODE_PANIC"
    and live: "uart_tx_live UART2_BASE (dev s)"
    and msg: "read_cstring (mem s) (load32 (mem s) (td_sp (tds s ! a))) = Some msg"
  shows "\<exists>s' es. handle a req s = Some (False, s') \<and> io s' = io s @ es \<and>
    writes es = map (\<lambda>c. (UART2_BASE + UART_DATA_OFFSET, ucast c)) (cstr ''Panic: '' @ msg @ [10, 13]) \<and>
    main_schedule s' = Some (None, s')"
proof -
  obtain es where es: "kernel_panic a msg s = Some (s\<lparr>sch := (sch s)\<lparr>bitmap := 0\<rparr>, io := io s @ es\<rparr>)"
    "writes es = map (\<lambda>c. (UART2_BASE + UART_DATA_OFFSET, ucast c)) (cstr ''Panic: '' @ msg @ [10, 13])"
    by (rule kernel_panic_spec [OF live read_cstring_nonzero [OF msg]])
  let ?s = "s\<lparr>sch := (sch s)\<lparr>bitmap := 0\<rparr>, io := io s @ es, mem := store32 (mem s) (td_sp (tds s ! a)) 0\<rparr>"
  have "handle a req s = Some (False, ?s)"
    using runningD(4) [OF run] swi code msg es(1) by (simp add: handle_def handle_swi_def)
  moreover have "main_schedule ?s = Some (None, ?s)"
    by (rule main_schedule_empty) (simp add: scheduler_empty_def)
  ultimately show ?thesis using es(2) by (intro exI [of _ ?s] exI [of _ es]) simp
qed

theorem panic_prints_and_stops_witness:
  "\<exists>s' es. handle 0 9 (demo READY) = Some (False, s') \<and> io s' = es \<and>
     map snd (writes es) = map ucast (cstr ''Panic: '' @ [10, 13]) \<and> main_schedule s' = Some (None, s')"
proof -
  have "sys_code 9 = Some SYS_CODE_PANIC" by (simp add: sys_code_def sys_codes_def)
  moreover have "load32 (mem (demo READY)) b = 0" for b by (simp add: demo_simps load32_def)
  moreover have "read_cstring (mem (demo READY)) b = Some []" for b
    by (subst read_cstring.simps) (simp add: demo_simps)
  moreover have "uart_tx_live UART2_BASE (dev (demo READY))" by (simp add: demo_simps quiet_uart_live)
  ultimately show ?thesis
    using panic_prints_and_stops [OF demo_running [of READY], of 9 "[]"] by (auto simp: demo_simps comp_def)
qed

end
