(* ===== verification/CStringProps.thy ===== *)
theory CStringProps
  imports CString
begin

text \<open>
  The string routines agree with reference definitions on lists of bytes: \<open>text_of\<close> is the part
  of an array before its first zero byte, and each routine is described by what it does to the
  bytes at its arguments. The servers, whose strings are arrays inside messages, use the list
  versions.
\<close>

subsection \<open>Reference definitions\<close>

definition text_of :: "u8 list \<Rightarrow> u8 list" where
  "text_of xs = takeWhile (\<lambda>c. c \<noteq> 0) xs"

definition strncpy_list :: "nat \<Rightarrow> u8 list \<Rightarrow> u8 list" where
  "strncpy_list n xs = (let t = text_of (take n xs) in t @ replicate (n - length t) 0)"

fun strncmp_list :: "u8 list \<Rightarrow> u8 list \<Rightarrow> int" where
  "strncmp_list (x # xs) (y # ys) =
     (if x \<noteq> y \<or> x = 0 then uint x - uint y else strncmp_list xs ys)"
| "strncmp_list _ _ = 0"

fun memcmp_list :: "u8 list \<Rightarrow> u8 list \<Rightarrow> int" where
  "memcmp_list (x # xs) (y # ys) = (if x < y then - 1 else if x > y then 1 else memcmp_list xs ys)"
| "memcmp_list _ _ = 0"

lemma text_of_Nil [simp]: "text_of [] = []"
  by (simp add: text_of_def)

lemma text_of_Cons [simp]: "text_of (x # xs) = (if x = 0 then [] else x # text_of xs)"
  by (simp add: text_of_def)

lemma length_text_of: "length (text_of xs) \<le> length xs"
  by (simp add: text_of_def length_takeWhile_le)

lemma text_of_nonzero: "0 \<notin> set (text_of xs)"
  by (auto simp: text_of_def dest: set_takeWhileD)

lemma text_of_id: "0 \<notin> set xs \<Longrightarrow> text_of xs = xs"
  by (induction xs) auto

lemma text_of_pad: "0 \<notin> set xs \<Longrightarrow> text_of (xs @ replicate k 0) = xs"
  by (induction xs; cases k) auto

lemma text_of_append_0: "0 \<notin> set xs \<Longrightarrow> text_of (xs @ 0 # ys) = xs"
  by (induction xs) auto

lemma length_strncpy_list [simp]: "length (strncpy_list n xs) = n"
  using length_text_of [of "take n xs"] by (simp add: strncpy_list_def Let_def)

lemma text_of_strncpy: "text_of (strncpy_list n xs) = text_of (take n xs)"
  by (simp add: strncpy_list_def Let_def text_of_pad text_of_nonzero)

text \<open>Two arrays compare equal exactly when they hold the same text.\<close>

lemma strncmp_list_eq_0:
  "length xs = length ys \<Longrightarrow> strncmp_list xs ys = 0 \<longleftrightarrow> text_of xs = text_of ys"
proof (induction xs ys rule: strncmp_list.induct)
  case (1 x xs y ys)
  then show ?case by (auto simp: word_uint_eq_iff)
qed (auto simp: text_of_def)

lemma memcmp_list_eq_0: "length xs = length ys \<Longrightarrow> memcmp_list xs ys = 0 \<longleftrightarrow> xs = ys"
  by (induction xs ys rule: memcmp_list.induct) auto

lemma nth_bytes_at [simp]: "k < n \<Longrightarrow> bytes_at m a n ! k = m (a + of_nat k)"
  by (simp add: bytes_at_def)

lemma drop_bytes_at: "i < n \<Longrightarrow> drop i (bytes_at m a n) = m (a + of_nat i) # drop (Suc i) (bytes_at m a n)"
  by (simp add: Cons_nth_drop_Suc [symmetric])

subsection \<open>Comparison\<close>

lemma strncmp_from_list:
  "i \<le> n \<Longrightarrow> strncmp_from m l r n i 0 = strncmp_list (drop i (bytes_at m l n)) (drop i (bytes_at m r n))"
proof (induction "n - i" arbitrary: i)
  case 0
  then show ?case by (subst strncmp_from.simps) simp
next
  case (Suc d)
  then have "i < n" by simp
  with Suc show ?case
    by (subst strncmp_from.simps) (auto simp: drop_bytes_at word_uint_eq_iff)
qed

lemma strncmp_eq: "strncmp m l r count = strncmp_list (bytes_at m l (unat count)) (bytes_at m r (unat count))"
  using strncmp_from_list [of 0 "unat count" m l r] by (simp add: strncmp_def)

lemma memcmp_from_list:
  assumes "n < 2 ^ 31"
  shows "i \<le> n \<Longrightarrow> memcmp_from m l r n i = Some (memcmp_list (drop i (bytes_at m l n)) (drop i (bytes_at m r n)))"
proof (induction "n - i" arbitrary: i)
  case 0
  then show ?case by (subst memcmp_from.simps) simp
next
  case (Suc d)
  then have "i < n" by simp
  with Suc assms show ?case
    by (subst memcmp_from.simps) (auto simp: drop_bytes_at)
qed

lemma memcmp_eq:
  "unat count < 2 ^ 31 \<Longrightarrow>
     memcmp m l r count = Some (memcmp_list (bytes_at m l (unat count)) (bytes_at m r (unat count)))"
  using memcmp_from_list [of "unat count" 0 m l r] by (simp add: memcmp_def)

subsection \<open>Search and fill\<close>

lemma memchr_from_list:
  assumes "n < 2 ^ 31"
  shows "i \<le> n \<Longrightarrow> memchr_from m p c n i =
    Some (map_option (\<lambda>k. p + of_nat k) (find (\<lambda>k. m (p + of_nat k) = c) [i..<n]))"
proof (induction "n - i" arbitrary: i)
  case 0
  then show ?case by (subst memchr_from.simps) simp
next
  case (Suc d)
  then have "i < n" by simp
  with Suc assms show ?case
    by (subst memchr_from.simps) (simp add: upt_conv_Cons)
qed

lemma memset_from_overlay:
  assumes "n < 2 ^ 31"
  shows "i \<le> n \<Longrightarrow> memset_from m dest c n i = Some (overlay m dest i n (\<lambda>_. c))"
proof (induction "n - i" arbitrary: m i)
  case 0
  then show ?case by (subst memset_from.simps) simp
next
  case (Suc d)
  then have "i < n" by simp
  with Suc assms overlay_step [of i n m dest "\<lambda>_. c"] show ?case
    by (subst memset_from.simps) simp
qed

subsection \<open>strncpy\<close>

lemma strncpy_pad_overlay:
  "n \<le> 2 ^ 32 \<Longrightarrow> i \<le> n \<Longrightarrow> strncpy_pad m dest n i = overlay m dest i n (\<lambda>_. 0)"
proof (induction "n - i" arbitrary: m i)
  case 0
  then show ?case by (subst strncpy_pad.simps) simp
next
  case (Suc d)
  then have "i < n" by simp
  with Suc overlay_step [of i n m dest "\<lambda>_. 0"] show ?case
    by (subst strncpy_pad.simps) simp
qed

lemma overlay_ext_text:
  assumes "i < n" "n \<le> 2 ^ 32"
  shows "overlay (m(dest + of_nat i := f i)) dest (Suc i) n g = overlay m dest i n (g(i := f i))"
proof
  fix a
  show "overlay (m(dest + of_nat i := f i)) dest (Suc i) n g a = overlay m dest i n (g(i := f i)) a"
    using assms offset_eq_iff [of i a dest] by (auto simp: overlay_def Let_def)
qed

text \<open>The two loops together write the text and then zeros.\<close>

lemma strncpy_loops:
  assumes n: "n \<le> 2 ^ 32" and disj: "addr_range dest n \<inter> addr_range src n = {}"
  shows "i \<le> n \<Longrightarrow> (case strncpy_copy m dest src n i of (j, m') \<Rightarrow> strncpy_pad m' dest n j) =
    overlay m dest i n (\<lambda>k. if k < i + length (text_of (drop i (bytes_at m src n))) then m (src + of_nat k) else 0)"
proof (induction "n - i" arbitrary: m i)
  case 0
  then show ?case by (subst strncpy_copy.simps) (simp add: strncpy_pad.simps)
next
  case (Suc d)
  then have i: "i < n" by simp
  show ?case
  proof (cases "m (src + of_nat i) = 0")
    case True
    with i n show ?thesis
      by (subst strncpy_copy.simps) (auto simp: strncpy_pad_overlay drop_bytes_at overlay_def Let_def)
  next
    case False
    let ?m = "m(dest + of_nat i := m (src + of_nat i))"
    have eq: "?m (src + of_nat k) = m (src + of_nat k)" if "k < n" for k
      using disj that i addr_rangeI [of k n src] addr_rangeI [of i n dest] by auto
    have same: "bytes_at ?m src n = bytes_at m src n"
      using eq by (simp add: bytes_at_def)
    let ?t = "text_of (drop (Suc i) (bytes_at m src n))"
    have "(case strncpy_copy m dest src n i of (j, m') \<Rightarrow> strncpy_pad m' dest n j) =
        (case strncpy_copy ?m dest src n (Suc i) of (j, m') \<Rightarrow> strncpy_pad m' dest n j)"
      using False i by (subst strncpy_copy.simps) simp
    also have "\<dots> = overlay ?m dest (Suc i) n (\<lambda>k. if k < Suc i + length ?t then ?m (src + of_nat k) else 0)"
      using Suc i by (subst Suc(1)) (simp_all add: same)
    also have "\<dots> = overlay ?m dest (Suc i) n (\<lambda>k. if k < Suc i + length ?t then m (src + of_nat k) else 0)"
      using eq by (intro overlay_cong) simp
    also have "\<dots> = overlay m dest i n (\<lambda>k. if k < Suc i + length ?t then m (src + of_nat k) else 0)"
      using i n by (subst overlay_ext_text [where f = "\<lambda>k. m (src + of_nat k)"]) (auto intro!: overlay_cong)
    finally show ?thesis using False i by (simp add: drop_bytes_at)
  qed
qed

lemma strncpy_overlay:
  assumes "addr_range dest (unat count) \<inter> addr_range src (unat count) = {}"
  shows "strncpy m dest src count = overlay m dest 0 (unat count)
    (\<lambda>k. if k < length (text_of (bytes_at m src (unat count))) then m (src + of_nat k) else 0)"
proof -
  have "unat count \<le> 2 ^ 32" using unsigned_less [of count, where ?'a = nat] by simp
  from strncpy_loops [OF this assms, of 0 m] show ?thesis by (simp add: strncpy_def Let_def)
qed

lemma nth_text_of: "k < length (text_of xs) \<Longrightarrow> text_of xs ! k = xs ! k"
  by (simp add: text_of_def takeWhile_nth)

subsection \<open>Theorems\<close>

text \<open>
  \<open>strncpy\<close> between areas that do not overlap writes exactly \<open>count\<close> bytes: the source's text up to
  its zero byte (or the first \<open>count\<close> bytes when it has none there) and zeros behind it. No other
  byte changes.
\<close>

theorem strncpy_copies_text:
  assumes "addr_range dest (unat count) \<inter> addr_range src (unat count) = {}"
  shows "bytes_at (strncpy m dest src count) dest (unat count) =
      strncpy_list (unat count) (bytes_at m src (unat count)) \<and>
    (\<forall>a. a \<notin> addr_range dest (unat count) \<longrightarrow> strncpy m dest src count a = m a)"
proof
  let ?n = "unat count" and ?t = "text_of (bytes_at m src (unat count))"
  have n: "?n \<le> 2 ^ 32" using unsigned_less [of count, where ?'a = nat] by simp
  have t: "length ?t \<le> ?n" using length_text_of [of "bytes_at m src ?n"] by simp
  have "bytes_at (strncpy m dest src count) dest ?n = map (\<lambda>k. if k < length ?t then m (src + of_nat k) else 0) [0..<?n]"
    using n by (simp add: strncpy_overlay [OF assms] bytes_at_overlay)
  also have "\<dots> = ?t @ replicate (?n - length ?t) 0"
    using t by (intro nth_equalityI) (auto simp: nth_append nth_text_of)
  finally show "bytes_at (strncpy m dest src count) dest ?n = strncpy_list ?n (bytes_at m src ?n)"
    by (simp add: strncpy_list_def Let_def)
  show "\<forall>a. a \<notin> addr_range dest ?n \<longrightarrow> strncpy m dest src count a = m a"
    using n by (simp add: strncpy_overlay [OF assms] overlay_outside)
qed

definition hello_mem :: "u32 \<Rightarrow> u8" where
  "hello_mem = (\<lambda>_. 7)(0x100 := 104, 0x101 := 105, 0x102 := 0)"

lemma hello_bytes: "bytes_at hello_mem 0x100 5 = [104, 105, 0, 7, 7]"
  by (simp add: bytes_at_def hello_mem_def upt_rec)

theorem strncpy_copies_text_witness:
  "addr_range 0x200 (unat (5 :: u32)) \<inter> addr_range 0x100 (unat (5 :: u32)) = {} \<and>
   bytes_at (strncpy hello_mem 0x200 0x100 5) 0x200 5 = [104, 105, 0, 0, 0] \<and>
   strncpy hello_mem 0x200 0x100 5 0x205 = 7"
proof -
  have r: "addr_range 0x200 5 = {0x200, 0x201, 0x202, 0x203, 0x204 :: u32}"
    "addr_range 0x100 5 = {0x100, 0x101, 0x102, 0x103, 0x104 :: u32}"
    by (auto simp: addr_range_def lessThan_nat_numeral lessThan_Suc)
  then have d: "addr_range 0x200 (unat (5 :: u32)) \<inter> addr_range 0x100 (unat (5 :: u32)) = {}" by simp
  from strncpy_copies_text [OF d, of hello_mem] d r hello_bytes show ?thesis
    by (simp add: strncpy_list_def hello_mem_def numeral_3_eq_3)
qed

text \<open>
  \<open>strncmp\<close> is 0 exactly when the two arrays hold the same text within the first \<open>count\<close> bytes,
  and otherwise has the sign of the difference of the first bytes that differ; \<open>memcmp\<close> is 0 exactly
  when all \<open>count\<close> bytes agree, and returns for every size below 2 GB.
\<close>

theorem string_comparison:
  assumes "unat count < 2 ^ 31"
  shows "strncmp m l r count = strncmp_list (bytes_at m l (unat count)) (bytes_at m r (unat count)) \<and>
    (strncmp m l r count = 0 \<longleftrightarrow>
      text_of (bytes_at m l (unat count)) = text_of (bytes_at m r (unat count))) \<and>
    (\<exists>d. memcmp m l r count = Some d \<and>
      (d = 0 \<longleftrightarrow> bytes_at m l (unat count) = bytes_at m r (unat count)))"
  using assms by (simp add: strncmp_eq memcmp_eq strncmp_list_eq_0 memcmp_list_eq_0)

theorem string_comparison_witness:
  "strncmp hello_mem 0x100 0x300 5 = 97 \<and> memcmp hello_mem 0x100 0x100 5 = Some 0"
proof -
  have "bytes_at hello_mem 0x300 5 = [7, 7, 7, 7, 7]"
    by (simp add: bytes_at_def hello_mem_def upt_rec)
  then show ?thesis
    using string_comparison [of 5 hello_mem "0x100" "0x300"] string_comparison [of 5 hello_mem "0x100" "0x100"] hello_bytes
    by simp
qed

text \<open>
  \<open>memset\<close> fills exactly the given area with the low byte of its argument, and \<open>memchr\<close> returns the
  address of the first occurrence of a byte, or NULL when the area does not hold it.
\<close>

theorem memset_memchr_spec:
  assumes "unat count < 2 ^ 31"
  shows "(\<exists>m'. memset m dest ch count = Some m' \<and>
      bytes_at m' dest (unat count) = replicate (unat count) (ucast ch) \<and>
      (\<forall>a. a \<notin> addr_range dest (unat count) \<longrightarrow> m' a = m a)) \<and>
    memchr m dest ch count =
      Some (map_option (\<lambda>k. dest + of_nat k) (find (\<lambda>k. m (dest + of_nat k) = ucast ch) [0..<unat count]))"
proof
  have "memset m dest ch count = Some (overlay m dest 0 (unat count) (\<lambda>_. ucast ch))"
    using memset_from_overlay [OF assms, of 0 m dest] by (simp add: memset_def)
  then show "\<exists>m'. memset m dest ch count = Some m' \<and>
      bytes_at m' dest (unat count) = replicate (unat count) (ucast ch) \<and>
      (\<forall>a. a \<notin> addr_range dest (unat count) \<longrightarrow> m' a = m a)"
    using assms by (auto simp: bytes_at_overlay overlay_outside map_replicate_const)
  show "memchr m dest ch count =
      Some (map_option (\<lambda>k. dest + of_nat k) (find (\<lambda>k. m (dest + of_nat k) = ucast ch) [0..<unat count]))"
    using memchr_from_list [OF assms, of 0 m dest] by (simp add: memchr_def)
qed

theorem memset_memchr_spec_witness:
  "(\<exists>m'. memset hello_mem 0x100 0x141 3 = Some m' \<and> bytes_at m' 0x100 3 = [0x41, 0x41, 0x41]) \<and>
   memchr hello_mem 0x100 105 5 = Some (Some 0x101)"
proof -
  have "replicate 3 (ucast (0x141 :: i32) :: u8) = [0x41, 0x41, 0x41]" by (simp add: numeral_3_eq_3)
  moreover have "find (\<lambda>k. hello_mem (0x100 + of_nat k) = ucast (105 :: i32)) [0..<5] = Some 1"
    by (simp add: hello_mem_def upt_rec)
  ultimately show ?thesis
    using memset_memchr_spec [of 3 hello_mem "0x100" "0x141"] memset_memchr_spec [of 5 hello_mem "0x100" 105]
    by auto
qed

end
