(* ===== verification/TaskWorld.thy ===== *)
theory TaskWorld
  imports CStringProps Bwio
begin

text \<open>
  The world a user task sees: the system calls of \<^verbatim>\<open>include/sys_call.h\<close>, as the server tasks use
  them. What a call returns depends on the other tasks and on the kernel, so it is a parameter of
  the model: the field \<open>sys\<close> gives the outcome as a function of the call and of everything the task
  did before, and the field \<open>trace\<close> records what it did. A call that never returns is \<open>None\<close>. \<^verbatim>\<open>panic\<close> is a
  call like the others: the code behind it is modelled as it is written, and that the kernel stops and never comes
  back to the task is a property of the environment, \<open>panics_stop\<close>. So a panic differs from undefined
  behaviour, which is \<open>None\<close> in every environment.

  Messages are typed by the structures of the servers. The kernel delivers a message only into a
  buffer of its size (theorems \<open>message_errors\<close> and \<open>receive_mismatch_loses_sender\<close>), and
  the sizes of the structures differ, so a task never reads a message as another structure: a
  \<open>Receive\<close> of a different size returns -1 and leaves the buffer as it was, a reply of a different size
  does not wake the sender.
\<close>

subsection \<open>Messages\<close>

record name_server_msg_t =
  nsm_type :: u32
  nsm_name :: "u8 list"

record clock_server_msg_t =
  csm_type :: u32
  csm_time :: i32

record io_server_msg_t =
  ism_type :: u32
  ism_data :: "u8 list"
  ism_len :: u32

datatype message =
  NameMsg name_server_msg_t | IntMsg i32 | ClockMsg clock_server_msg_t | IoMsg io_server_msg_t |
  ByteMsg u8 | NoMsg

fun msg_size :: "message \<Rightarrow> nat" where
  "msg_size (NameMsg _) = 16"
| "msg_size (IntMsg _) = 4"
| "msg_size (ClockMsg _) = 8"
| "msg_size (IoMsg _) = 40"
| "msg_size (ByteMsg _) = 1"
| "msg_size NoMsg = 0"

subsection \<open>Calls\<close>

datatype call =
  CSend u8 message | CReceive | CReply u8 message | CCreate i32 string | CAwait u32 | CRegRead u32 |
  CPanic string

record outcome =
  o_ret :: i32
  o_from :: u8
  o_data :: message

datatype event =
  EvSend u8 message i32 "message option" | EvReceive i32 u8 message | EvReply u8 message i32 |
  EvCreate i32 string i32 | EvAwait u32 i32 | EvRegRead u32 u32 | EvRegWrite u32 u32 |
  EvPrint cstring "va_val list" | EvExit | EvPanic string

record world =
  trace :: "event list"
  sys :: "call \<Rightarrow> event list \<Rightarrow> outcome option"

definition did :: "event \<Rightarrow> world \<Rightarrow> world" where
  "did e w = w\<lparr>trace := trace w @ [e]\<rparr>"

definition Send :: "u8 \<Rightarrow> message \<Rightarrow> nat \<Rightarrow> world \<Rightarrow> (i32 \<times> message option \<times> world) option" where
  "Send tid msg rep_len w = do {
     r \<leftarrow> sys w (CSend tid msg) (trace w);
     if o_ret r \<noteq> 0 then Some (o_ret r, None, did (EvSend tid msg (o_ret r) None) w)
     else if msg_size (o_data r) = rep_len then
       Some (0, Some (o_data r), did (EvSend tid msg 0 (Some (o_data r))) w)
     else None
   }"

definition Receive :: "u8 \<Rightarrow> message \<Rightarrow> world \<Rightarrow> (i32 \<times> u8 \<times> message \<times> world) option" where
  "Receive tid msg w = do {
     r \<leftarrow> sys w CReceive (trace w);
     let (ret, tid, msg) =
       (if msg_size (o_data r) = msg_size msg then (ucast (o_from r), o_from r, o_data r)
        else (- 1, tid, msg));
     Some (ret, tid, msg, did (EvReceive ret tid msg) w)
   }"

definition Reply :: "u8 \<Rightarrow> message \<Rightarrow> world \<Rightarrow> (i32 \<times> world) option" where
  "Reply tid rep w = do {
     r \<leftarrow> sys w (CReply tid rep) (trace w);
     Some (o_ret r, did (EvReply tid rep (o_ret r)) w)
   }"

definition Create :: "i32 \<Rightarrow> string \<Rightarrow> world \<Rightarrow> (i32 \<times> world) option" where
  "Create priority code w = do {
     r \<leftarrow> sys w (CCreate priority code) (trace w);
     Some (o_ret r, did (EvCreate priority code (o_ret r)) w)
   }"

definition AwaitEvent :: "u32 \<Rightarrow> world \<Rightarrow> (i32 \<times> world) option" where
  "AwaitEvent eventid w = do {
     r \<leftarrow> sys w (CAwait eventid) (trace w);
     Some (o_ret r, did (EvAwait eventid (o_ret r)) w)
   }"

definition reg_load :: "u32 \<Rightarrow> world \<Rightarrow> (u32 \<times> world) option" where
  "reg_load a w = do {
     r \<leftarrow> sys w (CRegRead a) (trace w);
     Some (o_ret r, did (EvRegRead a (o_ret r)) w)
   }"

definition reg_store :: "u32 \<Rightarrow> u32 \<Rightarrow> world \<Rightarrow> world" where
  "reg_store a v w = did (EvRegWrite a v) w"

definition line :: "string \<Rightarrow> string" where
  "line msg = msg @ [CHR 0x0A, CHR 0x0D]"

definition say :: "string \<Rightarrow> va_val list \<Rightarrow> world \<Rightarrow> world" where
  "say fmt va w = did (EvPrint (cstr (fmt @ [CHR 0x0A, CHR 0x0D])) va) w"

definition Exit :: "world \<Rightarrow> world" where
  "Exit w = did EvExit w"

definition panic :: "string \<Rightarrow> world \<Rightarrow> world option" where
  "panic msg w = do { _ \<leftarrow> sys w (CPanic msg) (trace w); Some (did (EvPanic msg) w) }"

subsection \<open>Lemmas\<close>

lemma did_simps [simp]: "trace (did e w) = trace w @ [e]" "sys (did e w) = sys w"
  by (simp_all add: did_def)

text \<open>The environment accepts replies: what \<open>Reply\<close> returns is up to it, but the call returns.\<close>

definition replies_return :: "world \<Rightarrow> bool" where
  "replies_return w \<longleftrightarrow> (\<forall>t m h. sys w (CReply t m) h \<noteq> None)"

lemma replies_return_did [simp]: "replies_return (did e w) = replies_return w"
  by (simp add: replies_return_def)

lemma Reply_returns:
  assumes "replies_return w"
  obtains r where "Reply t m w = Some (r, did (EvReply t m r) w)"
proof -
  from assms obtain r where "sys w (CReply t m) (trace w) = Some r"
    unfolding replies_return_def by (metis option.exhaust)
  then show ?thesis by (intro that [of "o_ret r"]) (simp add: Reply_def)
qed

text \<open>
  The environment stops at a panic, as the kernel does (theorem \<open>panic_prints_and_stops\<close>); then a task that
  panics never goes on.
\<close>

definition panics_stop :: "world \<Rightarrow> bool" where
  "panics_stop w \<longleftrightarrow> (\<forall>msg h. sys w (CPanic msg) h = None)"

lemma panics_stop_did [simp]: "panics_stop (did e w) = panics_stop w"
  by (simp add: panics_stop_def)

lemma panic_stops [simp]: "panics_stop w \<Longrightarrow> panic msg w = None"
  by (simp add: panic_def panics_stop_def)

text \<open>
  \<open>calls_panic err es f w\<close>: in the world \<open>w\<close> the function \<open>f\<close> does exactly \<open>es\<close> and then panics with \<open>err\<close>. If the
  environment stops there, it does not return; if the environment comes back, it goes on, and the events are these.
\<close>

definition calls_panic :: "string \<Rightarrow> event list \<Rightarrow> (world \<Rightarrow> ('a \<times> world) option) \<Rightarrow> world \<Rightarrow> bool" where
  "calls_panic err es f w \<longleftrightarrow>
     (case sys w (CPanic err) (trace w @ es) of
        None \<Rightarrow> f w = None
      | Some _ \<Rightarrow> \<exists>r w' es'. f w = Some (r, w') \<and> trace w' = trace w @ es @ EvPanic err # es')"

lemma calls_panic_stops: "calls_panic err es f w \<Longrightarrow> panics_stop w \<Longrightarrow> f w = None"
  by (simp add: calls_panic_def panics_stop_def)

text \<open>The replies among the events, as the clients see them.\<close>

fun replies :: "event list \<Rightarrow> (u8 \<times> message) list" where
  "replies [] = []"
| "replies (EvReply t m r # es) = (t, m) # replies es"
| "replies (_ # es) = replies es"

lemma replies_append [simp]: "replies (es @ fs) = replies es @ replies fs"
  by (induction es rule: replies.induct) auto

text \<open>The number of messages received so far.\<close>

fun receives :: "event list \<Rightarrow> nat" where
  "receives [] = 0"
| "receives (EvReceive r t m # es) = Suc (receives es)"
| "receives (_ # es) = receives es"

lemma receives_append [simp]: "receives (es @ fs) = receives es + receives fs"
  by (induction es rule: receives.induct) auto

text \<open>
  \<open>advances w k out w'\<close>: between \<open>w\<close> and \<open>w'\<close> the task received \<open>k\<close> messages and sent the replies
  \<open>out\<close>; the environment is the same.
\<close>

definition advances :: "world \<Rightarrow> nat \<Rightarrow> (u8 \<times> message) list \<Rightarrow> world \<Rightarrow> bool" where
  "advances w k out w' \<longleftrightarrow> sys w' = sys w \<and> receives (trace w') = receives (trace w) + k \<and>
     replies (trace w') = replies (trace w) @ out"

lemma advances_refl [simp, intro]: "advances w 0 [] w"
  by (simp add: advances_def)

lemma advances_trans:
  "advances w k out w1 \<Longrightarrow> advances w1 l out' w2 \<Longrightarrow> advances w (k + l) (out @ out') w2"
  by (simp add: advances_def)

lemma advances_sys: "advances w k out w' \<Longrightarrow> sys w' = sys w"
  by (simp add: advances_def)

lemma advances_replies_return: "advances w k out w' \<Longrightarrow> replies_return w' = replies_return w"
  by (simp add: advances_def replies_return_def)

lemma advances_say [simp, intro]: "advances w k out w' \<Longrightarrow> advances w k out (say s va w')"
  by (simp add: advances_def say_def)

lemma Reply_advances:
  assumes "replies_return w"
  obtains r w' where "Reply t m w = Some (r, w')" "advances w 0 [(t, m)] w'"
proof -
  obtain r where "Reply t m w = Some (r, did (EvReply t m r) w)" by (rule Reply_returns [OF assms])
  then show ?thesis by (rule that) (simp add: advances_def)
qed

text \<open>The next message that the environment has for the task.\<close>

definition next_msg :: "world \<Rightarrow> u8 \<Rightarrow> message \<Rightarrow> bool" where
  "next_msg w t m \<longleftrightarrow> (\<exists>r. sys w CReceive (trace w) = Some r \<and> o_from r = t \<and> o_data r = m)"

lemma Receive_advances:
  assumes "next_msg w t m" "msg_size m = msg_size old"
  obtains w' where "Receive tid old w = Some (ucast t, t, m, w')" "advances w 1 [] w'"
  using assms
  by (intro that [of "did (EvReceive (ucast t) t m) w"]) (auto simp: Receive_def next_msg_def advances_def)

text \<open>The messages in the order of their arrival; when they are used up, the task waits forever.\<close>

definition inbox :: "world \<Rightarrow> (u8 \<times> message) list \<Rightarrow> bool" where
  "inbox w ms \<longleftrightarrow> (\<forall>h. sys w CReceive h =
     (case drop (receives h) ms of [] \<Rightarrow> None | (t, m) # _ \<Rightarrow> Some \<lparr>o_ret = 0, o_from = t, o_data = m\<rparr>))"

definition pending :: "world \<Rightarrow> (u8 \<times> message) list \<Rightarrow> bool" where
  "pending w ms \<longleftrightarrow> (\<exists>done. receives (trace w) = length done \<and> inbox w (done @ ms))"

lemma pending_next: "pending w ((t, m) # ms) \<Longrightarrow> next_msg w t m"
  by (auto simp: pending_def inbox_def next_msg_def)

lemma pending_after:
  assumes "pending w (ms @ ms')" "receives (trace w') = receives (trace w) + length ms" "sys w' = sys w"
  shows "pending w' ms'"
proof -
  from assms(1) obtain dn where "receives (trace w) = length dn" "inbox w (dn @ ms @ ms')"
    by (auto simp: pending_def)
  with assms(2,3) show ?thesis
    by (auto simp: pending_def inbox_def intro!: exI [of _ "dn @ ms"])
qed

lemma pending_advances: "pending w (ms @ ms') \<Longrightarrow> advances w (length ms) out w' \<Longrightarrow> pending w' ms'"
  by (rule pending_after) (simp_all add: advances_def)

lemma pending_quiet: "pending w ms \<Longrightarrow> advances w 0 out w' \<Longrightarrow> pending w' ms"
  using pending_advances [of w "[]" ms] by simp

text \<open>
  An environment with a given sequence of messages, in which every other call but a panic returns; a message to
  the name server is answered with 0, any other with an empty reply.
\<close>

definition scripted :: "(u8 \<times> message) list \<Rightarrow> world" where
  "scripted ms = \<lparr>trace = [], sys = (\<lambda>c h. case c of
       CReceive \<Rightarrow> (case drop (receives h) ms of [] \<Rightarrow> None
         | (t, m) # _ \<Rightarrow> Some \<lparr>o_ret = 0, o_from = t, o_data = m\<rparr>)
     | CSend t m \<Rightarrow> Some \<lparr>o_ret = 0, o_from = 0,
         o_data = (case m of NameMsg _ \<Rightarrow> IntMsg 0 | _ \<Rightarrow> NoMsg)\<rparr>
     | CPanic s \<Rightarrow> None
     | _ \<Rightarrow> Some \<lparr>o_ret = 0, o_from = 0, o_data = NoMsg\<rparr>)\<rparr>"

lemma scripted_trace [simp]: "trace (scripted ms) = []"
  by (simp add: scripted_def)

lemma scripted_replies [simp]: "replies_return (scripted ms)"
  by (simp add: scripted_def replies_return_def)

lemma scripted_pending: "pending (scripted ms) ms"
  by (auto simp: pending_def inbox_def scripted_def intro!: exI [of _ "[]"])

lemma scripted_stops [simp]: "panics_stop (scripted ms)"
  by (simp add: scripted_def panics_stop_def)

subsection \<open>Servers\<close>

text \<open>
  A specification of a server is a function from the sender, the request and the abstract state to
  the new state and the replies, in order. A run of it collects the replies; a request is
  admissible when the clients' side of the contract holds.
\<close>

type_synonym ('m, 'a) service = "u8 \<Rightarrow> 'm \<Rightarrow> 'a \<Rightarrow> 'a \<times> (u8 \<times> message) list"

fun service_run :: "('m, 'a) service \<Rightarrow> 'a \<Rightarrow> (u8 \<times> 'm) list \<Rightarrow> 'a \<times> (u8 \<times> message) list" where
  "service_run spec a [] = (a, [])"
| "service_run spec a ((t, m) # rs) =
     (let (a, out) = spec t m a; (a, outs) = service_run spec a rs in (a, out @ outs))"

fun admissible :: "('m, 'a) service \<Rightarrow> (u8 \<Rightarrow> 'm \<Rightarrow> 'a \<Rightarrow> bool) \<Rightarrow> 'a \<Rightarrow> (u8 \<times> 'm) list \<Rightarrow> bool" where
  "admissible spec ok a [] \<longleftrightarrow> True"
| "admissible spec ok a ((t, m) # rs) \<longleftrightarrow> ok t m a \<and> admissible spec ok (fst (spec t m a)) rs"

text \<open>A run that is not admissible has a first request that the contract does not allow.\<close>

lemma first_inadmissible:
  "\<not> admissible spec ok a rs \<Longrightarrow> \<exists>rs1 t m rs2. rs = rs1 @ (t, m) # rs2 \<and> admissible spec ok a rs1 \<and>
     \<not> ok t m (fst (service_run spec a rs1))"
proof (induction rs arbitrary: a)
  case (Cons r rs)
  obtain t m where r: "r = (t, m)" by fastforce
  show ?case
  proof (cases "ok t m a")
    case True
    then have "\<not> admissible spec ok (fst (spec t m a)) rs" using Cons.prems r by simp
    from Cons.IH [OF this] obtain rs1 u n rs2 where "rs = rs1 @ (u, n) # rs2"
      "admissible spec ok (fst (spec t m a)) rs1" "\<not> ok u n (fst (service_run spec (fst (spec t m a)) rs1))"
      by blast
    with True r show ?thesis
      by (intro exI [of _ "(t, m) # rs1"] exI [of _ u] exI [of _ n] exI [of _ rs2]) (simp add: split_def Let_def)
  next
    case False
    then show ?thesis using r
      by (intro exI [of _ "[]"] exI [of _ t] exI [of _ m] exI [of _ rs]) simp
  qed
qed simp

text \<open>
  A service that neither loses nor invents anything: if in every step what is sent and what is still
  held is what was held and what came in, then so it is over a run.
\<close>

lemma service_run_conserves:
  assumes step: "\<And>t m a. I a \<Longrightarrow> ok t m a \<Longrightarrow>
      I (fst (spec t m a)) \<and> sent (snd (spec t m a)) @ held (fst (spec t m a)) = held a @ got m"
    and sent: "sent [] = []" "\<And>xs ys. sent (xs @ ys) = sent xs @ sent ys"
    and start: "I a" "admissible spec ok a rs"
  shows "I (fst (service_run spec a rs)) \<and>
    sent (snd (service_run spec a rs)) @ held (fst (service_run spec a rs)) = held a @ concat (map (got \<circ> snd) rs)"
  using start
proof (induction rs arbitrary: a)
  case Nil
  then show ?case using sent(1) by simp
next
  case (Cons r rs)
  obtain t m where r: "r = (t, m)" by fastforce
  then have "ok t m a" "admissible spec ok (fst (spec t m a)) rs" using Cons.prems(2) by simp_all
  with step [OF Cons.prems(1)] Cons.IH [of "fst (spec t m a)"] r sent(2) show ?case
    by (auto simp: split_def Let_def)
qed

text \<open>
  The shape that the servers share: a loop that receives a request, acts on it and ends after
  an exit message. When one pass implements the specification, the loop implements its run.
\<close>

locale message_server =
  fixes body :: "'s \<Rightarrow> world \<Rightarrow> ('s \<times> world) option"
    and loop :: "'s \<Rightarrow> world \<Rightarrow> ('s \<times> world) option"
    and stops :: "'s \<Rightarrow> bool"
    and request :: "'s \<Rightarrow> u8 \<times> 'm"
    and wrap :: "'m \<Rightarrow> message"
    and is_exit :: "'m \<Rightarrow> bool"
    and rep :: "'s \<Rightarrow> 'a \<Rightarrow> bool"
    and ok :: "u8 \<Rightarrow> 'm \<Rightarrow> 'a \<Rightarrow> bool"
    and spec :: "('m, 'a) service"
  assumes loop_law: "loop st w = do { (st, w) \<leftarrow> body st w; if stops st then Some (st, w) else loop st w }"
    and step_law: "rep st a \<Longrightarrow> replies_return w \<Longrightarrow> next_msg w t (wrap m) \<Longrightarrow> ok t m a \<Longrightarrow>
      \<exists>st' w'. body st w = Some (st', w') \<and> rep st' (fst (spec t m a)) \<and>
        advances w 1 (snd (spec t m a)) w' \<and> stops st' = is_exit m \<and> (is_exit m \<longrightarrow> request st' = (t, m))"
begin

lemma loop_step:
  assumes "rep st a" "replies_return w" "pending w ((t, wrap m) # ms)" "ok t m a"
  obtains st' w' where "loop st w = (if is_exit m then Some (st', w') else loop st' w')"
    "rep st' (fst (spec t m a))" "advances w 1 (snd (spec t m a)) w'" "is_exit m \<longrightarrow> request st' = (t, m)"
    "replies_return w'" "pending w' ms"
proof -
  obtain st' w' where *: "body st w = Some (st', w')" "rep st' (fst (spec t m a))"
    "advances w 1 (snd (spec t m a)) w'" "stops st' = is_exit m" "is_exit m \<longrightarrow> request st' = (t, m)"
    using step_law [OF assms(1,2) pending_next [OF assms(3)] assms(4)] by blast
  have "loop st w = (if is_exit m then Some (st', w') else loop st' w')"
    using *(1,4) by (subst loop_law) simp
  moreover have "pending w' ms" using pending_advances [of w "[(t, wrap m)]" ms] assms(3) *(3) by simp
  ultimately show ?thesis
    using that * assms(2) advances_replies_return [OF *(3)] by blast
qed

text \<open>The loop gets through admissible requests, also when what follows them is not known.\<close>

lemma loop_passes:
  assumes "rep st a" "replies_return w" "pending w (map (apsnd wrap) rs @ ms)"
    "\<forall>(t, m)\<in>set rs. \<not> is_exit m" "admissible spec ok a rs"
  shows "\<exists>st' w'. loop st w = loop st' w' \<and> rep st' (fst (service_run spec a rs)) \<and>
    advances w (length rs) (snd (service_run spec a rs)) w' \<and> replies_return w' \<and> pending w' ms"
  using assms
proof (induction rs arbitrary: st a w)
  case Nil
  then show ?case by auto
next
  case (Cons r rs)
  obtain u m where r: "r = (u, m)" by fastforce
  have p: "pending w ((u, wrap m) # map (apsnd wrap) rs @ ms)" "ok u m a" "\<not> is_exit m"
    using Cons.prems(3-5) r by auto
  from Cons.prems(1,2) p(1,2) obtain st1 w1 where 1: "loop st w = (if is_exit m then Some (st1, w1) else loop st1 w1)"
    "rep st1 (fst (spec u m a))" "advances w 1 (snd (spec u m a)) w1" "replies_return w1"
    "pending w1 (map (apsnd wrap) rs @ ms)"
    by (rule loop_step)
  have "\<forall>(t, m)\<in>set rs. \<not> is_exit m" "admissible spec ok (fst (spec u m a)) rs"
    using Cons.prems(4,5) r by auto
  from Cons.IH [OF 1(2,4,5) this] obtain st' w' where 2: "loop st1 w1 = loop st' w'"
    "rep st' (fst (service_run spec (fst (spec u m a)) rs))"
    "advances w1 (length rs) (snd (service_run spec (fst (spec u m a)) rs)) w'" "replies_return w'" "pending w' ms"
    by blast
  then show ?case
    using 1(1) p(3) r advances_trans [OF 1(3) 2(3)] by (auto simp: split_def Let_def)
qed

lemma loop_run:
  assumes "rep st a" "replies_return w" "pending w (map (apsnd wrap) (rs @ [(t, x)]) @ ms)"
    "\<forall>(t, m)\<in>set rs. \<not> is_exit m" "is_exit x" "admissible spec ok a (rs @ [(t, x)])"
  shows "\<exists>st' w'. loop st w = Some (st', w') \<and> rep st' (fst (service_run spec a (rs @ [(t, x)]))) \<and>
    advances w (Suc (length rs)) (snd (service_run spec a (rs @ [(t, x)]))) w' \<and> request st' = (t, x)"
  using assms(1-4,6)
proof (induction rs arbitrary: st a w)
  case Nil
  then have "pending w ((t, wrap x) # ms)" "ok t x a" by simp_all
  with Nil.prems(1,2) obtain st' w' where "loop st w = (if is_exit x then Some (st', w') else loop st' w')"
    "rep st' (fst (spec t x a))" "advances w 1 (snd (spec t x a)) w'" "is_exit x \<longrightarrow> request st' = (t, x)"
    by (rule loop_step)
  then show ?case using assms(5) by (auto simp: split_def Let_def)
next
  case (Cons r rs)
  obtain u m where r: "r = (u, m)" by fastforce
  have p: "pending w ((u, wrap m) # map (apsnd wrap) (rs @ [(t, x)]) @ ms)" "ok u m a" "\<not> is_exit m"
    using Cons.prems(3-5) r by auto
  from Cons.prems(1,2) p(1,2) obtain st1 w1 where 1: "loop st w = (if is_exit m then Some (st1, w1) else loop st1 w1)"
    "rep st1 (fst (spec u m a))" "advances w 1 (snd (spec u m a)) w1" "replies_return w1"
    "pending w1 (map (apsnd wrap) (rs @ [(t, x)]) @ ms)"
    by (rule loop_step)
  have "\<forall>(t, m)\<in>set rs. \<not> is_exit m" "admissible spec ok (fst (spec u m a)) (rs @ [(t, x)])"
    using Cons.prems(4,5) r by auto
  from Cons.IH [OF 1(2,4,5) this] obtain st' w' where 2: "loop st1 w1 = Some (st', w')"
    "rep st' (fst (service_run spec (fst (spec u m a)) (rs @ [(t, x)])))"
    "advances w1 (Suc (length rs)) (snd (service_run spec (fst (spec u m a)) (rs @ [(t, x)]))) w'"
    "request st' = (t, x)"
    by blast
  then show ?case
    using 1(1) p(3) r advances_trans [OF 1(3) 2(3)] by (auto simp: split_def Let_def)
qed

end

end
