(* ===== verification/NameServer.thy ===== *)
theory NameServer
  imports TaskWorld Queue
begin

text \<open>
  The name server, \<^verbatim>\<open>src/name_server/name_server.c\<close>: the map from names to task ids, kept as a
  linked list of entries with the newest first, the server's loop, and the calls of its clients.
  A name is an array of 12 bytes; what counts of it is its text (\<open>text_of\<close>). \<open>nm_rep\<close> relates the
  map to the list of its entries, and \<open>names\<close> is the finite map it stands for.
\<close>

subsection \<open>Data\<close>

definition NAME_SERVER_MAX_NAMES :: nat where
  "NAME_SERVER_MAX_NAMES = 256"

definition NAME_SERVER_MAX_NAME_LEN :: nat where
  "NAME_SERVER_MAX_NAME_LEN = 12"

definition NAME_SERVER_INVALID_TID :: i32 where
  "NAME_SERVER_INVALID_TID = - 1"

definition NAME_SERVER_OTHER_ERROR :: i32 where
  "NAME_SERVER_OTHER_ERROR = - 2"

definition NAME_SERVER_TID :: u8 where
  "NAME_SERVER_TID = 2"

definition NAME_SERVER_MSG_TYPE_REG :: u32 where
  "NAME_SERVER_MSG_TYPE_REG = 0"

definition NAME_SERVER_MSG_TYPE_WHO :: u32 where
  "NAME_SERVER_MSG_TYPE_WHO = 1"

definition NAME_SERVER_MSG_TYPE_EXIT :: u32 where
  "NAME_SERVER_MSG_TYPE_EXIT = 2"

lemmas name_type_defs = NAME_SERVER_MSG_TYPE_REG_def NAME_SERVER_MSG_TYPE_WHO_def
  NAME_SERVER_MSG_TYPE_EXIT_def

record name_map_entry_t =
  ne_name :: "u8 list"
  ne_tid :: u8

record name_map_t =
  nm_queue :: "nat queue_t"
  nm_nodes :: "(nat, nat) node_heap"
  nm_node_data :: "name_map_entry_t list"

subsection \<open>Client calls\<close>

definition name_server_msg_init :: "u32 \<Rightarrow> u8 list \<Rightarrow> name_server_msg_t" where
  "name_server_msg_init type name =
     \<lparr>nsm_type = type, nsm_name = strncpy_list NAME_SERVER_MAX_NAME_LEN name\<rparr>"

definition name_error :: "i32 \<Rightarrow> i32" where
  "name_error res = (if res = - 1 then NAME_SERVER_INVALID_TID else NAME_SERVER_OTHER_ERROR)"

definition RegisterAs :: "u8 list \<Rightarrow> world \<Rightarrow> (i32 \<times> world) option" where
  "RegisterAs name w = do {
     let msg = name_server_msg_init NAME_SERVER_MSG_TYPE_REG name;
     (res, rep, w) \<leftarrow> Send NAME_SERVER_TID (NameMsg msg) 4 w;
     if res \<noteq> 0 then Some (name_error res, say ''Unable to register with name_server'' [] w)
     else Some (0, w)
   }"

partial_function (option) whois_loop :: "name_server_msg_t \<Rightarrow> world \<Rightarrow> (i32 \<times> world) option" where
  "whois_loop msg w = do {
     (res, rep, w) \<leftarrow> Send NAME_SERVER_TID (NameMsg msg) 4 w;
     if res \<noteq> 0 then Some (name_error res, say ''Unable to register with name_server'' [] w)
     else (case rep of
         Some (IntMsg rep) \<Rightarrow> if rep = 1 then whois_loop msg w else Some (rep, w)
       | _ \<Rightarrow> None)
   }"

definition WhoIs :: "u8 list \<Rightarrow> world \<Rightarrow> (i32 \<times> world) option" where
  "WhoIs name w = whois_loop (name_server_msg_init NAME_SERVER_MSG_TYPE_WHO name) w"

definition name_server_exit :: "u8 list \<Rightarrow> world \<Rightarrow> world option" where
  "name_server_exit garbage w = do {
     let msg = \<lparr>nsm_type = NAME_SERVER_MSG_TYPE_EXIT, nsm_name = garbage\<rparr>;
     (res, reply, w) \<leftarrow> Send NAME_SERVER_TID (NameMsg msg) 16 w;
     Some (if res \<noteq> 0 then say ''Error shutting down name server'' [] w else w)
   }"

subsection \<open>The map\<close>

definition name_map_entry_init :: "name_map_entry_t \<Rightarrow> name_map_entry_t" where
  "name_map_entry_init e = e\<lparr>ne_name := (ne_name e)[0 := 0], ne_tid := 0\<rparr>"

definition name_map_init :: "name_map_t \<Rightarrow> name_map_t" where
  "name_map_init ctx =
     fold (\<lambda>i ctx. ctx\<lparr>nm_node_data := (nm_node_data ctx)[i := name_map_entry_init (nm_node_data ctx ! i)],
             nm_nodes := queue_node_init i (Some i) (nm_nodes ctx)\<rparr>)
       [0..<NAME_SERVER_MAX_NAMES] (ctx\<lparr>nm_queue := queue_init\<rparr>)"

definition name_map_insert :: "u8 list \<Rightarrow> u8 \<Rightarrow> name_map_t \<Rightarrow> (u8 \<times> name_map_t) option" where
  "name_map_insert name tid ctx = do {
     let new_node = unat (queue_size (nm_queue ctx));
     new_entry \<leftarrow> (if new_node < NAME_SERVER_MAX_NAMES then qn_data (nm_nodes ctx new_node) else None);
     e \<leftarrow> arr_get (nm_node_data ctx) new_entry;
     let e = e\<lparr>ne_name := strncpy_list NAME_SERVER_MAX_NAME_LEN name\<rparr>;
     let e = e\<lparr>ne_tid := tid\<rparr>;
     let ctx = ctx\<lparr>nm_node_data := (nm_node_data ctx)[new_entry := e]\<rparr>;
     (err, q, h) \<leftarrow> queue_put_front (nm_queue ctx) (nm_nodes ctx) (Some new_node);
     Some (err, ctx\<lparr>nm_queue := q, nm_nodes := h\<rparr>)
   }"

text \<open>The search follows the links from \<open>next_node\<close>; the result is the entry found.\<close>

partial_function (option) find_from ::
  "name_map_t \<Rightarrow> u8 list \<Rightarrow> nat option \<Rightarrow> name_map_entry_t option option"
where
  "find_from ctx name next_node =
     (case next_node of
        None \<Rightarrow> Some None
      | Some n \<Rightarrow> do {
          i \<leftarrow> qn_data (nm_nodes ctx n);
          entry \<leftarrow> arr_get (nm_node_data ctx) i;
          if strncmp_list (take NAME_SERVER_MAX_NAME_LEN (ne_name entry))
               (take NAME_SERVER_MAX_NAME_LEN name) = 0
          then Some (Some entry)
          else find_from ctx name (qn_next (nm_nodes ctx n))
        })"

definition name_map_find :: "name_map_t \<Rightarrow> u8 list \<Rightarrow> name_map_entry_t option option" where
  "name_map_find ctx name = find_from ctx name (front (nm_queue ctx))"

subsection \<open>The server\<close>

record name_server_state =
  ns_nm :: name_map_t
  ns_msg :: name_server_msg_t
  ns_sender_tid :: u8

text \<open>One pass of the loop body; \<open>continue\<close> goes on with the test of the message type.\<close>

definition name_server_reply :: "i32 \<Rightarrow> name_server_state \<Rightarrow> world \<Rightarrow> (name_server_state \<times> world) option" where
  "name_server_reply rep st w = do {
     (ret, w) \<leftarrow> Reply (ns_sender_tid st) (IntMsg rep) w;
     Some (st, if ret \<noteq> 0
       then say ''Name server reply error, tid:%d might be blocked'' [VaWord (ucast (ns_sender_tid st))] w
       else w)
   }"

definition name_server_body :: "name_server_state \<Rightarrow> world \<Rightarrow> (name_server_state \<times> world) option" where
  "name_server_body st w = do {
     (ret, tid, m, w) \<leftarrow> Receive (ns_sender_tid st) (NameMsg (ns_msg st)) w;
     msg \<leftarrow> (case m of NameMsg msg \<Rightarrow> Some msg | _ \<Rightarrow> None);
     let st = st\<lparr>ns_sender_tid := tid, ns_msg := msg\<rparr>;
     if sint ret < 0 then Some (st, say ''Name server Receive failed: %d'' [VaWord ret] w)
     else if nsm_type msg = NAME_SERVER_MSG_TYPE_REG then do {
       (rep, nm) \<leftarrow> name_map_insert (nsm_name msg) tid (ns_nm st);
       name_server_reply (ucast rep) (st\<lparr>ns_nm := nm\<rparr>) w
     }
     else if nsm_type msg = NAME_SERVER_MSG_TYPE_WHO then do {
       entry \<leftarrow> name_map_find (ns_nm st) (nsm_name msg);
       name_server_reply (case entry of None \<Rightarrow> 1 | Some e \<Rightarrow> ucast (ne_tid e)) st w
     }
     else Some (st, w)
   }"

partial_function (option) name_server_loop ::
  "name_server_state \<Rightarrow> world \<Rightarrow> (name_server_state \<times> world) option"
where
  "name_server_loop st w = do {
     (st, w) \<leftarrow> name_server_body st w;
     if nsm_type (ns_msg st) \<noteq> NAME_SERVER_MSG_TYPE_EXIT then name_server_loop st w else Some (st, w)
   }"

definition name_server_main :: "name_map_t \<Rightarrow> name_server_msg_t \<Rightarrow> world \<Rightarrow> world option" where
  "name_server_main nm msg w = do {
     let st = \<lparr>ns_nm = name_map_init nm, ns_msg = msg, ns_sender_tid = 0\<rparr>;
     (st, w) \<leftarrow> name_server_loop st w;
     let msg = (ns_msg st)\<lparr>nsm_type := NAME_SERVER_MSG_TYPE_EXIT\<rparr>;
     let w = say ''Name server shutting down'' [] w;
     (_, w) \<leftarrow> Reply (ns_sender_tid st) (NameMsg msg) w;
     Some (Exit w)
   }"

subsection \<open>The abstract map\<close>

definition entry_key :: "name_map_entry_t \<Rightarrow> u8 list \<times> u8" where
  "entry_key e = (text_of (ne_name e), ne_tid e)"

definition nm_rep :: "name_map_t \<Rightarrow> (u8 list \<times> u8) list \<Rightarrow> bool" where
  "nm_rep nm xs \<longleftrightarrow>
     length (nm_node_data nm) = 256 \<and> length xs \<le> 256 \<and>
     (\<forall>n<256. qn_data (nm_nodes nm n) = Some n) \<and>
     queue_rep (nm_nodes nm) (nm_queue nm) (rev [0..<length xs]) \<and>
     (\<forall>n<length xs. length (ne_name (nm_node_data nm ! n)) = 12) \<and>
     xs = map (\<lambda>n. entry_key (nm_node_data nm ! n)) (rev [0..<length xs])"

text \<open>Registering a name maps it to the caller; looking it up gives the latest registration.\<close>

definition key :: "u8 list \<Rightarrow> u8 list" where
  "key name = text_of (take 12 name)"

lemma name_map_init_fold:
  assumes "length (nm_node_data ctx) = 256" "k \<le> 256"
  shows "let r = fold (\<lambda>i ctx. ctx\<lparr>nm_node_data := (nm_node_data ctx)[i := name_map_entry_init (nm_node_data ctx ! i)],
             nm_nodes := queue_node_init i (Some i) (nm_nodes ctx)\<rparr>) [0..<k] ctx
    in length (nm_node_data r) = 256 \<and> nm_queue r = nm_queue ctx \<and> (\<forall>n<k. qn_data (nm_nodes r n) = Some n)"
  using assms(2)
proof (induction k)
  case 0
  then show ?case using assms(1) by simp
next
  case (Suc k)
  then show ?case by (auto simp: Let_def queue_node_init_def less_Suc_eq)
qed

lemma name_map_init_rep: "length (nm_node_data nm) = 256 \<Longrightarrow> nm_rep (name_map_init nm) []"
  using name_map_init_fold [of "nm\<lparr>nm_queue := queue_init\<rparr>" 256]
  by (simp add: nm_rep_def name_map_init_def NAME_SERVER_MAX_NAMES_def Let_def)

lemma nm_rep_size: "nm_rep nm xs \<Longrightarrow> unat (queue_size (nm_queue nm)) = length xs"
  by (simp add: nm_rep_def queue_rep_def chain_rep_def queue_size_def)

lemma name_map_insert_rep:
  assumes rep: "nm_rep nm xs" and room: "length xs < 256"
  obtains nm' where "name_map_insert name tid nm = Some (0, nm')" "nm_rep nm' ((key name, tid) # xs)"
proof -
  let ?k = "length xs"
  have r: "length (nm_node_data nm) = 256" "\<And>n. n < 256 \<Longrightarrow> qn_data (nm_nodes nm n) = Some n"
    "queue_rep (nm_nodes nm) (nm_queue nm) (rev [0..<?k])"
    "\<And>n. n < ?k \<Longrightarrow> length (ne_name (nm_node_data nm ! n)) = 12"
    "map (\<lambda>n. entry_key (nm_node_data nm ! n)) (rev [0..<?k]) = xs"
    using rep by (auto simp: nm_rep_def)
  obtain q h where put: "queue_put_front (nm_queue nm) (nm_nodes nm) (Some ?k) = Some (0, q, h)"
    "queue_rep h q (?k # rev [0..<?k])" and lw: "links_within {?k} (nm_nodes nm) h"
    using queue_put_front_rep [OF r(3), of ?k] room by auto
  let ?e = "(nm_node_data nm ! ?k)\<lparr>ne_name := strncpy_list 12 name, ne_tid := tid\<rparr>"
  let ?nm = "nm\<lparr>nm_node_data := (nm_node_data nm)[?k := ?e], nm_queue := q, nm_nodes := h\<rparr>"
  have "name_map_insert name tid nm = Some (0, ?nm)"
    using put(1) r(1,2) room nm_rep_size [OF rep]
    by (simp add: name_map_insert_def NAME_SERVER_MAX_NAMES_def NAME_SERVER_MAX_NAME_LEN_def Let_def)
  moreover have "nm_rep ?nm ((key name, tid) # xs)"
  proof -
    have "map (\<lambda>n. entry_key ((nm_node_data nm)[?k := ?e] ! n)) (rev [0..<?k]) =
        map (\<lambda>n. entry_key (nm_node_data nm ! n)) (rev [0..<?k])"
      by (intro map_cong) auto
    also note r(5)
    finally have "map (\<lambda>n. entry_key ((nm_node_data nm)[?k := ?e] ! n)) (rev [0..<?k]) = xs" .
    moreover have "entry_key ?e = (key name, tid)"
      by (simp add: entry_key_def key_def text_of_strncpy)
    moreover have "qn_data (h n) = Some n" if "n < 256" for n
      using r(2) [OF that] links_within_data [OF lw] by simp
    ultimately show ?thesis
      using put(2) r(1,4) room by (auto simp: nm_rep_def less_Suc_eq)
  qed
  ultimately show ?thesis by (rule that)
qed

lemma find_from_linked:
  assumes "linked (nm_nodes nm) p ns" "\<forall>n\<in>set ns. n < 256" "length (nm_node_data nm) = 256"
    "\<forall>n<256. qn_data (nm_nodes nm n) = Some n"
    "\<forall>n\<in>set ns. length (ne_name (nm_node_data nm ! n)) = 12" "12 \<le> length name"
  shows "find_from nm name p =
    Some (find (\<lambda>e. text_of (ne_name e) = key name) (map (\<lambda>n. nm_node_data nm ! n) ns))"
  using assms(1,2,5)
proof (induction ns arbitrary: p)
  case Nil
  then show ?case by (subst find_from.simps) simp
next
  case (Cons n ns)
  have "strncmp_list (take 12 (ne_name (nm_node_data nm ! n))) (take 12 name) = 0 \<longleftrightarrow>
      text_of (ne_name (nm_node_data nm ! n)) = key name"
    using Cons.prems(3) assms(6) by (simp add: strncmp_list_eq_0 key_def)
  with Cons assms(3,4) show ?case
    by (subst find_from.simps) (simp add: NAME_SERVER_MAX_NAME_LEN_def)
qed

lemma find_entry_map_of:
  "map_option ne_tid (find (\<lambda>e. text_of (ne_name e) = k) es) = map_of (map entry_key es) k"
  by (induction es) (auto simp: entry_key_def)

lemma name_map_find_rep:
  assumes rep: "nm_rep nm xs" and "12 \<le> length name"
  shows "\<exists>r. name_map_find nm name = Some r \<and> map_option ne_tid r = map_of xs (key name)"
proof -
  let ?ns = "rev [0..<length xs]"
  have r: "length (nm_node_data nm) = 256" "length xs \<le> 256" "\<forall>n<256. qn_data (nm_nodes nm n) = Some n"
    "linked (nm_nodes nm) (front (nm_queue nm)) ?ns" "\<forall>n\<in>set ?ns. length (ne_name (nm_node_data nm ! n)) = 12"
    "map (\<lambda>n. entry_key (nm_node_data nm ! n)) ?ns = xs"
    using rep by (auto simp: nm_rep_def queue_rep_def chain_rep_def)
  have "name_map_find nm name =
      Some (find (\<lambda>e. text_of (ne_name e) = key name) (map (\<lambda>n. nm_node_data nm ! n) ?ns))"
    unfolding name_map_find_def using r(1-5) assms(2) by (intro find_from_linked) auto
  moreover have "map entry_key (map (\<lambda>n. nm_node_data nm ! n) ?ns) = xs"
    using r(6) by (simp add: comp_def)
  ultimately show ?thesis using find_entry_map_of by metis
qed

subsection \<open>The abstract service\<close>

text \<open>
  What the server promises for one request of task \<open>t\<close>, on the map \<open>N\<close> after \<open>k\<close> registrations: a
  registration maps the name to \<open>t\<close> and is answered with 0, a query is answered with the task id, or
  with 1 when nobody has the name, and any other message is not answered. Its clients have
  to send names of 12 bytes and to register at most 256 times.
\<close>

type_synonym name_service_state = "(u8 list \<rightharpoonup> u8) \<times> nat"

definition ns_spec :: "(name_server_msg_t, name_service_state) service" where
  "ns_spec t msg S =
     (let (N, k) = S
      in if nsm_type msg = NAME_SERVER_MSG_TYPE_REG
         then ((N(key (nsm_name msg) \<mapsto> t), Suc k), [(t, IntMsg 0)])
         else if nsm_type msg = NAME_SERVER_MSG_TYPE_WHO
         then (S, [(t, IntMsg (case N (key (nsm_name msg)) of None \<Rightarrow> 1 | Some u \<Rightarrow> ucast u))])
         else (S, []))"

definition ns_ok :: "u8 \<Rightarrow> name_server_msg_t \<Rightarrow> name_service_state \<Rightarrow> bool" where
  "ns_ok t msg S \<longleftrightarrow> length (nsm_name msg) = 12 \<and> (nsm_type msg = NAME_SERVER_MSG_TYPE_REG \<longrightarrow> snd S < 256)"

definition ns_rep :: "name_server_state \<Rightarrow> name_service_state \<Rightarrow> bool" where
  "ns_rep st S \<longleftrightarrow> (\<exists>xs. nm_rep (ns_nm st) xs \<and> S = (map_of xs, length xs))"

lemma ucast_byte_nonneg: "\<not> sint (ucast (t :: u8) :: i32) < 0"
  by (simp add: signed_ucast_eq bit_uint_iff)

lemma name_server_reply_advances:
  assumes "replies_return w"
  obtains w' where "name_server_reply rep st w = Some (st, w')"
    "advances w 0 [(ns_sender_tid st, IntMsg rep)] w'"
proof -
  obtain r w1 where "Reply (ns_sender_tid st) (IntMsg rep) w = Some (r, w1)"
    "advances w 0 [(ns_sender_tid st, IntMsg rep)] w1"
    by (rule Reply_advances [OF assms])
  then show ?thesis
    by (intro that [of "if r \<noteq> 0 then say ''Name server reply error, tid:%d might be blocked''
          [VaWord (ucast (ns_sender_tid st))] w1 else w1"]) (auto simp: name_server_reply_def)
qed

lemma name_server_body_step:
  assumes rep: "ns_rep st S" and ret: "replies_return w" and nxt: "next_msg w t (NameMsg msg)"
    and ok: "ns_ok t msg S"
  shows "\<exists>st' w'. name_server_body st w = Some (st', w') \<and> ns_rep st' (fst (ns_spec t msg S)) \<and>
    advances w 1 (snd (ns_spec t msg S)) w' \<and> ns_msg st' = msg \<and> ns_sender_tid st' = t"
proof -
  obtain xs where xs: "nm_rep (ns_nm st) xs" "S = (map_of xs, length xs)" using rep by (auto simp: ns_rep_def)
  let ?st = "st\<lparr>ns_sender_tid := t, ns_msg := msg\<rparr>"
  obtain w1 where rcv: "Receive (ns_sender_tid st) (NameMsg (ns_msg st)) w = Some (ucast t, t, NameMsg msg, w1)"
    and a1: "advances w 1 [] w1"
    by (rule Receive_advances [OF nxt, of "NameMsg (ns_msg st)"]) simp_all
  have ret1: "replies_return w1" using ret advances_replies_return [OF a1] by simp
  note body = name_server_body_def [of st w]
  consider (reg) "nsm_type msg = NAME_SERVER_MSG_TYPE_REG"
    | (who) "nsm_type msg = NAME_SERVER_MSG_TYPE_WHO"
    | (other) "nsm_type msg \<noteq> NAME_SERVER_MSG_TYPE_REG" "nsm_type msg \<noteq> NAME_SERVER_MSG_TYPE_WHO"
    by blast
  then show ?thesis
  proof cases
    case reg
    then have "length xs < 256" using ok xs(2) by (simp add: ns_ok_def)
    with xs(1) obtain nm where nm: "name_map_insert (nsm_name msg) t (ns_nm st) = Some (0, nm)"
      "nm_rep nm ((key (nsm_name msg), t) # xs)"
      by (rule name_map_insert_rep)
    obtain w' where w': "name_server_reply 0 (?st\<lparr>ns_nm := nm\<rparr>) w1 = Some (?st\<lparr>ns_nm := nm\<rparr>, w')"
      "advances w1 0 [(ns_sender_tid (?st\<lparr>ns_nm := nm\<rparr>), IntMsg 0)] w'"
      by (rule name_server_reply_advances [OF ret1])
    have "name_server_body st w = Some (?st\<lparr>ns_nm := nm\<rparr>, w')"
      using reg nm(1) w'(1) rcv ucast_byte_nonneg [of t] by (simp add: body)
    moreover have "ns_rep (?st\<lparr>ns_nm := nm\<rparr>) (fst (ns_spec t msg S))"
      using reg nm(2) xs(2) by (auto simp: ns_rep_def ns_spec_def intro: exI [of _ "(key (nsm_name msg), t) # xs"])
    ultimately show ?thesis
      using reg xs(2) advances_trans [OF a1 w'(2)] by (simp add: ns_spec_def)
  next
    case who
    obtain r where r: "name_map_find (ns_nm st) (nsm_name msg) = Some r"
      "map_option ne_tid r = map_of xs (key (nsm_name msg))"
      using name_map_find_rep [OF xs(1), of "nsm_name msg"] ok by (auto simp: ns_ok_def)
    let ?v = "(case r of None \<Rightarrow> 1 | Some e \<Rightarrow> ucast (ne_tid e)) :: i32"
    obtain w' where w': "name_server_reply ?v ?st w1 = Some (?st, w')"
      "advances w1 0 [(ns_sender_tid ?st, IntMsg ?v)] w'"
      by (rule name_server_reply_advances [OF ret1])
    have "name_server_body st w = Some (?st, w')"
      using who r(1) w'(1) rcv ucast_byte_nonneg [of t] by (simp add: body name_type_defs)
    moreover have "?v = (case map_of xs (key (nsm_name msg)) of None \<Rightarrow> 1 | Some u \<Rightarrow> ucast u)"
      using r(2) [symmetric] by (cases r) simp_all
    ultimately show ?thesis
      using who xs advances_trans [OF a1 w'(2)] by (auto simp: ns_rep_def ns_spec_def name_type_defs)
  next
    case other
    then have "name_server_body st w = Some (?st, w1)"
      using rcv ucast_byte_nonneg [of t] by (simp add: body)
    with other xs a1 show ?thesis by (auto simp: ns_spec_def ns_rep_def)
  qed
qed

abbreviation name_is_exit :: "name_server_msg_t \<Rightarrow> bool" where
  "name_is_exit msg \<equiv> nsm_type msg = NAME_SERVER_MSG_TYPE_EXIT"

interpretation name_service: message_server name_server_body name_server_loop
    "\<lambda>st. name_is_exit (ns_msg st)" "\<lambda>st. (ns_sender_tid st, ns_msg st)" NameMsg name_is_exit
    ns_rep ns_ok ns_spec
proof
  fix st w
  show "name_server_loop st w = do {
      (st, w) \<leftarrow> name_server_body st w;
      if name_is_exit (ns_msg st) then Some (st, w) else name_server_loop st w
    }"
    by (subst name_server_loop.simps) (auto intro!: Option.bind_cong)
next
  fix st a w t m
  assume "ns_rep st a" "replies_return w" "next_msg w t (NameMsg m)" "ns_ok t m a"
  from name_server_body_step [OF this]
  show "\<exists>st' w'. name_server_body st w = Some (st', w') \<and> ns_rep st' (fst (ns_spec t m a)) \<and>
      advances w 1 (snd (ns_spec t m a)) w' \<and> name_is_exit (ns_msg st') = name_is_exit m \<and>
      (name_is_exit m \<longrightarrow> (ns_sender_tid st', ns_msg st') = (t, m))"
    by auto
qed

definition registrations :: "(u8 \<times> name_server_msg_t) list \<Rightarrow> nat" where
  "registrations rs = length (filter (\<lambda>(t, m). nsm_type m = NAME_SERVER_MSG_TYPE_REG) rs)"

lemma names_admissible:
  "\<forall>(t, m)\<in>set rs. length (nsm_name m) = 12 \<Longrightarrow> snd S + registrations rs \<le> 256 \<Longrightarrow>
     admissible ns_spec ns_ok S rs"
proof (induction rs arbitrary: S)
  case (Cons r rs)
  obtain t m where r: "r = (t, m)" by fastforce
  have "snd (fst (ns_spec t m S)) + registrations rs \<le> 256"
    using Cons.prems(2) r by (auto simp: ns_spec_def registrations_def split_def)
  with Cons r show ?case by (auto simp: ns_ok_def registrations_def)
qed simp

lemma exit_unanswered: "name_is_exit x \<Longrightarrow> snd (service_run ns_spec S (rs @ [(e, x)])) = snd (service_run ns_spec S rs)"
proof (induction rs arbitrary: S)
  case Nil
  then show ?case by (simp add: ns_spec_def name_type_defs split_def Let_def)
next
  case (Cons r rs)
  then show ?case by (cases r) (simp add: split_def Let_def)
qed

subsection \<open>Theorems\<close>

text \<open>
  C22: The name server implements the abstract name service: on every sequence of requests with at
  most 256 registrations in total, it answers exactly as a map from names to task ids in which a
  registration overwrites the previous one, names being compared up to their first zero byte and
  at most 12 bytes. When the exit message comes, the loop ends, the exit message is sent back to its
  sender and the task exits; nothing before it stops the server.
\<close>

theorem name_server_refines:
  assumes "length (nm_node_data nm) = 256" and "replies_return w"
    and "pending w (map (apsnd NameMsg) (rs @ [(e, x)]) @ ms)"
    and "\<forall>(t, m)\<in>set rs. \<not> name_is_exit m" and "name_is_exit x"
    and "\<forall>(t, m)\<in>set (rs @ [(e, x)]). length (nsm_name m) = 12" and "registrations rs \<le> 256"
  shows "\<exists>w'. name_server_main nm msg w = Some (Exit w') \<and>
    replies (trace w') =
      replies (trace w) @ snd (service_run ns_spec (Map.empty, 0) rs) @ [(e, NameMsg x)]"
proof -
  let ?st = "\<lparr>ns_nm = name_map_init nm, ns_msg = msg, ns_sender_tid = 0\<rparr>"
  have "ns_rep ?st (Map.empty, 0)" using name_map_init_rep [OF assms(1)] by (auto simp: ns_rep_def)
  moreover have "admissible ns_spec ns_ok (Map.empty, 0) (rs @ [(e, x)])"
    using assms(5-7) by (intro names_admissible) (auto simp: registrations_def name_type_defs)
  ultimately obtain st w1 where 1: "name_server_loop ?st w = Some (st, w1)" "(ns_sender_tid st, ns_msg st) = (e, x)"
    "advances w (Suc (length rs)) (snd (service_run ns_spec (Map.empty, 0) rs)) w1"
    using name_service.loop_run [of ?st "(Map.empty, 0)" w rs e x ms] assms(2-5) exit_unanswered by auto
  let ?w = "say ''Name server shutting down'' [] w1"
  have "replies_return ?w" using assms(2) advances_replies_return [OF 1(3)] by (simp add: say_def)
  then obtain r w2 where 2: "Reply e (NameMsg x) ?w = Some (r, w2)" "advances ?w 0 [(e, NameMsg x)] w2"
    by (rule Reply_advances)
  have "x\<lparr>nsm_type := NAME_SERVER_MSG_TYPE_EXIT\<rparr> = x" using assms(5) by (cases x) simp
  then have "name_server_main nm msg w = Some (Exit w2)"
    using 1(1,2) 2(1) by (simp add: name_server_main_def)
  moreover have "replies (trace w2) = replies (trace w) @ snd (service_run ns_spec (Map.empty, 0) rs) @ [(e, NameMsg x)]"
    using advances_trans [OF 1(3) [THEN advances_say] 2(2)] by (simp add: advances_def)
  ultimately show ?thesis by blast
qed

definition blank_names :: name_map_t where
  "blank_names = \<lparr>nm_queue = queue_init, nm_nodes = (\<lambda>_. \<lparr>qn_data = None, qn_next = None\<rparr>),
     nm_node_data = replicate 256 \<lparr>ne_name = replicate 12 0, ne_tid = 0\<rparr>\<rparr>"

definition name_req :: "u32 \<Rightarrow> string \<Rightarrow> name_server_msg_t" where
  "name_req t s = name_server_msg_init t (cstr s)"

theorem name_server_refines_witness:
  "\<exists>w'. name_server_main blank_names (name_req 0 ''x'')
        (scripted [(5, NameMsg (name_req 1 ''clock_server'')), (7, NameMsg (name_req 0 ''clock_server'')),
           (5, NameMsg (name_req 1 ''clock_server'')), (6, NameMsg (name_req 2 ''''))]) = Some (Exit w') \<and>
    replies (trace w') = [(5, IntMsg 1), (7, IntMsg 0), (5, IntMsg 7), (6, NameMsg (name_req 2 ''''))]"
proof -
  let ?rs = "[(5, name_req 1 ''clock_server''), (7, name_req 0 ''clock_server''), (5, name_req 1 ''clock_server'')]"
  let ?w = "scripted (map (apsnd NameMsg) (?rs @ [(6, name_req 2 '''')]) @ [])"
  note s = name_req_def name_server_msg_init_def
  have "\<forall>(t, m)\<in>set (?rs @ [(6, name_req 2 '''')]). length (nsm_name m) = 12"
    by (simp add: s NAME_SERVER_MAX_NAME_LEN_def)
  moreover have "registrations ?rs \<le> 256" by (simp add: registrations_def s name_type_defs)
  moreover have "snd (service_run ns_spec (Map.empty, 0) ?rs) = [(5, IntMsg 1), (7, IntMsg 0), (5, IntMsg 7)]"
    by (simp add: ns_spec_def s name_type_defs)
  moreover have "length (nm_node_data blank_names) = 256" by (simp add: blank_names_def)
  ultimately show ?thesis
    using name_server_refines [of blank_names ?w ?rs 6 "name_req 2 ''''" "[]" "name_req 0 ''x''"]
      scripted_pending [of "map (apsnd NameMsg) (?rs @ [(6, name_req 2 '''')]) @ []"]
    by (simp add: s name_type_defs)
qed

text \<open>
  The name map has room for 256 registrations and no check: the next one reads past the end of
  the node array, also when it only repeats a name.
\<close>

theorem name_map_overflow:
  assumes "nm_rep nm xs" and "length xs = 256"
  shows "name_map_insert name tid nm = None"
  using assms nm_rep_size [OF assms(1)] by (simp add: name_map_insert_def NAME_SERVER_MAX_NAMES_def)

fun insert_n :: "nat \<Rightarrow> name_map_t \<Rightarrow> name_map_t option" where
  "insert_n 0 nm = Some nm"
| "insert_n (Suc n) nm = do { (_, nm) \<leftarrow> name_map_insert [120] 3 nm; insert_n n nm }"

lemma insert_n_rep: "nm_rep nm xs \<Longrightarrow> length xs + n \<le> 256 \<Longrightarrow>
    \<exists>nm' xs'. insert_n n nm = Some nm' \<and> nm_rep nm' xs' \<and> length xs' = length xs + n"
proof (induction n arbitrary: nm xs)
  case (Suc n)
  obtain nm1 where "name_map_insert [120] 3 nm = Some (0, nm1)" "nm_rep nm1 ((key [120], 3) # xs)"
    by (rule name_map_insert_rep [OF Suc.prems(1), of "[120]" 3]) (use Suc.prems(2) in simp)
  with Suc.IH [of nm1 "(key [120], 3) # xs"] Suc.prems(2) show ?case by auto
qed auto

theorem name_map_overflow_witness:
  "\<exists>nm. insert_n 256 (name_map_init blank_names) = Some nm \<and> name_map_insert [120] 3 nm = None"
proof -
  have "nm_rep (name_map_init blank_names) []" by (rule name_map_init_rep) (simp add: blank_names_def)
  from insert_n_rep [OF this, of 256] obtain nm xs where
    "insert_n 256 (name_map_init blank_names) = Some nm" "nm_rep nm xs" "length xs = 256"
    by auto
  with name_map_overflow show ?thesis by blast
qed

text \<open>The history of a client that has asked for a name \<open>k\<close> times and was told that nobody has it.\<close>

definition asked :: "name_server_msg_t \<Rightarrow> nat \<Rightarrow> event list \<Rightarrow> event list" where
  "asked msg k h = h @ replicate k (EvSend NAME_SERVER_TID (NameMsg msg) 0 (Some (IntMsg 1)))"

lemma whois_loop_polls:
  assumes "\<And>j. j < k \<Longrightarrow> sys w (CSend NAME_SERVER_TID (NameMsg msg)) (asked msg j (trace w)) =
      Some \<lparr>o_ret = 0, o_from = f, o_data = IntMsg 1\<rparr>"
    and "sys w (CSend NAME_SERVER_TID (NameMsg msg)) (asked msg k (trace w)) =
      Some \<lparr>o_ret = 0, o_from = f, o_data = IntMsg v\<rparr>" "v \<noteq> 1"
  shows "\<exists>w'. whois_loop msg w = Some (v, w')"
  using assms
proof (induction k arbitrary: w)
  case 0
  then show ?case by (subst whois_loop.simps) (simp add: Send_def asked_def)
next
  case (Suc k)
  let ?e = "EvSend NAME_SERVER_TID (NameMsg msg) 0 (Some (IntMsg 1))"
  have first: "sys w (CSend NAME_SERVER_TID (NameMsg msg)) (trace w) = Some \<lparr>o_ret = 0, o_from = f, o_data = IntMsg 1\<rparr>"
    using Suc.prems(1) [of 0] by (simp add: asked_def)
  have shift: "asked msg j (trace (did ?e w)) = asked msg (Suc j) (trace w)" for j
    by (simp add: asked_def)
  have "\<exists>w'. whois_loop msg (did ?e w) = Some (v, w')"
    using Suc.prems by (intro Suc.IH) (simp_all add: shift [simplified])
  then show ?case using first by (subst whois_loop.simps) (simp add: Send_def)
qed

text \<open>
  C23: \<open>WhoIs\<close> asks again as long as the name is not registered, and returns the task id with which it is
  answered in the end.
\<close>

theorem whois_waits_for_registration:
  assumes "\<forall>j<k. sys w (CSend NAME_SERVER_TID (NameMsg (name_server_msg_init NAME_SERVER_MSG_TYPE_WHO name)))
      (asked (name_server_msg_init NAME_SERVER_MSG_TYPE_WHO name) j (trace w)) = Some \<lparr>o_ret = 0, o_from = f, o_data = IntMsg 1\<rparr>"
    and "sys w (CSend NAME_SERVER_TID (NameMsg (name_server_msg_init NAME_SERVER_MSG_TYPE_WHO name)))
      (asked (name_server_msg_init NAME_SERVER_MSG_TYPE_WHO name) k (trace w)) = Some \<lparr>o_ret = 0, o_from = f, o_data = IntMsg v\<rparr>"
    and "v \<noteq> 1"
  shows "\<exists>w'. WhoIs name w = Some (v, w')"
  unfolding WhoIs_def using assms by (intro whois_loop_polls [of k w _ f]) auto

definition late_world :: world where
  "late_world = \<lparr>trace = [], sys = (\<lambda>c h. Some \<lparr>o_ret = 0, o_from = 2, o_data = IntMsg (if length h < 3 then 1 else 9)\<rparr>)\<rparr>"

theorem whois_waits_for_registration_witness: "\<exists>w'. WhoIs (cstr ''clock_server'') late_world = Some (9, w')"
  by (rule whois_waits_for_registration [where k = 3 and f = 2])
    (simp_all add: late_world_def asked_def)

end
