(* ===== verification/ClockServer.thy ===== *)
theory ClockServer
  imports NameServer TaskDescriptor EventHandler
begin

text \<open>
  The clock server, \<^verbatim>\<open>src/clock_server/clock_server.c\<close>: the calls of its clients, the server's
  loop with its list of delayed tasks, and the notifier that sends it a message per timer tick.

  The nodes of the two lists, \<open>blocked\<close> and \<open>free_list\<close>, are members of the array \<open>entries\<close>; a node is
  named by its index and its data pointer refers to the entry of the same index. \<open>ticks\<close> is
  unsigned, the times of the messages and entries are signed: a comparison of the two is unsigned in C.
\<close>

subsection \<open>Data\<close>

definition TICK_EVENT :: u32 where
  "TICK_EVENT = SYS_CALL_EVENT_TIMER"

definition CLOCK_SERVER_MSG_TYPE_TICK :: u32 where
  "CLOCK_SERVER_MSG_TYPE_TICK = 0"

definition CLOCK_SERVER_MSG_TYPE_TIME :: u32 where
  "CLOCK_SERVER_MSG_TYPE_TIME = 1"

definition CLOCK_SERVER_MSG_TYPE_DELAY :: u32 where
  "CLOCK_SERVER_MSG_TYPE_DELAY = 2"

definition CLOCK_SERVER_MSG_TYPE_DELAYUNTIL :: u32 where
  "CLOCK_SERVER_MSG_TYPE_DELAYUNTIL = 3"

definition CLOCK_SERVER_MSG_TYPE_EXIT :: u32 where
  "CLOCK_SERVER_MSG_TYPE_EXIT = 4"

definition CLOCK_SERVER_MSG_TYPE_ERROR :: u32 where
  "CLOCK_SERVER_MSG_TYPE_ERROR = 5"

lemmas clock_type_defs = CLOCK_SERVER_MSG_TYPE_TICK_def CLOCK_SERVER_MSG_TYPE_TIME_def
  CLOCK_SERVER_MSG_TYPE_DELAY_def CLOCK_SERVER_MSG_TYPE_DELAYUNTIL_def
  CLOCK_SERVER_MSG_TYPE_EXIT_def CLOCK_SERVER_MSG_TYPE_ERROR_def

definition CLOCK_SERVER_INVALID_TID :: i32 where
  "CLOCK_SERVER_INVALID_TID = - 1"

definition CLOCK_SERVER_INVALID_DELAY :: i32 where
  "CLOCK_SERVER_INVALID_DELAY = - 2"

definition CLOCK_SERVER_NAME :: "u8 list" where
  "CLOCK_SERVER_NAME = cstr ''clock_server''"

record clock_server_blocked_entry_t =
  be_ticks :: i32
  be_tid :: u8

record clock_server_state =
  cs_ticks :: u32
  cs_blocked :: "nat queue_t"
  cs_free_list :: "nat queue_t"
  cs_nodes :: "(nat, nat) node_heap"
  cs_entries :: "clock_server_blocked_entry_t list"
  cs_msg :: clock_server_msg_t
  cs_sender_tid :: u8

subsection \<open>Client calls\<close>

definition clock_reply :: "message option \<Rightarrow> clock_server_msg_t option" where
  "clock_reply r = (case r of Some (ClockMsg m) \<Rightarrow> Some m | _ \<Rightarrow> None)"

text \<open>
  After a successful \<open>Send\<close> the source tests the type of its own message \<open>msg\<close>, not of the reply.
\<close>

definition Delay :: "i32 \<Rightarrow> i32 \<Rightarrow> world \<Rightarrow> (i32 \<times> world) option" where
  "Delay tid ticks w = do {
     let msg = \<lparr>csm_type = CLOCK_SERVER_MSG_TYPE_DELAY, csm_time = ticks\<rparr>;
     (res, rep, w) \<leftarrow> Send (ucast tid) (ClockMsg msg) 8 w;
     if res \<noteq> 0 then
       Some (CLOCK_SERVER_INVALID_TID, say ''Send to clock server failed for Delay'' [] w)
     else if csm_type msg = CLOCK_SERVER_MSG_TYPE_ERROR then
       Some (CLOCK_SERVER_INVALID_DELAY, say ''Delay failed with error'' [] w)
     else Some (0, w)
   }"

definition Time :: "i32 \<Rightarrow> i32 \<Rightarrow> world \<Rightarrow> (i32 \<times> world) option" where
  "Time garbage tid w = do {
     let msg = \<lparr>csm_type = CLOCK_SERVER_MSG_TYPE_TIME, csm_time = garbage\<rparr>;
     (res, rep, w) \<leftarrow> Send (ucast tid) (ClockMsg msg) 8 w;
     if res \<noteq> 0 then
       Some (CLOCK_SERVER_INVALID_TID, say ''Send to clock server failed for Time'' [] w)
     else do { rep \<leftarrow> clock_reply rep; Some (csm_time rep, w) }
   }"

definition DelayUntil :: "i32 \<Rightarrow> i32 \<Rightarrow> world \<Rightarrow> (i32 \<times> world) option" where
  "DelayUntil tid ticks w = do {
     let msg = \<lparr>csm_type = CLOCK_SERVER_MSG_TYPE_DELAYUNTIL, csm_time = ticks\<rparr>;
     (res, rep, w) \<leftarrow> Send (ucast tid) (ClockMsg msg) 8 w;
     if res \<noteq> 0 then
       Some (CLOCK_SERVER_INVALID_TID, say ''Send to clock server failed for DelayUntil'' [] w)
     else if csm_type msg = CLOCK_SERVER_MSG_TYPE_ERROR then
       Some (CLOCK_SERVER_INVALID_DELAY, say ''DelayUntil failed with error'' [] w)
     else Some (0, w)
   }"

definition clock_server_exit :: "i32 \<Rightarrow> u8 \<Rightarrow> world \<Rightarrow> world option" where
  "clock_server_exit garbage clock_server_tid w = do {
     let msg = \<lparr>csm_type = CLOCK_SERVER_MSG_TYPE_EXIT, csm_time = garbage\<rparr>;
     (res, rep, w) \<leftarrow> Send clock_server_tid (ClockMsg msg) 8 w;
     Some (if res \<noteq> 0 then say ''Error shutting down clock server'' [] w else w)
   }"

subsection \<open>The list of delayed tasks\<close>

text \<open>The search for the last node whose time is not later, from \<open>curr_node\<close> on.\<close>

partial_function (option) find_place ::
  "clock_server_state \<Rightarrow> i32 \<Rightarrow> nat \<Rightarrow> nat option"
where
  "find_place st ticks curr_node =
     (case qn_next (cs_nodes st curr_node) of
        None \<Rightarrow> Some curr_node
      | Some next_node \<Rightarrow> do {
          i \<leftarrow> qn_data (cs_nodes st next_node);
          e \<leftarrow> arr_get (cs_entries st) i;
          if sint (be_ticks e) > sint ticks then Some curr_node else find_place st ticks next_node
        })"

definition insert_after :: "nat \<Rightarrow> nat \<Rightarrow> clock_server_state \<Rightarrow> clock_server_state" where
  "insert_after curr_node new_node st =
     (let h = set_next (cs_nodes st) new_node (qn_next (cs_nodes st curr_node));
          h = set_next h curr_node (Some new_node)
      in st\<lparr>cs_nodes := h,
           cs_blocked := (cs_blocked st)\<lparr>elements := elements (cs_blocked st) + 1\<rparr>\<rparr>)"

definition block_front :: "nat \<Rightarrow> clock_server_state \<Rightarrow> clock_server_state option" where
  "block_front new_node st = do {
     (_, q, h) \<leftarrow> queue_put_front (cs_blocked st) (cs_nodes st) (Some new_node);
     Some (st\<lparr>cs_blocked := q, cs_nodes := h\<rparr>)
   }"

definition insert_blocked :: "nat \<Rightarrow> i32 \<Rightarrow> clock_server_state \<Rightarrow> clock_server_state option" where
  "insert_blocked new_node ticks st =
     (if queue_empty (cs_blocked st) then block_front new_node st
      else do {
        d \<leftarrow> queue_peek (cs_blocked st) (cs_nodes st);
        i \<leftarrow> d;
        front_data \<leftarrow> arr_get (cs_entries st) i;
        if sint (be_ticks front_data) > sint ticks then block_front new_node st
        else do {
          curr_node \<leftarrow> front (cs_blocked st);
          curr_node \<leftarrow> find_place st ticks curr_node;
          Some (insert_after curr_node new_node st)
        }
      })"

definition block_sender :: "clock_server_state \<Rightarrow> clock_server_state option" where
  "block_sender st = do {
     (d, q, h) \<leftarrow> queue_get (cs_free_list st) (cs_nodes st);
     let st = st\<lparr>cs_free_list := q, cs_nodes := h\<rparr>;
     i \<leftarrow> d;
     es \<leftarrow> arr_set (cs_entries st) i \<lparr>be_ticks = csm_time (cs_msg st), be_tid = cs_sender_tid st\<rparr>;
     insert_blocked i (csm_time (cs_msg st)) (st\<lparr>cs_entries := es\<rparr>)
   }"

subsection \<open>The server\<close>

definition reply_msg :: "clock_server_state \<Rightarrow> world \<Rightarrow> (clock_server_state \<times> world) option" where
  "reply_msg st w = do { (_, w) \<leftarrow> Reply (cs_sender_tid st) (ClockMsg (cs_msg st)) w; Some (st, w) }"

text \<open>Releasing the first delayed task when its time has passed.\<close>

definition release_front :: "clock_server_state \<Rightarrow> world \<Rightarrow> (clock_server_state \<times> world) option" where
  "release_front st w =
     (if queue_empty (cs_blocked st) then Some (st, w)
      else do {
        d \<leftarrow> queue_peek (cs_blocked st) (cs_nodes st);
        i \<leftarrow> d;
        e \<leftarrow> arr_get (cs_entries st) i;
        if cs_ticks st > be_ticks e then do {
          (_, q, h) \<leftarrow> queue_get (cs_blocked st) (cs_nodes st);
          let st = st\<lparr>cs_blocked := q, cs_nodes := h\<rparr>;
          (_, q, h) \<leftarrow> queue_put (cs_free_list st) (cs_nodes st) (Some i);
          let st = st\<lparr>cs_free_list := q, cs_nodes := h\<rparr>;
          let st = st\<lparr>cs_msg := (cs_msg st)\<lparr>csm_time := cs_ticks st\<rparr>\<rparr>;
          (_, w) \<leftarrow> Reply (be_tid e) (ClockMsg (cs_msg st)) w;
          Some (st, w)
        }
        else Some (st, w)
      })"

definition clock_tick :: "clock_server_state \<Rightarrow> world \<Rightarrow> (clock_server_state \<times> world) option" where
  "clock_tick st w = do {
     (st, w) \<leftarrow> reply_msg st w;
     release_front (st\<lparr>cs_ticks := cs_ticks st + 1\<rparr>) w
   }"

definition clock_error :: "clock_server_state \<Rightarrow> world \<Rightarrow> (clock_server_state \<times> world) option" where
  "clock_error st w =
     reply_msg (st\<lparr>cs_msg := \<lparr>csm_type = CLOCK_SERVER_MSG_TYPE_ERROR, csm_time = 0\<rparr>\<rparr>) w"

definition clock_delay_until :: "clock_server_state \<Rightarrow> world \<Rightarrow> (clock_server_state \<times> world) option" where
  "clock_delay_until st w =
     (if sint (csm_time (cs_msg st)) \<le> 0 then clock_error st w
      else if csm_time (cs_msg st) < cs_ticks st then
        reply_msg (st\<lparr>cs_msg := \<lparr>csm_type = CLOCK_SERVER_MSG_TYPE_TICK, csm_time = cs_ticks st\<rparr>\<rparr>) w
      else do { st \<leftarrow> block_sender st; Some (st, w) })"

definition clock_delay :: "clock_server_state \<Rightarrow> world \<Rightarrow> (clock_server_state \<times> world) option" where
  "clock_delay st w =
     (if sint (csm_time (cs_msg st)) \<le> 0 then clock_error st w
      else clock_delay_until
        (st\<lparr>cs_msg := (cs_msg st)\<lparr>csm_time := csm_time (cs_msg st) + cs_ticks st\<rparr>\<rparr>) w)"

definition clock_server_body :: "clock_server_state \<Rightarrow> world \<Rightarrow> (clock_server_state \<times> world) option" where
  "clock_server_body st w = do {
     (res, tid, m, w) \<leftarrow> Receive (cs_sender_tid st) (ClockMsg (cs_msg st)) w;
     msg \<leftarrow> clock_reply (Some m);
     let st = st\<lparr>cs_sender_tid := tid, cs_msg := msg\<rparr>;
     let w = (if sint res < 0 then say ''Error occurred while receiving in clock server'' [] w else w);
     if csm_type msg = CLOCK_SERVER_MSG_TYPE_TICK then clock_tick st w
     else if csm_type msg = CLOCK_SERVER_MSG_TYPE_TIME then
       reply_msg (st\<lparr>cs_msg := msg\<lparr>csm_time := cs_ticks st\<rparr>\<rparr>) w
     else if csm_type msg = CLOCK_SERVER_MSG_TYPE_DELAY then clock_delay st w
     else if csm_type msg = CLOCK_SERVER_MSG_TYPE_DELAYUNTIL then clock_delay_until st w
     else if csm_type msg = CLOCK_SERVER_MSG_TYPE_EXIT then Some (st, w)
     else Some (st, say ''Clock server received unexpected msg type'' [] w)
   }"

partial_function (option) clock_server_loop ::
  "clock_server_state \<Rightarrow> world \<Rightarrow> (clock_server_state \<times> world) option"
where
  "clock_server_loop st w = do {
     (st, w) \<leftarrow> clock_server_body st w;
     if csm_type (cs_msg st) \<noteq> CLOCK_SERVER_MSG_TYPE_EXIT then clock_server_loop st w else Some (st, w)
   }"

text \<open>After an exit message: drop everything until the notifier's next message.\<close>

partial_function (option) await_notifier ::
  "clock_server_state \<Rightarrow> world \<Rightarrow> (clock_server_state \<times> world) option"
where
  "await_notifier st w =
     (if csm_type (cs_msg st) = CLOCK_SERVER_MSG_TYPE_TICK then Some (st, w)
      else do {
        (_, tid, m, w) \<leftarrow> Receive (cs_sender_tid st) (ClockMsg (cs_msg st)) w;
        msg \<leftarrow> clock_reply (Some m);
        await_notifier (st\<lparr>cs_sender_tid := tid, cs_msg := msg\<rparr>) w
      })"

definition clock_shutdown :: "clock_server_state \<Rightarrow> world \<Rightarrow> world option" where
  "clock_shutdown st w = do {
     let rep = \<lparr>csm_type = CLOCK_SERVER_MSG_TYPE_EXIT, csm_time = - 1\<rparr>;
     let exiter_tid = cs_sender_tid st;
     (st, w) \<leftarrow> await_notifier st w;
     (_, w) \<leftarrow> Reply (cs_sender_tid st) (ClockMsg rep) w;
     let w = say ''Clock server shutting down'' [] w;
     (_, w) \<leftarrow> Reply exiter_tid (ClockMsg rep) w;
     Some (Exit w)
   }"

definition clock_server_init :: "clock_server_state \<Rightarrow> clock_server_state option" where
  "clock_server_init st =
     fold (\<lambda>i r. do {
         st \<leftarrow> r;
         let h = queue_node_init i (Some i) (cs_nodes st);
         (_, q, h) \<leftarrow> queue_put (cs_free_list st) h (Some i);
         Some (st\<lparr>cs_free_list := q, cs_nodes := h\<rparr>)
       })
       [0..<TASK_DESCRIPTOR_MAX_TASKS]
       (Some (st\<lparr>cs_ticks := 0, cs_sender_tid := 0, cs_blocked := queue_init, cs_free_list := queue_init\<rparr>))"

definition clock_server_main :: "clock_server_state \<Rightarrow> world \<Rightarrow> world option" where
  "clock_server_main st w = do {
     st \<leftarrow> clock_server_init st;
     (_, w) \<leftarrow> RegisterAs CLOCK_SERVER_NAME w;
     (_, w) \<leftarrow> Create 2 ''clock_server_notifier_main'' w;
     (st, w) \<leftarrow> clock_server_loop st w;
     clock_shutdown st w
   }"

subsection \<open>The notifier\<close>

partial_function (option) notifier_loop ::
  "u8 \<Rightarrow> clock_server_msg_t \<Rightarrow> clock_server_msg_t \<Rightarrow> world \<Rightarrow> world option"
where
  "notifier_loop tid msg rep w =
     (if csm_type rep = CLOCK_SERVER_MSG_TYPE_EXIT then Some w
      else do {
        (_, w) \<leftarrow> AwaitEvent TICK_EVENT w;
        (_, r, w) \<leftarrow> Send tid (ClockMsg msg) 8 w;
        notifier_loop tid msg (case clock_reply r of None \<Rightarrow> rep | Some rep \<Rightarrow> rep) w
      })"

definition clock_server_notifier_main :: "i32 \<Rightarrow> i32 \<Rightarrow> world \<Rightarrow> world option" where
  "clock_server_notifier_main garbage1 garbage2 w = do {
     let msg = \<lparr>csm_type = CLOCK_SERVER_MSG_TYPE_TICK, csm_time = garbage1\<rparr>;
     (clock_server_tid, w) \<leftarrow> WhoIs CLOCK_SERVER_NAME w;
     let rep = \<lparr>csm_type = CLOCK_SERVER_MSG_TYPE_TICK, csm_time = garbage2\<rparr>;
     w \<leftarrow> notifier_loop (ucast clock_server_tid) msg rep w;
     Some (Exit (say ''Clock server notifier shutting down'' [] w))
   }"

end
