(* ===== verification/RingBuffer.thy ===== *)
theory RingBuffer
  imports Kernel_Prelude
begin

text \<open>
  The byte ring buffer of \<^verbatim>\<open>src/ringbuffer/ringbuffer.c\<close>, which the I/O server uses for its two
  directions. The memory behind the pointer \<^verbatim>\<open>buf\<close> is a list of bytes owned by the record; the
  pointer that \<^verbatim>\<open>ringbuffer_get\<close> returns into it is an index. \<open>rb_rep rb xs\<close> says that the
  buffer holds the bytes \<open>xs\<close>, oldest first, and the locale \<open>bounded_fifo\<close> is what its users rely on.
\<close>

subsection \<open>Data and operations\<close>

record ringbuffer_t =
  read_index :: u32
  write_index :: u32
  rb_size :: u32
  buf :: "u8 list"

definition ringbuffer_init :: "u8 list \<Rightarrow> u32 \<Rightarrow> ringbuffer_t" where
  "ringbuffer_init b buf_size = \<lparr>read_index = 0, write_index = 0, rb_size = buf_size, buf = b\<rparr>"

definition ringbuffer_empty :: "ringbuffer_t \<Rightarrow> bool" where
  "ringbuffer_empty ctx \<longleftrightarrow> read_index ctx = write_index ctx"

text \<open>\<open>x % size\<close>, undefined for size 0.\<close>

definition umod :: "u32 \<Rightarrow> u32 \<Rightarrow> u32 option" where
  "umod x n = (if n = 0 then None else Some (x mod n))"

definition ringbuffer_full :: "ringbuffer_t \<Rightarrow> bool option" where
  "ringbuffer_full ctx = do {
     next \<leftarrow> umod (write_index ctx + 1) (rb_size ctx);
     Some (next = read_index ctx)
   }"

definition ringbuffer_size :: "ringbuffer_t \<Rightarrow> u32" where
  "ringbuffer_size ctx =
     (if write_index ctx < read_index ctx then (write_index ctx + rb_size ctx) - read_index ctx
      else write_index ctx - read_index ctx)"

definition ringbuffer_get :: "ringbuffer_t \<Rightarrow> (nat option \<times> ringbuffer_t) option" where
  "ringbuffer_get ctx =
     (if ringbuffer_empty ctx then Some (None, ctx)
      else do {
        let ret = unat (read_index ctx);
        next \<leftarrow> umod (read_index ctx + 1) (rb_size ctx);
        Some (Some ret, ctx\<lparr>read_index := next\<rparr>)
      })"

definition ringbuffer_store :: "u8 \<Rightarrow> ringbuffer_t \<Rightarrow> ringbuffer_t option" where
  "ringbuffer_store data ctx = do {
     b \<leftarrow> arr_set (buf ctx) (unat (write_index ctx)) data;
     next \<leftarrow> umod (write_index ctx + 1) (rb_size ctx);
     Some (ctx\<lparr>buf := b, write_index := next\<rparr>)
   }"

definition ringbuffer_put :: "u8 \<Rightarrow> ringbuffer_t \<Rightarrow> (bool \<times> ringbuffer_t) option" where
  "ringbuffer_put data ctx = do {
     full \<leftarrow> ringbuffer_full ctx;
     if full then Some (False, ctx)
     else do { ctx \<leftarrow> ringbuffer_store data ctx; Some (True, ctx) }
   }"

fun putn_loop :: "u8 list \<Rightarrow> nat \<Rightarrow> nat \<Rightarrow> ringbuffer_t \<Rightarrow> ringbuffer_t option" where
  "putn_loop data i 0 ctx = Some ctx"
| "putn_loop data i (Suc n) ctx = do {
     d \<leftarrow> arr_get data i;
     ctx \<leftarrow> ringbuffer_store d ctx;
     putn_loop data (Suc i) n ctx
   }"

definition ringbuffer_putn :: "u8 list \<Rightarrow> u32 \<Rightarrow> ringbuffer_t \<Rightarrow> (bool \<times> ringbuffer_t) option" where
  "ringbuffer_putn data data_len ctx =
     (if (rb_size ctx - 1) - ringbuffer_size ctx < data_len then Some (False, ctx)
      else do { ctx \<leftarrow> putn_loop data 0 (unat data_len) ctx; Some (True, ctx) })"

text \<open>What the callers read through the returned pointer.\<close>

definition ringbuffer_take :: "ringbuffer_t \<Rightarrow> (u8 option \<times> ringbuffer_t) option" where
  "ringbuffer_take ctx = do {
     (p, ctx) \<leftarrow> ringbuffer_get ctx;
     case p of
       None \<Rightarrow> Some (None, ctx)
     | Some i \<Rightarrow> do { c \<leftarrow> arr_get (buf ctx) i; Some (Some c, ctx) }
   }"

subsection \<open>The bytes in the buffer\<close>

definition rb_rep :: "ringbuffer_t \<Rightarrow> u8 list \<Rightarrow> bool" where
  "rb_rep rb xs \<longleftrightarrow>
     (let n = unat (rb_size rb); r = unat (read_index rb) in
      0 < n \<and> length (buf rb) = n \<and> r < n \<and> length xs < n \<and>
      unat (write_index rb) = (r + length xs) mod n \<and>
      (\<forall>k<length xs. buf rb ! ((r + k) mod n) = xs ! k))"

lemma umod_next:
  assumes "unat x < unat n"
  shows "\<exists>y. umod (x + 1) n = Some y \<and> unat y = (unat x + 1) mod unat n"
proof -
  have "unat (x + 1) = unat x + 1" using assms unsigned_less [of n, where ?'a = nat] by (simp add: unat_u32_add1)
  moreover from assms have "n \<noteq> 0" by auto
  ultimately show ?thesis by (simp add: umod_def unat_mod)
qed

lemma mod_shift_neq: "j < k \<Longrightarrow> k < (n :: nat) \<Longrightarrow> (r + j) mod n \<noteq> (r + k) mod n"
proof
  assume "j < k" "k < n" "(r + j) mod n = (r + k) mod n"
  then have "n dvd (r + k) - (r + j)" by (intro mod_eq_dvd_iff_nat [THEN iffD1]) auto
  with \<open>j < k\<close> \<open>k < n\<close> show False by (auto dest: dvd_imp_le)
qed

lemma rb_rep_init: "0 < unat n \<Longrightarrow> length b = unat n \<Longrightarrow> rb_rep (ringbuffer_init b n) []"
  by (simp add: rb_rep_def ringbuffer_init_def Let_def)

lemma rb_rep_empty: "rb_rep rb xs \<Longrightarrow> ringbuffer_empty rb \<longleftrightarrow> xs = []"
proof -
  assume rep: "rb_rep rb xs"
  let ?n = "unat (rb_size rb)" and ?r = "unat (read_index rb)"
  have "xs \<noteq> [] \<Longrightarrow> (?r + 0) mod ?n \<noteq> (?r + length xs) mod ?n"
    using rep by (intro mod_shift_neq) (auto simp: rb_rep_def Let_def)
  with rep show ?thesis by (auto simp: rb_rep_def ringbuffer_empty_def Let_def word_unat_eq_iff)
qed

lemma rb_rep_full: "rb_rep rb xs \<Longrightarrow> ringbuffer_full rb = Some (length xs + 1 = unat (rb_size rb))"
proof -
  assume rep: "rb_rep rb xs"
  let ?n = "unat (rb_size rb)" and ?r = "unat (read_index rb)"
  have w: "unat (write_index rb) = (?r + length xs) mod ?n" "unat (write_index rb) < ?n" "?r < ?n" "length xs < ?n"
    using rep by (auto simp: rb_rep_def Let_def)
  obtain y where y: "umod (write_index rb + 1) (rb_size rb) = Some y" "unat y = (unat (write_index rb) + 1) mod ?n"
    using umod_next [OF w(2)] by blast
  have "unat y = (?r + (length xs + 1)) mod ?n" by (simp add: y(2) w(1) mod_simps)
  moreover have "(?r + (length xs + 1)) mod ?n = ?r \<longleftrightarrow> length xs + 1 = ?n"
  proof
    assume "length xs + 1 = ?n"
    with w(3) show "(?r + (length xs + 1)) mod ?n = ?r" by simp
  next
    assume eq: "(?r + (length xs + 1)) mod ?n = ?r"
    show "length xs + 1 = ?n"
    proof (rule ccontr)
      assume "length xs + 1 \<noteq> ?n"
      with w(4) have "length xs + 1 < ?n" by simp
      with mod_shift_neq [of 0 "length xs + 1" ?n ?r] eq w(3) show False by simp
    qed
  qed
  ultimately show ?thesis using y(1) by (simp add: ringbuffer_full_def word_unat_eq_iff)
qed

lemma rb_rep_size: "rb_rep rb xs \<Longrightarrow> unat (ringbuffer_size rb) = length xs"
proof -
  assume rep: "rb_rep rb xs"
  let ?n = "unat (rb_size rb)" and ?r = "unat (read_index rb)" and ?w = "unat (write_index rb)"
  have w: "?w = (?r + length xs) mod ?n" "?r < ?n" "length xs < ?n"
    using rep by (auto simp: rb_rep_def Let_def)
  have n: "?n < 2 ^ 32" using unsigned_less [of "rb_size rb", where ?'a = nat] by simp
  show ?thesis
  proof (cases "?r + length xs < ?n")
    case True
    with w have "?w = ?r + length xs" by simp
    then show ?thesis by (simp add: ringbuffer_size_def word_less_nat_alt unat_sub word_le_nat_alt)
  next
    case False
    have "(?r + length xs) mod ?n = ?r + length xs - ?n"
      using False w by (simp add: le_mod_geq)
    with w False have wn: "?w < ?r" "?w + ?n = ?r + length xs" by simp_all
    have "write_index rb + rb_size rb - read_index rb = of_nat (?w + ?n) - of_nat ?r"
      by simp
    also have "\<dots> = of_nat (length xs)" unfolding wn(2) by simp
    finally show ?thesis
      using wn(1) w n by (simp add: ringbuffer_size_def word_less_nat_alt unsigned_of_nat take_bit_nat_eq_self)
  qed
qed

lemma rb_rep_store:
  assumes rep: "rb_rep rb xs" and room: "length xs + 1 < unat (rb_size rb)"
  obtains rb' where "ringbuffer_store d rb = Some rb'" "rb_rep rb' (xs @ [d])" "rb_size rb' = rb_size rb"
proof -
  let ?n = "unat (rb_size rb)" and ?r = "unat (read_index rb)" and ?w = "unat (write_index rb)"
  have w: "?w = (?r + length xs) mod ?n" "?w < ?n" "?r < ?n" "length xs < ?n" "length (buf rb) = ?n"
    "\<forall>k<length xs. buf rb ! ((?r + k) mod ?n) = xs ! k"
    using rep by (auto simp: rb_rep_def Let_def)
  obtain y where y: "umod (write_index rb + 1) (rb_size rb) = Some y" "unat y = (?w + 1) mod ?n"
    using umod_next [OF w(2)] by blast
  let ?rb = "rb\<lparr>buf := (buf rb)[?w := d], write_index := y\<rparr>"
  have "ringbuffer_store d rb = Some ?rb" using w(2,5) y(1) by (simp add: ringbuffer_store_def)
  moreover have "rb_rep ?rb (xs @ [d])"
  proof -
    have "(buf rb)[?w := d] ! ((?r + k) mod ?n) = (xs @ [d]) ! k" if "k < length xs + 1" for k
    proof (cases "k = length xs")
      case True
      with w show ?thesis by simp
    next
      case False
      with that have k: "k < length xs" by simp
      then have "(?r + k) mod ?n \<noteq> ?w" using mod_shift_neq [of k "length xs" ?n ?r] w by simp
      with k w show ?thesis by (simp add: nth_append)
    qed
    moreover have "unat y = (?r + (length xs + 1)) mod ?n" by (simp add: y(2) w(1) mod_simps)
    ultimately show ?thesis using room w(3,5) by (simp add: rb_rep_def Let_def)
  qed
  ultimately show ?thesis by (rule that) simp
qed

lemma rb_rep_take:
  assumes rep: "rb_rep rb (x # xs)"
  obtains rb' where "ringbuffer_take rb = Some (Some x, rb')" "rb_rep rb' xs" "rb_size rb' = rb_size rb"
proof -
  let ?n = "unat (rb_size rb)" and ?r = "unat (read_index rb)"
  have r: "?r < ?n" "Suc (length xs) < ?n" "length (buf rb) = ?n"
    "unat (write_index rb) = (?r + Suc (length xs)) mod ?n"
    and el: "\<And>k. k < Suc (length xs) \<Longrightarrow> buf rb ! ((?r + k) mod ?n) = (x # xs) ! k"
    using rep by (auto simp: rb_rep_def Let_def)
  obtain y where y: "umod (read_index rb + 1) (rb_size rb) = Some y" "unat y = (?r + 1) mod ?n"
    using umod_next [OF r(1)] by blast
  have "\<not> ringbuffer_empty rb" using rb_rep_empty [OF rep] by simp
  then have "ringbuffer_take rb = Some (Some x, rb\<lparr>read_index := y\<rparr>)"
    using y(1) r(1,3) el [of 0] by (simp add: ringbuffer_take_def ringbuffer_get_def)
  moreover have "rb_rep (rb\<lparr>read_index := y\<rparr>) xs"
  proof -
    have "buf rb ! ((unat y + k) mod ?n) = xs ! k" if "k < length xs" for k
      using el [of "Suc k"] that by (simp add: y(2) mod_simps)
    moreover have "(unat y + length xs) mod ?n = (?r + Suc (length xs)) mod ?n"
      by (simp add: y(2) mod_simps)
    ultimately show ?thesis using r y(2) by (simp add: rb_rep_def Let_def)
  qed
  ultimately show ?thesis by (rule that) simp
qed

lemma rb_rep_take_empty: "rb_rep rb [] \<Longrightarrow> ringbuffer_take rb = Some (None, rb)"
  using rb_rep_empty [of rb "[]"] by (simp add: ringbuffer_take_def ringbuffer_get_def)

lemma rb_rep_put:
  assumes rep: "rb_rep rb xs"
  obtains rb' where "ringbuffer_put d rb = Some (length xs + 1 < unat (rb_size rb), rb')"
    "rb_rep rb' (if length xs + 1 < unat (rb_size rb) then xs @ [d] else xs)" "rb_size rb' = rb_size rb"
proof (cases "length xs + 1 < unat (rb_size rb)")
  case True
  obtain rb' where rb': "ringbuffer_store d rb = Some rb'" "rb_rep rb' (xs @ [d])" "rb_size rb' = rb_size rb"
    by (rule rb_rep_store [OF rep True])
  with True rb_rep_full [OF rep] show ?thesis by (intro that [of rb']) (simp_all add: ringbuffer_put_def)
next
  case False
  moreover from rep have "length xs < unat (rb_size rb)" by (simp add: rb_rep_def Let_def)
  ultimately have "length xs + 1 = unat (rb_size rb)" by linarith
  with False rb_rep_full [OF rep] rep show ?thesis
    by (intro that [of rb]) (simp_all add: ringbuffer_put_def)
qed

lemma putn_loop_rep:
  assumes "rb_rep rb xs" "i + n \<le> length data" "length xs + n < unat (rb_size rb)"
  shows "\<exists>rb'. putn_loop data i n rb = Some rb' \<and> rb_rep rb' (xs @ take n (drop i data)) \<and>
    rb_size rb' = rb_size rb"
  using assms
proof (induction n arbitrary: i rb xs)
  case (Suc n)
  have room: "length xs + 1 < unat (rb_size rb)" using Suc.prems by simp
  obtain rb1 where rb1: "ringbuffer_store (data ! i) rb = Some rb1" "rb_rep rb1 (xs @ [data ! i])"
    "rb_size rb1 = rb_size rb"
    by (rule rb_rep_store [OF Suc.prems(1) room])
  have "drop i data = data ! i # drop (Suc i) data" using Suc.prems(2) by (simp add: Cons_nth_drop_Suc)
  with Suc.IH [OF rb1(2), of "Suc i"] Suc.prems rb1 show ?case by auto
qed simp

lemma rb_putn_guard:
  assumes rep: "rb_rep rb xs"
  shows "(rb_size rb - 1) - ringbuffer_size rb < len \<longleftrightarrow> \<not> length xs + unat len < unat (rb_size rb)"
proof -
  have n: "length xs < unat (rb_size rb)" using rep by (simp add: rb_rep_def Let_def)
  then have "rb_size rb \<noteq> 0" by auto
  then have 1: "unat (rb_size rb - 1) = unat (rb_size rb) - 1" by (rule unat_u32_sub1)
  then have "unat ((rb_size rb - 1) - ringbuffer_size rb) = unat (rb_size rb) - 1 - length xs"
    using rb_rep_size [OF rep] n by (simp add: unat_sub word_le_nat_alt)
  with n show ?thesis by (simp add: word_less_nat_alt) linarith
qed

lemma rb_rep_putn:
  assumes rep: "rb_rep rb xs" and data: "unat len \<le> length data"
  obtains rb' where "ringbuffer_putn data len rb = Some (length xs + unat len < unat (rb_size rb), rb')"
    "rb_rep rb' (if length xs + unat len < unat (rb_size rb) then xs @ take (unat len) data else xs)"
    "rb_size rb' = rb_size rb"
proof (cases "length xs + unat len < unat (rb_size rb)")
  case True
  with putn_loop_rep [OF rep, of 0 "unat len" data] data rb_putn_guard [OF rep] show ?thesis
    by (auto simp: ringbuffer_putn_def intro: that)
next
  case False
  with rb_putn_guard [OF rep] rep show ?thesis by (intro that [of rb]) (simp_all add: ringbuffer_putn_def)
qed

subsection \<open>The interface\<close>

text \<open>
  A bounded byte queue as its users see it: a write is accepted whole or refused without effect,
  and reads return the accepted bytes in order.
\<close>

fun take_n :: "('s \<Rightarrow> ('d option \<times> 's) option) \<Rightarrow> nat \<Rightarrow> 's \<Rightarrow> ('d list \<times> 's) option" where
  "take_n get 0 s = Some ([], s)"
| "take_n get (Suc n) s = do {
     (d, s) \<leftarrow> get s;
     case d of
       None \<Rightarrow> Some ([], s)
     | Some d \<Rightarrow> do { (ds, s) \<leftarrow> take_n get n s; Some (d # ds, s) }
   }"

locale bounded_fifo =
  fixes rep :: "'s \<Rightarrow> 'd list \<Rightarrow> bool" and cap :: "'s \<Rightarrow> nat"
    and get :: "'s \<Rightarrow> ('d option \<times> 's) option" and putn :: "'d list \<Rightarrow> 's \<Rightarrow> (bool \<times> 's) option"
  assumes get_empty: "rep s [] \<Longrightarrow> get s = Some (None, s)"
    and get_first: "rep s (x # xs) \<Longrightarrow> \<exists>s'. get s = Some (Some x, s') \<and> rep s' xs \<and> cap s' = cap s"
    and putn_room: "rep s xs \<Longrightarrow> length xs + length ds \<le> cap s \<Longrightarrow>
      \<exists>s'. putn ds s = Some (True, s') \<and> rep s' (xs @ ds) \<and> cap s' = cap s"
    and putn_refused: "rep s xs \<Longrightarrow> cap s < length xs + length ds \<Longrightarrow> putn ds s = Some (False, s)"
begin

lemma take_n_rep: "rep s xs \<Longrightarrow> \<exists>s'. take_n get n s = Some (take n xs, s') \<and> rep s' (drop n xs) \<and> cap s' = cap s"
proof (induction n arbitrary: s xs)
  case (Suc n)
  show ?case
  proof (cases xs)
    case Nil
    with Suc.prems get_empty show ?thesis by simp
  next
    case (Cons x ys)
    with Suc.prems get_first obtain s1 where s1: "get s = Some (Some x, s1)" "rep s1 ys" "cap s1 = cap s"
      by blast
    with Suc.IH [OF s1(2)] Cons show ?thesis by auto
  qed
qed simp

lemma write_then_read:
  assumes "rep s xs" "length xs + length ds \<le> cap s"
  shows "\<exists>s1 s2. putn ds s = Some (True, s1) \<and>
    take_n get (length xs + length ds) s1 = Some (xs @ ds, s2) \<and> rep s2 []"
proof -
  obtain s1 where s1: "putn ds s = Some (True, s1)" "rep s1 (xs @ ds)"
    using putn_room [OF assms] by blast
  from take_n_rep [OF s1(2), of "length xs + length ds"] s1(1) show ?thesis by auto
qed

end

definition rb_capacity :: "ringbuffer_t \<Rightarrow> nat" where
  "rb_capacity rb = unat (rb_size rb) - 1"

definition rb_write :: "u8 list \<Rightarrow> ringbuffer_t \<Rightarrow> (bool \<times> ringbuffer_t) option" where
  "rb_write ds rb = (if length ds < 2 ^ 32 then ringbuffer_putn ds (of_nat (length ds)) rb else Some (False, rb))"

lemma rb_write_room:
  assumes rep: "rb_rep rb xs" and room: "length xs + length ds \<le> rb_capacity rb"
  obtains rb' where "rb_write ds rb = Some (True, rb')" "rb_rep rb' (xs @ ds)" "rb_size rb' = rb_size rb"
proof -
  have n: "length xs < unat (rb_size rb)" "unat (rb_size rb) < 2 ^ 32"
    using rep unsigned_less [of "rb_size rb", where ?'a = nat] by (simp_all add: rb_rep_def Let_def)
  with room have len: "length ds < 2 ^ 32" "length xs + length ds < unat (rb_size rb)"
    by (simp_all add: rb_capacity_def)
  then have un: "unat (of_nat (length ds) :: u32) = length ds"
    by (simp add: unsigned_of_nat take_bit_nat_eq_self)
  then have "unat (of_nat (length ds) :: u32) \<le> length ds" by simp
  from rb_rep_putn [OF rep this] obtain rb' where
    "ringbuffer_putn ds (of_nat (length ds)) rb = Some (True, rb')" "rb_rep rb' (xs @ ds)" "rb_size rb' = rb_size rb"
    using len(2) un by auto
  with len(1) show ?thesis by (intro that [of rb']) (simp_all add: rb_write_def)
qed

lemma rb_write_refused:
  assumes rep: "rb_rep rb xs" and full: "rb_capacity rb < length xs + length ds"
  shows "rb_write ds rb = Some (False, rb)"
proof (cases "length ds < 2 ^ 32")
  case True
  then have "unat (of_nat (length ds) :: u32) = length ds"
    by (simp add: unsigned_of_nat take_bit_nat_eq_self)
  moreover from full rep have "\<not> length xs + length ds < unat (rb_size rb)"
    by (auto simp: rb_capacity_def rb_rep_def Let_def)
  ultimately show ?thesis using True rb_putn_guard [OF rep] by (simp add: rb_write_def ringbuffer_putn_def)
qed (simp add: rb_write_def)

interpretation rb: bounded_fifo rb_rep rb_capacity ringbuffer_take rb_write
proof
  show "\<exists>s'. ringbuffer_take s = Some (Some x, s') \<and> rb_rep s' xs \<and> rb_capacity s' = rb_capacity s"
    if "rb_rep s (x # xs)" for s x xs
    by (rule rb_rep_take [OF that]) (auto simp: rb_capacity_def)
  show "\<exists>s'. rb_write ds s = Some (True, s') \<and> rb_rep s' (xs @ ds) \<and> rb_capacity s' = rb_capacity s"
    if "rb_rep s xs" "length xs + length ds \<le> rb_capacity s" for s xs ds
    by (rule rb_write_room [OF that]) (auto simp: rb_capacity_def)
qed (auto intro: rb_rep_take_empty rb_write_refused)

subsection \<open>Theorems\<close>

text \<open>
  C24: The ring buffer is a bounded queue of \<open>size - 1\<close> bytes. A block that fits behind the \<open>xs\<close>
  bytes already waiting is accepted and the reads that follow return \<open>xs\<close> and then the block, in
  order, until the buffer is empty; at every position of the two indices, including wrap-around.
\<close>

theorem ringbuffer_write_then_read:
  assumes rep: "rb_rep rb xs" and data: "unat len = length data"
    and room: "length xs + length data < unat (rb_size rb)"
  shows "\<exists>rb1 rb2. ringbuffer_putn data len rb = Some (True, rb1) \<and>
    unat (ringbuffer_size rb1) = length xs + length data \<and>
    take_n ringbuffer_take (length xs + length data) rb1 = Some (xs @ data, rb2) \<and> ringbuffer_empty rb2"
proof -
  have "unat len \<le> length data" using data by simp
  from rb_rep_putn [OF rep this] obtain rb1 where
    rb1: "ringbuffer_putn data len rb = Some (True, rb1)" "rb_rep rb1 (xs @ data)"
    using data room by auto
  obtain rb2 where "take_n ringbuffer_take (length xs + length data) rb1 = Some (xs @ data, rb2)" "rb_rep rb2 []"
    using rb.take_n_rep [OF rb1(2), of "length xs + length data"] by auto
  with rb1 rb_rep_size [OF rb1(2)] rb_rep_empty [of rb2 "[]"] show ?thesis by auto
qed

lemma rb_rep_wrapped:
  "rb_rep \<lparr>read_index = 3, write_index = 1, rb_size = 4, buf = [8, 0, 0, 7]\<rparr> [7, 8]"
  by (simp add: rb_rep_def Let_def All_less_Suc)

theorem ringbuffer_write_then_read_witness:
  "\<exists>rb1 rb2. ringbuffer_putn [9] 1 \<lparr>read_index = 3, write_index = 1, rb_size = 4, buf = [8, 0, 0, 7]\<rparr> = Some (True, rb1) \<and>
     take_n ringbuffer_take 3 rb1 = Some ([7, 8, 9], rb2) \<and> ringbuffer_empty rb2"
  using ringbuffer_write_then_read [OF rb_rep_wrapped, of 1 "[9]"] by (auto simp: numeral_3_eq_3)

text \<open>
  A write that does not fit is refused as a whole and leaves the buffer exactly as it was: a
  single byte when \<open>size - 1\<close> bytes wait, a block when the free space is smaller than it.
\<close>

theorem ringbuffer_refuses_overflow:
  assumes "rb_rep rb xs" and "unat (rb_size rb) \<le> length xs + unat len"
  shows "ringbuffer_putn data len rb = Some (False, rb) \<and>
    (len = 1 \<longrightarrow> ringbuffer_put d rb = Some (False, rb))"
proof
  from assms rb_putn_guard [OF assms(1), of len] show "ringbuffer_putn data len rb = Some (False, rb)"
    by (simp add: ringbuffer_putn_def)
  from assms rb_rep_full [OF assms(1)] show "len = 1 \<longrightarrow> ringbuffer_put d rb = Some (False, rb)"
    by (auto simp: ringbuffer_put_def rb_rep_def Let_def)
qed

theorem ringbuffer_refuses_overflow_witness:
  "ringbuffer_putn [9, 9] 2 \<lparr>read_index = 3, write_index = 1, rb_size = 4, buf = [8, 0, 0, 7]\<rparr> =
     Some (False, \<lparr>read_index = 3, write_index = 1, rb_size = 4, buf = [8, 0, 0, 7]\<rparr>)"
  using ringbuffer_refuses_overflow [OF rb_rep_wrapped, of 2 "[9, 9]" 0] by simp

end
