(* ===== verification/IoServer.thy ===== *)
theory IoServer
  imports ClockServer RingBuffer
begin

text \<open>
  The I/O server of a UART, \<^verbatim>\<open>src/io_server/io_server.c\<close>: the server's loop with its two ring
  buffers, the notifiers that move bytes between it and the device, and the calls of its clients.

  Local variables that the C code leaves uninitialised are the \<open>garbage\<close> arguments. A pointer
  \<^verbatim>\<open>uart_base + n\<close> to 32-bit words is the address \<open>uart_base + 4 * n\<close>. The notifier for
  clear-to-send never returns; its loop body is a definition of its own. When a notifier panics because of an
  unknown port, the code behind it would look up the name \<^verbatim>\<open>NULL\<close>, which is undefined: \<open>None\<close>.
\<close>

subsection \<open>Data\<close>

definition IO_SERVER_MSG_MAX_DATA_LEN :: nat where
  "IO_SERVER_MSG_MAX_DATA_LEN = 31"

definition IO_SERVER_BUFFER_SIZE :: u32 where
  "IO_SERVER_BUFFER_SIZE = 128"

definition IO_SERVER_MSG_TYPE_EXIT :: u32 where
  "IO_SERVER_MSG_TYPE_EXIT = 0"

definition IO_SERVER_MSG_TYPE_CLIENT_READ :: u32 where
  "IO_SERVER_MSG_TYPE_CLIENT_READ = 1"

definition IO_SERVER_MSG_TYPE_CLIENT_WRITE :: u32 where
  "IO_SERVER_MSG_TYPE_CLIENT_WRITE = 2"

definition IO_SERVER_MSG_TYPE_NOTIF_RX :: u32 where
  "IO_SERVER_MSG_TYPE_NOTIF_RX = 3"

definition IO_SERVER_MSG_TYPE_NOTIF_TX :: u32 where
  "IO_SERVER_MSG_TYPE_NOTIF_TX = 4"

definition IO_SERVER_MSG_TYPE_NOTIF_CTS :: u32 where
  "IO_SERVER_MSG_TYPE_NOTIF_CTS = 5"

lemmas io_type_defs = IO_SERVER_MSG_TYPE_EXIT_def IO_SERVER_MSG_TYPE_CLIENT_READ_def
  IO_SERVER_MSG_TYPE_CLIENT_WRITE_def IO_SERVER_MSG_TYPE_NOTIF_RX_def IO_SERVER_MSG_TYPE_NOTIF_TX_def
  IO_SERVER_MSG_TYPE_NOTIF_CTS_def

definition IO_SERVER_NAME1 :: "u8 list" where
  "IO_SERVER_NAME1 = cstr ''io-server-1''"

definition IO_SERVER_NAME2 :: "u8 list" where
  "IO_SERVER_NAME2 = cstr ''io-server-2''"

record io_server_state =
  io_msg :: io_server_msg_t
  io_sender_tid :: u8
  io_tx_notifier_tid :: u8
  io_rb_in :: ringbuffer_t
  io_rb_out :: ringbuffer_t
  io_tx_ready :: bool
  io_client_ready :: bool
  io_client_tid :: u8

definition io_reply :: "message \<Rightarrow> io_server_msg_t option" where
  "io_reply m = (case m of IoMsg m \<Rightarrow> Some m | _ \<Rightarrow> None)"

subsection \<open>The server\<close>

text \<open>
  Moving bytes from a ring buffer into the data of a message, starting at position \<open>len\<close>, at most \<open>n\<close> of
  them and until the buffer is empty: the loops of the three cases that send data.
\<close>

fun flush_loop :: "nat \<Rightarrow> nat \<Rightarrow> u8 list \<Rightarrow> ringbuffer_t \<Rightarrow> (nat \<times> u8 list \<times> ringbuffer_t) option" where
  "flush_loop 0 len data rb = Some (len, data, rb)"
| "flush_loop (Suc n) len data rb =
     (if ringbuffer_empty rb then Some (len, data, rb)
      else do {
        (p, rb) \<leftarrow> ringbuffer_take rb;
        c \<leftarrow> p;
        data \<leftarrow> arr_set data len c;
        flush_loop n (Suc len) data rb
      })"

definition io_send :: "u8 \<Rightarrow> io_server_state \<Rightarrow> world \<Rightarrow> (io_server_state \<times> world) option" where
  "io_send tid st w = do { (_, w) \<leftarrow> Reply tid (IoMsg (io_msg st)) w; Some (st, w) }"

definition io_ack :: "io_server_state \<Rightarrow> world \<Rightarrow> (io_server_state \<times> world) option" where
  "io_ack st w = io_send (io_sender_tid st) (st\<lparr>io_msg := (io_msg st)\<lparr>ism_len := 0\<rparr>\<rparr>) w"

text \<open>Filling the message from the output buffer.\<close>

definition fill_out :: "io_server_state \<Rightarrow> io_server_state option" where
  "fill_out st = do {
     (len, data, rb) \<leftarrow> flush_loop IO_SERVER_MSG_MAX_DATA_LEN 0 (ism_data (io_msg st)) (io_rb_out st);
     Some (st\<lparr>io_rb_out := rb, io_msg := (io_msg st)\<lparr>ism_data := data, ism_len := of_nat len\<rparr>\<rparr>)
   }"

definition io_client_read :: "io_server_state \<Rightarrow> world \<Rightarrow> (io_server_state \<times> world) option" where
  "io_client_read st w =
     (if ringbuffer_empty (io_rb_in st) then
        Some (st\<lparr>io_client_ready := True, io_client_tid := io_sender_tid st\<rparr>, w)
      else do {
        (len, data, rb) \<leftarrow> flush_loop (unat (ism_len (io_msg st))) 0 (ism_data (io_msg st)) (io_rb_in st);
        let st = st\<lparr>io_rb_in := rb, io_msg := (io_msg st)\<lparr>ism_data := data, ism_len := of_nat len\<rparr>\<rparr>;
        io_send (io_sender_tid st) st w
      })"

definition io_client_write :: "io_server_state \<Rightarrow> world \<Rightarrow> (io_server_state \<times> world) option" where
  "io_client_write st w = do {
     (ok, rb) \<leftarrow> ringbuffer_putn (ism_data (io_msg st)) (ism_len (io_msg st)) (io_rb_out st);
     let st = st\<lparr>io_rb_out := rb\<rparr>;
     (st, w) \<leftarrow>
       (if \<not> ok then do { w \<leftarrow> panic (line ''Not enough space in ringbuffer!'') w; Some (st, w) }
        else if io_tx_ready st then do {
          st \<leftarrow> fill_out st;
          (st, w) \<leftarrow> io_send (io_tx_notifier_tid st) st w;
          Some (st\<lparr>io_tx_ready := False\<rparr>, w)
        }
        else Some (st, w));
     io_ack st w
   }"

definition io_notif_rx :: "io_server_state \<Rightarrow> world \<Rightarrow> (io_server_state \<times> world) option" where
  "io_notif_rx st w = do {
     c \<leftarrow> arr_get (ism_data (io_msg st)) 0;
     (ok, rb) \<leftarrow> ringbuffer_put c (io_rb_in st);
     let st = st\<lparr>io_rb_in := rb\<rparr>;
     (st, w) \<leftarrow>
       (if \<not> ok then do { w \<leftarrow> panic (line ''Input ringbuffer full!'') w; Some (st, w) }
        else if io_client_ready st then do {
          (p, rb) \<leftarrow> ringbuffer_take (io_rb_in st);
          c \<leftarrow> p;
          data \<leftarrow> arr_set (ism_data (io_msg st)) 0 c;
          let st = st\<lparr>io_rb_in := rb, io_msg := (io_msg st)\<lparr>ism_data := data, ism_len := 1\<rparr>\<rparr>;
          (st, w) \<leftarrow> io_send (io_client_tid st) st w;
          Some (st\<lparr>io_client_ready := False\<rparr>, w)
        }
        else Some (st, w));
     io_ack st w
   }"

definition io_notif_tx :: "io_server_state \<Rightarrow> world \<Rightarrow> (io_server_state \<times> world) option" where
  "io_notif_tx st w = do {
     st \<leftarrow> fill_out st;
     if ism_len (io_msg st) > 0 then io_send (io_sender_tid st) st w
     else Some (st\<lparr>io_tx_ready := True\<rparr>, w)
   }"

definition io_server_body :: "io_server_state \<Rightarrow> world \<Rightarrow> (io_server_state \<times> world) option" where
  "io_server_body st w = do {
     (res, tid, m, w) \<leftarrow> Receive (io_sender_tid st) (IoMsg (io_msg st)) w;
     msg \<leftarrow> io_reply m;
     let st = st\<lparr>io_sender_tid := tid, io_msg := msg\<rparr>;
     w \<leftarrow> (if sint res < 0 then panic (line ''IO server error when receiving'') w else Some w);
     if ism_type msg = IO_SERVER_MSG_TYPE_CLIENT_READ then io_client_read st w
     else if ism_type msg = IO_SERVER_MSG_TYPE_CLIENT_WRITE then io_client_write st w
     else if ism_type msg = IO_SERVER_MSG_TYPE_NOTIF_RX then io_notif_rx st w
     else if ism_type msg = IO_SERVER_MSG_TYPE_NOTIF_TX then io_notif_tx st w
     else if ism_type msg = IO_SERVER_MSG_TYPE_EXIT then Some (st, w)
     else do { w \<leftarrow> panic (line ''IO server received unknown message type'') w; Some (st, w) }
   }"

partial_function (option) io_server_loop ::
  "io_server_state \<Rightarrow> world \<Rightarrow> (io_server_state \<times> world) option"
where
  "io_server_loop st w = do {
     (st, w) \<leftarrow> io_server_body st w;
     if ism_type (io_msg st) \<noteq> IO_SERVER_MSG_TYPE_EXIT then io_server_loop st w else Some (st, w)
   }"

text \<open>The shutdown: wait for a message of each notifier and answer it with the exit type.\<close>

partial_function (option) exit_notifiers ::
  "nat \<Rightarrow> io_server_state \<Rightarrow> world \<Rightarrow> (io_server_state \<times> world) option"
where
  "exit_notifiers notifier_exit_count st w =
     (if notifier_exit_count < 2 then do {
        (_, tid, m, w) \<leftarrow> Receive (io_sender_tid st) (IoMsg (io_msg st)) w;
        msg \<leftarrow> io_reply m;
        let st = st\<lparr>io_sender_tid := tid, io_msg := msg\<rparr>;
        if ism_type msg = IO_SERVER_MSG_TYPE_NOTIF_RX \<or> ism_type msg = IO_SERVER_MSG_TYPE_NOTIF_TX then do {
          (st, w) \<leftarrow> io_send tid (st\<lparr>io_msg := msg\<lparr>ism_type := IO_SERVER_MSG_TYPE_EXIT\<rparr>\<rparr>) w;
          exit_notifiers (Suc notifier_exit_count) st w
        }
        else exit_notifiers notifier_exit_count st w
      }
      else Some (st, w))"

definition byte_msg :: "message \<Rightarrow> u8 option" where
  "byte_msg m = (case m of ByteMsg b \<Rightarrow> Some b | _ \<Rightarrow> None)"

text \<open>How the server and its notifiers learn from their parent which port they serve.\<close>

definition receive_com_num :: "u8 \<Rightarrow> u8 \<Rightarrow> string \<Rightarrow> world \<Rightarrow> (i32 \<times> u8 \<times> u8 \<times> world) option" where
  "receive_com_num sender_tid com_num err w = do {
     (res, sender_tid, m, w) \<leftarrow> Receive sender_tid (ByteMsg com_num) w;
     com_num \<leftarrow> byte_msg m;
     w \<leftarrow> (if sint res < 0 then panic err w else Some w);
     (_, w) \<leftarrow> Reply sender_tid NoMsg w;
     Some (res, sender_tid, com_num, w)
   }"

definition get_com_num :: "u8 \<Rightarrow> u8 \<Rightarrow> string \<Rightarrow> world \<Rightarrow> (u8 \<times> u8 \<times> world) option" where
  "get_com_num sender_tid com_num err w = do {
     (_, sender_tid, com_num, w) \<leftarrow> receive_com_num sender_tid com_num err w;
     Some (sender_tid, com_num, w)
   }"

definition send_com_num :: "u8 \<Rightarrow> u8 \<Rightarrow> string \<Rightarrow> world \<Rightarrow> world option" where
  "send_com_num tid com_num err w = do {
     (res, _, w) \<leftarrow> Send tid (ByteMsg com_num) 0 w;
     if sint res < 0 then panic err w else Some w
   }"

text \<open>Registration and the creation of the notifiers; the result is the transmit notifier's id.\<close>

definition io_server_setup :: "u8 \<Rightarrow> world \<Rightarrow> (u8 \<times> world) option" where
  "io_server_setup com_num w = do {
     w \<leftarrow>
       (if ucast com_num = COM1 then do { (_, w) \<leftarrow> RegisterAs IO_SERVER_NAME1 w; Some w }
        else if ucast com_num = COM2 then do { (_, w) \<leftarrow> RegisterAs IO_SERVER_NAME2 w; Some w }
        else panic ''io server got unexpected com num'' w);
     (tx, w) \<leftarrow> Create 1 ''io_server_notifier_tx_main'' w;
     (rx, w) \<leftarrow> Create 1 ''io_server_notifier_rx_main'' w;
     w \<leftarrow> send_com_num (ucast tx) com_num ''io server failed to send COM number to tx notifier'' w;
     w \<leftarrow> send_com_num (ucast rx) com_num ''io server failed to send COM number to rx notifier'' w;
     Some (ucast tx, w)
   }"

definition io_server_main ::
  "u8 list \<Rightarrow> u8 list \<Rightarrow> io_server_msg_t \<Rightarrow> u8 \<Rightarrow> u8 \<Rightarrow> world \<Rightarrow> world option"
where
  "io_server_main in_buf out_buf msg garbage_tid garbage_com w = do {
     let rb_in = ringbuffer_init in_buf IO_SERVER_BUFFER_SIZE;
     let rb_out = ringbuffer_init out_buf IO_SERVER_BUFFER_SIZE;
     (sender_tid, com_num, w) \<leftarrow> get_com_num garbage_tid garbage_com ''io server failed to get COM number'' w;
     (tx_notifier_tid, w) \<leftarrow> io_server_setup com_num w;
     (st, w) \<leftarrow> io_server_loop
       \<lparr>io_msg = msg, io_sender_tid = sender_tid, io_tx_notifier_tid = tx_notifier_tid, io_rb_in = rb_in,
        io_rb_out = rb_out, io_tx_ready = False, io_client_ready = False, io_client_tid = 0\<rparr> w;
     (_, w) \<leftarrow> exit_notifiers 0 st w;
     Some (Exit (say ''IO server shutting down'' [] w))
   }"

subsection \<open>The receive notifier\<close>

text \<open>
  The source tests the variable \<open>res\<close> of the first \<open>Receive\<close> after \<open>AwaitEvent\<close>, the parameter \<open>res0\<close>, which
  is not negative unless that \<open>Receive\<close> failed, so a failed \<open>AwaitEvent\<close> is not noticed.
\<close>

partial_function (option) rx_loop ::
  "i32 \<Rightarrow> u8 \<Rightarrow> u32 \<Rightarrow> io_server_msg_t \<Rightarrow> io_server_msg_t \<Rightarrow> world \<Rightarrow> world option"
where
  "rx_loop res0 io_server_tid rx_event msg rep w = do {
     (data, w) \<leftarrow> AwaitEvent rx_event w;
     w \<leftarrow> (if sint res0 < 0 then panic ''rx notifier failed to await event'' w else Some w);
     d \<leftarrow> arr_set (ism_data msg) 0 (ucast data);
     let msg = msg\<lparr>ism_data := d\<rparr>;
     (res, r, w) \<leftarrow> Send io_server_tid (IoMsg msg) 40 w;
     rep \<leftarrow> (case r of None \<Rightarrow> Some rep | Some m \<Rightarrow> io_reply m);
     (rep, w) \<leftarrow>
       (if sint res < 0 then do {
          w \<leftarrow> panic (line ''Send to io server failed'') w;
          Some (rep\<lparr>ism_type := IO_SERVER_MSG_TYPE_NOTIF_RX\<rparr>, w)
        }
        else Some (rep, w));
     if ism_type rep \<noteq> IO_SERVER_MSG_TYPE_EXIT then rx_loop res0 io_server_tid rx_event msg rep w else Some w
   }"

definition io_server_notifier_rx_main ::
  "u8 list \<Rightarrow> io_server_msg_t \<Rightarrow> u8 \<Rightarrow> u8 \<Rightarrow> world \<Rightarrow> world option"
where
  "io_server_notifier_rx_main garbage_data garbage_rep garbage_tid garbage_com w = do {
     let msg = \<lparr>ism_type = IO_SERVER_MSG_TYPE_NOTIF_RX, ism_data = garbage_data, ism_len = 1\<rparr>;
     (res0, _, com_num, w) \<leftarrow> receive_com_num garbage_tid garbage_com ''rx notifier failed to get COM number'' w;
     (io_server_name, rx_event) \<leftarrow>
       (if ucast com_num = COM1 then Some (IO_SERVER_NAME1, SYS_CALL_EVENT_UART1_RX)
        else if ucast com_num = COM2 then Some (IO_SERVER_NAME2, SYS_CALL_EVENT_UART2_RX)
        else do { _ \<leftarrow> panic ''rx notifier got unexpected com_num'' w; None });
     (tid, w) \<leftarrow> WhoIs io_server_name w;
     w \<leftarrow> rx_loop res0 (ucast tid) rx_event msg garbage_rep w;
     Some (Exit (say ''IO server rx notifier shutting down'' [] w))
   }"

subsection \<open>The clear-to-send notifier\<close>

definition send_cts :: "u8 \<Rightarrow> world \<Rightarrow> world option" where
  "send_cts tx_notifier_tid w = do {
     (res, _, w) \<leftarrow> Send tx_notifier_tid NoMsg 0 w;
     if sint res < 0 then panic (line ''Send to io server failed'') w else Some w
   }"

definition cts_pass :: "i32 \<Rightarrow> u8 \<Rightarrow> u8 \<Rightarrow> world \<Rightarrow> world option" where
  "cts_pass garbage clock_server_tid tx_notifier_tid w = do {
     (cur_time, w) \<leftarrow> Time garbage (ucast clock_server_tid) w;
     (res, w) \<leftarrow> AwaitEvent SYS_CALL_EVENT_UART1_MS w;
     w \<leftarrow> (if sint res < 0 then panic ''cts notifier failed to await event'' w else Some w);
     (flag, w) \<leftarrow> reg_load (UART1_BASE + 4 * UART_FLAG_OFFSET) w;
     if flag AND CTS_MASK = 0 then do {
       (_, w) \<leftarrow> DelayUntil (ucast clock_server_tid) (cur_time + 1) w;
       send_cts tx_notifier_tid w
     }
     else Some w
   }"

partial_function (option) cts_loop :: "i32 \<Rightarrow> u8 \<Rightarrow> u8 \<Rightarrow> world \<Rightarrow> world option" where
  "cts_loop garbage clock_server_tid tx_notifier_tid w = do {
     w \<leftarrow> cts_pass garbage clock_server_tid tx_notifier_tid w;
     cts_loop garbage clock_server_tid tx_notifier_tid w
   }"

definition io_server_notifier_cts_main :: "i32 \<Rightarrow> u8 \<Rightarrow> world \<Rightarrow> world option" where
  "io_server_notifier_cts_main garbage garbage_tid w = do {
     (tid, w) \<leftarrow> WhoIs CLOCK_SERVER_NAME w;
     (_, tx_notifier_tid, _, w) \<leftarrow> Receive garbage_tid NoMsg w;
     (_, w) \<leftarrow> Reply tx_notifier_tid NoMsg w;
     w \<leftarrow> send_cts tx_notifier_tid w;
     w \<leftarrow> cts_loop garbage (ucast tid) tx_notifier_tid w;
     Some (Exit (say ''IO server cts notifier shutting down'' [] w))
   }"

subsection \<open>The transmit notifier\<close>

text \<open>
  The bytes of the last reply, each written when the device is ready; on COM1 also the clear-to-send
  notifier has to report first. \<open>n\<close> is what is left of \<open>rep.len\<close>.
\<close>

fun transmit :: "bool \<Rightarrow> u32 \<Rightarrow> u32 \<Rightarrow> u8 list \<Rightarrow> nat \<Rightarrow> nat \<Rightarrow> u8 \<Rightarrow> world \<Rightarrow> (u8 \<times> world) option" where
  "transmit com1 uart tx_event data i 0 cts_tid w = Some (cts_tid, w)"
| "transmit com1 uart tx_event data i (Suc n) cts_tid w = do {
     (res, w) \<leftarrow> AwaitEvent tx_event w;
     (cts_tid, w) \<leftarrow>
       (if com1 then do {
          (_, cts_tid, _, w) \<leftarrow> Receive cts_tid NoMsg w;
          (_, w) \<leftarrow> Reply cts_tid NoMsg w;
          Some (cts_tid, w)
        }
        else Some (cts_tid, w));
     w \<leftarrow> (if sint res < 0 then panic ''tx notifier failed to await event'' w else Some w);
     c \<leftarrow> arr_get data i;
     transmit com1 uart tx_event data (Suc i) n cts_tid
       (reg_store (uart + 4 * UART_DATA_OFFSET) (0xFF AND ucast c) w)
   }"

partial_function (option) tx_loop ::
  "bool \<Rightarrow> u32 \<Rightarrow> u32 \<Rightarrow> u8 \<Rightarrow> io_server_msg_t \<Rightarrow> io_server_msg_t \<Rightarrow> u8 \<Rightarrow> world \<Rightarrow> world option"
where
  "tx_loop com1 uart tx_event io_server_tid msg rep cts_tid w = do {
     (cts_tid, w) \<leftarrow> transmit com1 uart tx_event (ism_data rep) 0 (unat (ism_len rep)) cts_tid w;
     let rep = rep\<lparr>ism_len := 0\<rparr>;
     (res, r, w) \<leftarrow> Send io_server_tid (IoMsg msg) 40 w;
     rep \<leftarrow> (case r of None \<Rightarrow> Some rep | Some m \<Rightarrow> io_reply m);
     (rep, w) \<leftarrow>
       (if sint res < 0 then do {
          w \<leftarrow> panic (line ''Send to io server failed'') w;
          Some (rep\<lparr>ism_len := 0, ism_type := IO_SERVER_MSG_TYPE_NOTIF_TX\<rparr>, w)
        }
        else Some (rep, w));
     if ism_type rep \<noteq> IO_SERVER_MSG_TYPE_EXIT
     then tx_loop com1 uart tx_event io_server_tid msg rep cts_tid w else Some w
   }"

definition start_cts :: "world \<Rightarrow> (u8 \<times> world) option" where
  "start_cts w = do {
     (cts_tid, w) \<leftarrow> Create 1 ''io_server_notifier_cts_main'' w;
     (_, _, w) \<leftarrow> Send (ucast cts_tid) NoMsg 0 w;
     Some (ucast cts_tid, w)
   }"

definition io_server_notifier_tx_main ::
  "u8 list \<Rightarrow> io_server_msg_t \<Rightarrow> u8 \<Rightarrow> u8 \<Rightarrow> u8 \<Rightarrow> world \<Rightarrow> world option"
where
  "io_server_notifier_tx_main garbage_data garbage_rep garbage_tid garbage_com garbage_cts w = do {
     let msg = \<lparr>ism_type = IO_SERVER_MSG_TYPE_NOTIF_TX, ism_data = garbage_data, ism_len = 0\<rparr>;
     let rep = garbage_rep\<lparr>ism_len := 0\<rparr>;
     (_, com_num, w) \<leftarrow> get_com_num garbage_tid garbage_com ''tx notifier failed to get COM number'' w;
     (uart, io_server_name, tx_event, cts_tid, w) \<leftarrow>
       (if ucast com_num = COM1 then do {
          (cts_tid, w) \<leftarrow> start_cts w;
          Some (UART1_BASE, IO_SERVER_NAME1, SYS_CALL_EVENT_UART1_TX, cts_tid, w)
        }
        else if ucast com_num = COM2 then
          Some (UART2_BASE, IO_SERVER_NAME2, SYS_CALL_EVENT_UART2_TX, garbage_cts, w)
        else do { _ \<leftarrow> panic ''tx notifier got unexpected com_num'' w; None });
     (tid, w) \<leftarrow> WhoIs io_server_name w;
     w \<leftarrow> tx_loop (ucast com_num = COM1) uart tx_event (ucast tid) msg rep cts_tid w;
     Some (Exit (say ''IO server tx notifier shutting down'' [] w))
   }"

subsection \<open>Client calls\<close>

definition io_server_exit :: "u8 list \<Rightarrow> u8 \<Rightarrow> world \<Rightarrow> world option" where
  "io_server_exit garbage io_server_tid w = do {
     let msg = \<lparr>ism_type = IO_SERVER_MSG_TYPE_EXIT, ism_data = garbage, ism_len = 0\<rparr>;
     (res, _, w) \<leftarrow> Send io_server_tid (IoMsg msg) 40 w;
     if sint res < 0 then panic (line ''Error occurred shutting down io server'') w else Some w
   }"

definition io_server_start :: "u8 \<Rightarrow> u8 \<Rightarrow> world \<Rightarrow> (u8 \<times> world) option" where
  "io_server_start priority uart w = do {
     (tid, w) \<leftarrow> Create (ucast priority) ''io_server_main'' w;
     w \<leftarrow> send_com_num (ucast tid) uart ''failed to start io server'' w;
     Some (ucast tid, w)
   }"

definition Getc :: "u8 list \<Rightarrow> i32 \<Rightarrow> i32 \<Rightarrow> world \<Rightarrow> (i32 \<times> world) option" where
  "Getc garbage tid uart w = do {
     let msg = \<lparr>ism_type = IO_SERVER_MSG_TYPE_CLIENT_READ, ism_data = garbage, ism_len = 1\<rparr>;
     (res, r, w) \<leftarrow> Send (ucast tid) (IoMsg msg) 40 w;
     if sint res < 0 then Some (- 2, say ''Error occurred getting char'' [] w)
     else do { m \<leftarrow> r; rep \<leftarrow> io_reply m; c \<leftarrow> arr_get (ism_data rep) 0; Some (ucast c, w) }
   }"

definition Putc :: "u8 list \<Rightarrow> i32 \<Rightarrow> i32 \<Rightarrow> u8 \<Rightarrow> world \<Rightarrow> (i32 \<times> world) option" where
  "Putc garbage tid uart ch w = do {
     data \<leftarrow> arr_set garbage 0 ch;
     let msg = \<lparr>ism_type = IO_SERVER_MSG_TYPE_CLIENT_WRITE, ism_data = data, ism_len = 1\<rparr>;
     (res, r, w) \<leftarrow> Send (ucast tid) (IoMsg msg) 40 w;
     Some (if sint res < 0 then (- 2, say ''Error occurred putting char'' [] w) else (0, w))
   }"

definition Putstr :: "u8 list \<Rightarrow> i32 \<Rightarrow> i32 \<Rightarrow> u8 list \<Rightarrow> u32 \<Rightarrow> world \<Rightarrow> (i32 \<times> world) option" where
  "Putstr garbage tid uart str len w = do {
     let n = (if len < of_nat IO_SERVER_MSG_MAX_DATA_LEN then len else of_nat IO_SERVER_MSG_MAX_DATA_LEN);
     data \<leftarrow> (if unat n \<le> length str then Some (take (unat n) str @ drop (unat n) garbage) else None);
     let msg = \<lparr>ism_type = IO_SERVER_MSG_TYPE_CLIENT_WRITE, ism_data = data, ism_len = n\<rparr>;
     (res, r, w) \<leftarrow> Send (ucast tid) (IoMsg msg) 40 w;
     Some (if sint res < 0 then (- 2, say ''Error occurred putting str'' [] w) else (0, w))
   }"

end
