(* ===== verification/IoProps.thy ===== *)
theory IoProps
  imports IoServer
begin

text \<open>
  What the I/O server promises: the abstract service \<open>io_spec\<close> with a queue of bytes in each direction,
  and the proof that the server with its ring buffers implements it.
\<close>

subsection \<open>Moving bytes into a message\<close>

lemma flush_loop_rep:
  assumes "rb_rep rb xs" "len + length (take n xs) \<le> length data"
  obtains rb' where "flush_loop n len data rb = Some (len + length (take n xs),
      take len data @ take n xs @ drop (len + length (take n xs)) data, rb')"
    "rb_rep rb' (drop n xs)" "rb_size rb' = rb_size rb"
proof -
  have "\<exists>rb'. flush_loop n len data rb = Some (len + length (take n xs),
      take len data @ take n xs @ drop (len + length (take n xs)) data, rb') \<and>
    rb_rep rb' (drop n xs) \<and> rb_size rb' = rb_size rb"
    using assms
  proof (induction n arbitrary: xs len data rb)
    case 0
    then show ?case by simp
  next
    case (Suc n)
    show ?case
    proof (cases xs)
      case Nil
      with Suc.prems(1) rb_rep_empty [of rb "[]"] show ?thesis by simp
    next
      case (Cons x ys)
      then obtain rb1 where rb1: "ringbuffer_take rb = Some (Some x, rb1)" "rb_rep rb1 ys" "rb_size rb1 = rb_size rb"
        using Suc.prems(1) by (auto elim: rb_rep_take)
      have len: "len < length data" using Suc.prems(2) Cons by simp
      have "Suc len + length (take n ys) \<le> length (data[len := x])" using Suc.prems(2) Cons by simp
      from Suc.IH [OF rb1(2) this] obtain rb' where
        "flush_loop n (Suc len) (data[len := x]) rb1 = Some (Suc len + length (take n ys),
          take (Suc len) (data[len := x]) @ take n ys @ drop (Suc len + length (take n ys)) (data[len := x]), rb')"
        "rb_rep rb' (drop n ys)" "rb_size rb' = rb_size rb"
        using rb1(3) by auto
      moreover have "take (Suc len) (data[len := x]) = take len data @ [x]"
        using len by (simp add: take_Suc_conv_app_nth)
      ultimately show ?thesis
        using rb1(1) Cons len rb_rep_empty [OF Suc.prems(1)] by simp
    qed
  qed
  then show ?thesis using that by blast
qed

text \<open>The message with the bytes \<open>bs\<close> as its data.\<close>

definition load :: "io_server_msg_t \<Rightarrow> u8 list \<Rightarrow> io_server_msg_t" where
  "load msg bs = msg\<lparr>ism_data := bs @ drop (length bs) (ism_data msg), ism_len := of_nat (length bs)\<rparr>"

definition payload :: "io_server_msg_t \<Rightarrow> u8 list" where
  "payload msg = take (unat (ism_len msg)) (ism_data msg)"

lemma payload_load: "length bs < 2 ^ 32 \<Longrightarrow> payload (load msg bs) = bs"
  by (simp add: payload_def load_def unsigned_of_nat take_bit_nat_eq_self)

lemma load_type [simp]: "ism_type (load msg bs) = ism_type msg"
  by (simp add: load_def)

lemma load_length: "length bs \<le> length (ism_data msg) \<Longrightarrow> length (ism_data (load msg bs)) = length (ism_data msg)"
  by (simp add: load_def)

lemma fill_out_rep:
  assumes "rb_rep (io_rb_out st) xs" "length (ism_data (io_msg st)) = 31"
  obtains rb where "fill_out st = Some (st\<lparr>io_rb_out := rb, io_msg := load (io_msg st) (take 31 xs)\<rparr>)"
    "rb_rep rb (drop 31 xs)" "rb_size rb = rb_size (io_rb_out st)"
proof -
  have "0 + length (take 31 xs) \<le> length (ism_data (io_msg st))" using assms(2) by simp
  from flush_loop_rep [OF assms(1) this] obtain rb where
    "flush_loop 31 0 (ism_data (io_msg st)) (io_rb_out st) =
      Some (0 + length (take 31 xs), take 0 (ism_data (io_msg st)) @ take 31 xs @ drop (0 + length (take 31 xs)) (ism_data (io_msg st)), rb)"
    "rb_rep rb (drop 31 xs)" "rb_size rb = rb_size (io_rb_out st)"
    by blast
  then show ?thesis
    by (intro that [of rb]) (simp_all add: fill_out_def IO_SERVER_MSG_MAX_DATA_LEN_def load_def)
qed

subsection \<open>The abstract service\<close>

text \<open>
  The bytes that came in and wait for a reader, the bytes that wait to be transmitted, whether the
  transmit notifier \<open>tx\<close> waits for some, and the reader that waits for a byte. A reader gets
  what is there, a waiting reader gets the next byte; the transmit notifier gets at most 31 bytes at a
  time.
\<close>

record io_service_state =
  si_in :: "u8 list"
  si_out :: "u8 list"
  si_tx_ready :: bool
  si_client :: "u8 option"

definition ack :: "io_server_msg_t \<Rightarrow> message" where
  "ack msg = IoMsg (msg\<lparr>ism_len := 0\<rparr>)"

definition read_spec :: "(io_server_msg_t, io_service_state) service" where
  "read_spec t msg S =
     (if si_in S = [] then (S\<lparr>si_client := Some t\<rparr>, [])
      else let n = unat (ism_len msg)
           in (S\<lparr>si_in := drop n (si_in S)\<rparr>, [(t, IoMsg (load msg (take n (si_in S))))]))"

definition write_spec :: "u8 \<Rightarrow> (io_server_msg_t, io_service_state) service" where
  "write_spec tx t msg S =
     (let out = si_out S @ payload msg
      in if si_tx_ready S
         then (S\<lparr>si_out := drop 31 out, si_tx_ready := False\<rparr>,
               [(tx, IoMsg (load msg (take 31 out))), (t, ack (load msg (take 31 out)))])
         else (S\<lparr>si_out := out\<rparr>, [(t, ack msg)]))"

definition rx_spec :: "(io_server_msg_t, io_service_state) service" where
  "rx_spec t msg S =
     (let c = ism_data msg ! 0
      in case si_client S of
           None \<Rightarrow> (S\<lparr>si_in := si_in S @ [c]\<rparr>, [(t, ack msg)])
         | Some client \<Rightarrow> (S\<lparr>si_client := None\<rparr>, [(client, IoMsg (load msg [c])), (t, ack (load msg [c]))]))"

definition tx_spec :: "(io_server_msg_t, io_service_state) service" where
  "tx_spec t msg S =
     (if si_out S = [] then (S\<lparr>si_tx_ready := True\<rparr>, [])
      else (S\<lparr>si_out := drop 31 (si_out S)\<rparr>, [(t, IoMsg (load msg (take 31 (si_out S))))]))"

definition io_spec :: "u8 \<Rightarrow> (io_server_msg_t, io_service_state) service" where
  "io_spec tx t msg S =
     (if ism_type msg = IO_SERVER_MSG_TYPE_CLIENT_READ then read_spec t msg S
      else if ism_type msg = IO_SERVER_MSG_TYPE_CLIENT_WRITE then write_spec tx t msg S
      else if ism_type msg = IO_SERVER_MSG_TYPE_NOTIF_RX then rx_spec t msg S
      else if ism_type msg = IO_SERVER_MSG_TYPE_NOTIF_TX then tx_spec t msg S
      else (S, []))"

text \<open>
  The clients' side: messages have the length of the structure and a known type, only the transmit
  notifier sends its messages, and the buffers of 127 bytes do not overflow.
\<close>

definition io_ok :: "u8 \<Rightarrow> u8 \<Rightarrow> io_server_msg_t \<Rightarrow> io_service_state \<Rightarrow> bool" where
  "io_ok tx t msg S \<longleftrightarrow>
     length (ism_data msg) = 31 \<and> ism_type msg \<le> IO_SERVER_MSG_TYPE_NOTIF_TX \<and>
     (ism_type msg = IO_SERVER_MSG_TYPE_CLIENT_READ \<longrightarrow> unat (ism_len msg) \<le> 31) \<and>
     (ism_type msg = IO_SERVER_MSG_TYPE_CLIENT_WRITE \<longrightarrow>
        unat (ism_len msg) \<le> 31 \<and> length (si_out S) + unat (ism_len msg) \<le> 127) \<and>
     (ism_type msg = IO_SERVER_MSG_TYPE_NOTIF_RX \<longrightarrow> length (si_in S) < 127) \<and>
     (ism_type msg = IO_SERVER_MSG_TYPE_NOTIF_TX) = (t = tx)"

definition io_rep :: "u8 \<Rightarrow> io_server_state \<Rightarrow> io_service_state \<Rightarrow> bool" where
  "io_rep tx st S \<longleftrightarrow>
     io_tx_notifier_tid st = tx \<and> rb_size (io_rb_in st) = 128 \<and> rb_size (io_rb_out st) = 128 \<and>
     rb_rep (io_rb_in st) (si_in S) \<and> rb_rep (io_rb_out st) (si_out S) \<and> io_tx_ready st = si_tx_ready S \<and>
     si_client S = (if io_client_ready st then Some (io_client_tid st) else None) \<and>
     (si_client S \<noteq> None \<longrightarrow> si_in S = [])"

text \<open>One case of the switch, on a state that holds the request.\<close>

definition io_case_ok ::
  "(io_server_state \<Rightarrow> world \<Rightarrow> (io_server_state \<times> world) option) \<Rightarrow> u8 \<Rightarrow> io_server_state \<Rightarrow>
     io_service_state \<times> (u8 \<times> message) list \<Rightarrow> world \<Rightarrow> bool"
where
  "io_case_ok f tx st r w \<longleftrightarrow> (\<exists>st' w'. f st w = Some (st', w') \<and> io_rep tx st' (fst r) \<and>
     advances w 0 (snd r) w' \<and> ism_type (io_msg st') = ism_type (io_msg st))"

lemma io_send_advances:
  assumes "replies_return w"
  obtains w' where "io_send t st w = Some (st, w')" "advances w 0 [(t, IoMsg (io_msg st))] w'"
proof -
  obtain r w' where "Reply t (IoMsg (io_msg st)) w = Some (r, w')" "advances w 0 [(t, IoMsg (io_msg st))] w'"
    by (rule Reply_advances [OF assms])
  then show ?thesis by (intro that) (simp_all add: io_send_def)
qed

lemma io_ack_advances:
  assumes "replies_return w"
  obtains w' where "io_ack st w = Some (st\<lparr>io_msg := (io_msg st)\<lparr>ism_len := 0\<rparr>\<rparr>, w')"
    "advances w 0 [(io_sender_tid st, ack (io_msg st))] w'"
  using io_send_advances [OF assms, of "io_sender_tid st" "st\<lparr>io_msg := (io_msg st)\<lparr>ism_len := 0\<rparr>\<rparr>"] that
  by (auto simp: io_ack_def ack_def)

lemma io_client_read_step:
  assumes "io_rep tx st S" "replies_return w" "length (ism_data (io_msg st)) = 31" "unat (ism_len (io_msg st)) \<le> 31"
  shows "io_case_ok io_client_read tx st (read_spec (io_sender_tid st) (io_msg st) S) w"
proof (cases "si_in S = []")
  case True
  then show ?thesis
    using assms(1) rb_rep_empty [of "io_rb_in st" "si_in S"]
    by (auto simp: io_case_ok_def io_client_read_def read_spec_def io_rep_def)
next
  case False
  let ?n = "unat (ism_len (io_msg st))"
  have rb: "rb_rep (io_rb_in st) (si_in S)" and client: "si_client S = None"
    using assms(1) False by (auto simp: io_rep_def)
  have "0 + length (take ?n (si_in S)) \<le> length (ism_data (io_msg st))" using assms(3,4) by simp
  from flush_loop_rep [OF rb this] obtain rb' where
    fl: "flush_loop ?n 0 (ism_data (io_msg st)) (io_rb_in st) = Some (0 + length (take ?n (si_in S)),
        take 0 (ism_data (io_msg st)) @ take ?n (si_in S) @ drop (0 + length (take ?n (si_in S))) (ism_data (io_msg st)), rb')"
      "rb_rep rb' (drop ?n (si_in S))" "rb_size rb' = rb_size (io_rb_in st)"
    by blast
  let ?st = "st\<lparr>io_rb_in := rb', io_msg := load (io_msg st) (take ?n (si_in S))\<rparr>"
  obtain w' where "io_send (io_sender_tid st) ?st w = Some (?st, w')" "advances w 0 [(io_sender_tid st, IoMsg (io_msg ?st))] w'"
    by (rule io_send_advances [OF assms(2)])
  moreover have "\<not> ringbuffer_empty (io_rb_in st)" using rb_rep_empty [OF rb] False by simp
  ultimately show ?thesis
    using fl assms(1) False client by (auto simp: io_case_ok_def io_client_read_def read_spec_def io_rep_def load_def Let_def)
qed

lemma io_notif_tx_step:
  assumes "io_rep tx st S" "replies_return w" "length (ism_data (io_msg st)) = 31"
  shows "io_case_ok io_notif_tx tx st (tx_spec (io_sender_tid st) (io_msg st) S) w"
proof -
  have "rb_rep (io_rb_out st) (si_out S)" using assms(1) by (simp add: io_rep_def)
  from this assms(3) obtain rb where
    fill: "fill_out st = Some (st\<lparr>io_rb_out := rb, io_msg := load (io_msg st) (take 31 (si_out S))\<rparr>)"
      "rb_rep rb (drop 31 (si_out S))" "rb_size rb = rb_size (io_rb_out st)"
    by (rule fill_out_rep)
  let ?st = "st\<lparr>io_rb_out := rb, io_msg := load (io_msg st) (take 31 (si_out S))\<rparr>"
  show ?thesis
  proof (cases "si_out S = []")
    case True
    with fill assms(1) show ?thesis
      by (auto simp: io_case_ok_def io_notif_tx_def tx_spec_def io_rep_def load_def)
  next
    case False
    obtain w' where w': "io_send (io_sender_tid st) ?st w = Some (?st, w')"
      "advances w 0 [(io_sender_tid st, IoMsg (io_msg ?st))] w'"
      by (rule io_send_advances [OF assms(2)])
    have "ism_len (io_msg ?st) \<noteq> 0"
      using False by (simp add: load_def word_unat_eq_iff unsigned_of_nat take_bit_nat_eq_self)
    then have "io_notif_tx st w = Some (?st, w')"
      using fill(1) w'(1) by (simp add: io_notif_tx_def word_greater_zero_iff)
    with fill(2,3) assms(1) False w'(2) show ?thesis
      by (auto simp: io_case_ok_def tx_spec_def io_rep_def)
  qed
qed

lemma io_client_write_step:
  assumes rep: "io_rep tx st S" and ret: "replies_return w" and len: "length (ism_data (io_msg st)) = 31"
    "unat (ism_len (io_msg st)) \<le> 31" "length (si_out S) + unat (ism_len (io_msg st)) \<le> 127"
  shows "io_case_ok io_client_write tx st (write_spec tx (io_sender_tid st) (io_msg st) S) w"
proof -
  let ?out = "si_out S @ payload (io_msg st)"
  have r: "rb_rep (io_rb_out st) (si_out S)" "rb_size (io_rb_out st) = 128" using rep by (simp_all add: io_rep_def)
  have "unat (ism_len (io_msg st)) \<le> length (ism_data (io_msg st))" using len by simp
  from rb_rep_putn [OF r(1) this] obtain rb where
    put: "ringbuffer_putn (ism_data (io_msg st)) (ism_len (io_msg st)) (io_rb_out st) = Some (True, rb)"
      "rb_rep rb ?out" "rb_size rb = 128"
    using r(2) len(3) by (auto simp: payload_def)
  let ?st = "st\<lparr>io_rb_out := rb\<rparr>"
  show ?thesis
  proof (cases "io_tx_ready st")
    case False
    obtain w' where "io_ack ?st w = Some (?st\<lparr>io_msg := (io_msg ?st)\<lparr>ism_len := 0\<rparr>\<rparr>, w')"
      "advances w 0 [(io_sender_tid ?st, ack (io_msg ?st))] w'"
      by (rule io_ack_advances [OF ret])
    with False put rep show ?thesis
      by (auto simp: io_case_ok_def io_client_write_def write_spec_def io_rep_def Let_def)
  next
    case True
    have "rb_rep (io_rb_out ?st) ?out" "length (ism_data (io_msg ?st)) = 31" using put(2) len(1) by simp_all
    then obtain rb' where
      fill: "fill_out ?st = Some (?st\<lparr>io_rb_out := rb', io_msg := load (io_msg ?st) (take 31 ?out)\<rparr>)"
        "rb_rep rb' (drop 31 ?out)" "rb_size rb' = rb_size (io_rb_out ?st)"
      by (rule fill_out_rep)
    let ?st' = "?st\<lparr>io_rb_out := rb', io_msg := load (io_msg ?st) (take 31 ?out)\<rparr>"
    obtain w1 where w1: "io_send tx ?st' w = Some (?st', w1)" "advances w 0 [(tx, IoMsg (io_msg ?st'))] w1"
      by (rule io_send_advances [OF ret])
    let ?st2 = "?st'\<lparr>io_tx_ready := False\<rparr>"
    have "replies_return w1" using ret advances_replies_return [OF w1(2)] by simp
    then obtain w2 where w2: "io_ack ?st2 w1 = Some (?st2\<lparr>io_msg := (io_msg ?st2)\<lparr>ism_len := 0\<rparr>\<rparr>, w2)"
      "advances w1 0 [(io_sender_tid ?st2, ack (io_msg ?st2))] w2"
      by (rule io_ack_advances)
    have "io_client_write st w = Some (?st2\<lparr>io_msg := (io_msg ?st2)\<lparr>ism_len := 0\<rparr>\<rparr>, w2)"
      using True put(1) fill(1) w1(1) w2(1) rep by (simp add: io_client_write_def io_rep_def)
    with True put(3) fill(2,3) rep advances_trans [OF w1(2) w2(2)] show ?thesis
      by (auto simp: io_case_ok_def write_spec_def io_rep_def Let_def)
  qed
qed

lemma io_notif_rx_step:
  assumes rep: "io_rep tx st S" and ret: "replies_return w" and len: "length (ism_data (io_msg st)) = 31"
    "length (si_in S) < 127"
  shows "io_case_ok io_notif_rx tx st (rx_spec (io_sender_tid st) (io_msg st) S) w"
proof -
  let ?c = "ism_data (io_msg st) ! 0"
  have r: "rb_rep (io_rb_in st) (si_in S)" "rb_size (io_rb_in st) = 128" using rep by (simp_all add: io_rep_def)
  obtain rb where put: "ringbuffer_put ?c (io_rb_in st) = Some (True, rb)" "rb_rep rb (si_in S @ [?c])" "rb_size rb = 128"
    by (rule rb_rep_put [OF r(1), of ?c]) (use r(2) len(2) in auto)
  let ?st = "st\<lparr>io_rb_in := rb\<rparr>"
  show ?thesis
  proof (cases "io_client_ready st")
    case False
    obtain w' where "io_ack ?st w = Some (?st\<lparr>io_msg := (io_msg ?st)\<lparr>ism_len := 0\<rparr>\<rparr>, w')"
      "advances w 0 [(io_sender_tid ?st, ack (io_msg ?st))] w'"
      by (rule io_ack_advances [OF ret])
    with False put rep len(1) show ?thesis
      by (auto simp: io_case_ok_def io_notif_rx_def rx_spec_def io_rep_def Let_def)
  next
    case True
    then have client: "si_client S = Some (io_client_tid st)" "si_in S = []" using rep by (auto simp: io_rep_def)
    then have "rb_rep rb (?c # [])" using put(2) by simp
    then obtain rb' where get: "ringbuffer_take rb = Some (Some ?c, rb')" "rb_rep rb' []" "rb_size rb' = rb_size rb"
      by (rule rb_rep_take)
    have ld: "load (io_msg st) [?c] = (io_msg st)\<lparr>ism_data := (ism_data (io_msg st))[0 := ?c], ism_len := 1\<rparr>"
      using len(1) by (cases "ism_data (io_msg st)") (simp_all add: load_def)
    let ?st1 = "?st\<lparr>io_rb_in := rb', io_msg := load (io_msg st) [?c]\<rparr>"
    obtain w1 where w1: "io_send (io_client_tid st) ?st1 w = Some (?st1, w1)"
      "advances w 0 [(io_client_tid st, IoMsg (io_msg ?st1))] w1"
      by (rule io_send_advances [OF ret])
    let ?st2 = "?st1\<lparr>io_client_ready := False\<rparr>"
    have "replies_return w1" using ret advances_replies_return [OF w1(2)] by simp
    then obtain w2 where w2: "io_ack ?st2 w1 = Some (?st2\<lparr>io_msg := (io_msg ?st2)\<lparr>ism_len := 0\<rparr>\<rparr>, w2)"
      "advances w1 0 [(io_sender_tid ?st2, ack (io_msg ?st2))] w2"
      by (rule io_ack_advances)
    have "io_notif_rx st w = Some (?st2\<lparr>io_msg := (io_msg ?st2)\<lparr>ism_len := 0\<rparr>\<rparr>, w2)"
      using True put(1) get(1) w1(1) w2(1) len(1) by (simp add: io_notif_rx_def ld)
    with True put(3) get(2,3) rep client advances_trans [OF w1(2) w2(2)] show ?thesis
      by (auto simp: io_case_ok_def rx_spec_def io_rep_def Let_def)
  qed
qed

abbreviation io_is_exit :: "io_server_msg_t \<Rightarrow> bool" where
  "io_is_exit msg \<equiv> ism_type msg = IO_SERVER_MSG_TYPE_EXIT"

lemma io_types:
  assumes "ty \<le> IO_SERVER_MSG_TYPE_NOTIF_TX"
  shows "ty = IO_SERVER_MSG_TYPE_EXIT \<or> ty = IO_SERVER_MSG_TYPE_CLIENT_READ \<or>
    ty = IO_SERVER_MSG_TYPE_CLIENT_WRITE \<or> ty = IO_SERVER_MSG_TYPE_NOTIF_RX \<or> ty = IO_SERVER_MSG_TYPE_NOTIF_TX"
proof -
  have "unat ty \<le> 4" using assms by (simp add: io_type_defs word_le_nat_alt)
  then have "unat ty = 0 \<or> unat ty = 1 \<or> unat ty = 2 \<or> unat ty = 3 \<or> unat ty = 4" by linarith
  moreover have "unat (0 :: u32) = 0" "unat (1 :: u32) = 1" "unat (2 :: u32) = 2" "unat (3 :: u32) = 3"
    "unat (4 :: u32) = 4"
    by simp_all
  ultimately show ?thesis unfolding io_type_defs by (simp only: word_unat_eq_iff)
qed

lemma io_server_body_step:
  assumes rep: "io_rep tx st S" and ret: "replies_return w" and nxt: "next_msg w t (IoMsg msg)"
    and ok: "io_ok tx t msg S"
  shows "\<exists>st' w'. io_server_body st w = Some (st', w') \<and> io_rep tx st' (fst (io_spec tx t msg S)) \<and>
    advances w 1 (snd (io_spec tx t msg S)) w' \<and> io_is_exit (io_msg st') = io_is_exit msg \<and>
    (io_is_exit msg \<longrightarrow> (io_sender_tid st', io_msg st') = (t, msg))"
proof -
  let ?st = "st\<lparr>io_sender_tid := t, io_msg := msg\<rparr>"
  obtain w1 where rcv: "Receive (io_sender_tid st) (IoMsg (io_msg st)) w = Some (ucast t, t, IoMsg msg, w1)"
    and a1: "advances w 1 [] w1"
    by (rule Receive_advances [OF nxt, of "IoMsg (io_msg st)"]) simp_all
  have ret1: "replies_return w1" using ret advances_replies_return [OF a1] by simp
  have rep1: "io_rep tx ?st S" using rep by (simp add: io_rep_def)
  have len: "length (ism_data (io_msg ?st)) = 31" using ok by (simp add: io_ok_def)
  note body = io_server_body_def [of st w] rcv io_reply_def ucast_byte_nonneg
  consider (rd) "ism_type msg = IO_SERVER_MSG_TYPE_CLIENT_READ" | (wr) "ism_type msg = IO_SERVER_MSG_TYPE_CLIENT_WRITE"
    | (rx) "ism_type msg = IO_SERVER_MSG_TYPE_NOTIF_RX" | (tx) "ism_type msg = IO_SERVER_MSG_TYPE_NOTIF_TX"
    | (ex) "io_is_exit msg"
    using ok io_types [of "ism_type msg"] unfolding io_ok_def by blast
  then have "\<exists>st' w'. io_server_body st w = Some (st', w') \<and> io_rep tx st' (fst (io_spec tx t msg S)) \<and>
    advances w1 0 (snd (io_spec tx t msg S)) w' \<and> io_is_exit (io_msg st') = io_is_exit msg \<and>
    (io_is_exit msg \<longrightarrow> (io_sender_tid st', io_msg st') = (t, msg))"
  proof cases
    case rd
    with io_client_read_step [OF rep1 ret1 len] ok show ?thesis
      by (auto simp: body io_spec_def io_type_defs io_case_ok_def io_ok_def)
  next
    case wr
    with io_client_write_step [OF rep1 ret1 len] ok show ?thesis
      by (auto simp: body io_spec_def io_type_defs io_case_ok_def io_ok_def)
  next
    case rx
    with io_notif_rx_step [OF rep1 ret1 len] ok show ?thesis
      by (auto simp: body io_spec_def io_type_defs io_case_ok_def io_ok_def)
  next
    case tx
    with io_notif_tx_step [OF rep1 ret1 len] show ?thesis
      by (auto simp: body io_spec_def io_type_defs io_case_ok_def)
  next
    case ex
    with rep1 show ?thesis by (auto simp: body io_spec_def io_type_defs)
  qed
  then show ?thesis using advances_trans [OF a1] by fastforce
qed

interpretation io_service: message_server io_server_body io_server_loop
    "\<lambda>st. io_is_exit (io_msg st)" "\<lambda>st. (io_sender_tid st, io_msg st)" IoMsg io_is_exit
    "io_rep tx" "io_ok tx" "io_spec tx" for tx
proof
  fix st w
  show "io_server_loop st w = do {
      (st, w) \<leftarrow> io_server_body st w;
      if io_is_exit (io_msg st) then Some (st, w) else io_server_loop st w
    }"
    by (subst io_server_loop.simps) (auto intro!: Option.bind_cong)
qed (rule io_server_body_step)

end
