(* ===== verification/ClockProps.thy ===== *)
theory ClockProps
  imports ClockServer "HOL-Library.Multiset"
begin

text \<open>
  What the clock server promises: the abstract delay queue \<open>cs_spec\<close>, the proof that the server with its
  linked lists implements it, and what a delayed task can rely on.
\<close>

subsection \<open>Insertion into the linked list\<close>

lemma linked_insert_after:
  assumes "linked h p (xs @ c # ys)" "n \<notin> set (xs @ c # ys)"
  shows "linked (set_next (set_next h n (qn_next (h c))) c (Some n)) p (xs @ c # n # ys)"
  using assms
proof (induction xs arbitrary: p)
  case Nil
  let ?h = "set_next (set_next h n (qn_next (h c))) c (Some n)"
  have "c \<notin> set ys" using linked_distinct [OF Nil.prems(1)] by simp
  then have "linked ?h (qn_next (h c)) ys = linked h (qn_next (h c)) ys"
    using Nil.prems(2) by (intro linked_cong) auto
  moreover have "qn_next (?h c) = Some n" "qn_next (?h n) = qn_next (h c)" using Nil.prems(2) by auto
  ultimately show ?case using Nil.prems by (simp del: fun_upd_apply)
next
  case (Cons x xs)
  then have "x \<noteq> n" "x \<noteq> c" using linked_distinct [OF Cons.prems(1)] by auto
  with Cons show ?case by auto
qed

lemma insert_after_chain:
  assumes "chain_rep (cs_nodes st) (cs_blocked st) (xs @ c # ys)" "n \<notin> set (xs @ c # ys)"
    "length (xs @ c # ys) < 64"
  shows "chain_rep (cs_nodes (insert_after c n st)) (cs_blocked (insert_after c n st)) (xs @ c # n # ys)"
    and "links_within {c, n} (cs_nodes st) (cs_nodes (insert_after c n st))"
proof -
  have "unat (elements (cs_blocked st) + 1) = Suc (length (xs @ c # ys))"
    using assms(1,3) by (subst unat_u32_add1) (simp_all add: chain_rep_def)
  with assms show "chain_rep (cs_nodes (insert_after c n st)) (cs_blocked (insert_after c n st)) (xs @ c # n # ys)"
    using linked_insert_after [of "cs_nodes st" "front (cs_blocked st)" xs c ys n]
    by (auto simp: chain_rep_def insert_after_def Let_def)
  show "links_within {c, n} (cs_nodes st) (cs_nodes (insert_after c n st))"
    by (auto simp: links_within_def insert_after_def Let_def)
qed

text \<open>The nodes whose entries are due no later than \<open>x\<close>.\<close>

definition due_by :: "clock_server_state \<Rightarrow> i32 \<Rightarrow> nat \<Rightarrow> bool" where
  "due_by st x n \<longleftrightarrow> sint (be_ticks (cs_entries st ! n)) \<le> sint x"

definition own_data :: "clock_server_state \<Rightarrow> bool" where
  "own_data st \<longleftrightarrow> length (cs_entries st) = 64 \<and> (\<forall>n<64. qn_data (cs_nodes st n) = Some n)"

lemma find_place_linked:
  assumes "linked (cs_nodes st) (Some n) (n # ns)" "\<forall>m\<in>set ns. m < 64" "own_data st"
  shows "find_place st x n = Some (last (n # takeWhile (due_by st x) ns))"
  using assms(1,2)
proof (induction ns arbitrary: n)
  case Nil
  then show ?case by (subst find_place.simps) simp
next
  case (Cons m ns)
  have "find_place st x m = Some (last (m # takeWhile (due_by st x) ns))"
    using Cons.prems by (intro Cons.IH) auto
  with Cons.prems assms(3) show ?case
    by (subst find_place.simps) (simp add: own_data_def due_by_def)
qed

lemma block_front_chain:
  assumes "chain_rep (cs_nodes st) (cs_blocked st) ns" "n \<notin> set ns" "length ns < 64"
  obtains st' where "block_front n st = Some st'" "st' = st\<lparr>cs_blocked := cs_blocked st', cs_nodes := cs_nodes st'\<rparr>"
    "chain_rep (cs_nodes st') (cs_blocked st') (n # ns)" "links_within {n} (cs_nodes st) (cs_nodes st')"
proof -
  obtain q h where *: "queue_put_front (cs_blocked st) (cs_nodes st) (Some n) = Some (0, q, h)"
    "chain_rep h q (n # ns)" "links_within {n} (cs_nodes st) h"
    using queue_put_front_chain [OF assms(1,2)] assms(3) by auto
  then show ?thesis
    by (intro that [of "st\<lparr>cs_blocked := q, cs_nodes := h\<rparr>"]) (simp_all add: block_front_def)
qed

text \<open>The new node goes behind the leading nodes that are due no later.\<close>

lemma insert_blocked_chain:
  assumes rep: "chain_rep (cs_nodes st) (cs_blocked st) ns" and n: "n \<notin> set ns" "length ns < 64"
    and own: "own_data st" "\<forall>m\<in>set ns. m < 64"
  obtains st' where "insert_blocked n x st = Some st'" "st' = st\<lparr>cs_blocked := cs_blocked st', cs_nodes := cs_nodes st'\<rparr>"
    "chain_rep (cs_nodes st') (cs_blocked st') (takeWhile (due_by st x) ns @ n # dropWhile (due_by st x) ns)"
    "links_within (insert n (set ns)) (cs_nodes st) (cs_nodes st')"
proof (cases "ns = [] \<or> \<not> due_by st x (hd ns)")
  case True
  obtain st' where st': "block_front n st = Some st'" "st' = st\<lparr>cs_blocked := cs_blocked st', cs_nodes := cs_nodes st'\<rparr>"
    "chain_rep (cs_nodes st') (cs_blocked st') (n # ns)" "links_within {n} (cs_nodes st) (cs_nodes st')"
    by (rule block_front_chain [OF rep n])
  have "insert_blocked n x st = Some st'"
  proof (cases ns)
    case Nil
    then show ?thesis
      using rep st'(1) by (simp add: insert_blocked_def queue_empty_def queue_size_def chain_rep_empty_iff)
  next
    case (Cons m ms)
    with True rep own st'(1) show ?thesis
      using queue_peek_chain [of "cs_nodes st" "cs_blocked st" m ms]
      by (auto simp: insert_blocked_def own_data_def due_by_def)
  qed
  moreover have "takeWhile (due_by st x) ns @ n # dropWhile (due_by st x) ns = n # ns"
    using True by (cases ns) auto
  ultimately show ?thesis
    using st' that [of st'] links_within_mono [OF st'(4), of "insert n (set ns)"] by simp
next
  case False
  then obtain m ms where ns: "ns = m # ms" and due: "due_by st x m" by (cases ns) auto
  define c where "c = last (m # takeWhile (due_by st x) ms)"
  let ?pre = "butlast (m # takeWhile (due_by st x) ms)"
  have split: "?pre @ [c] = m # takeWhile (due_by st x) ms" unfolding c_def by (rule append_butlast_last_id) simp
  then have eq: "?pre @ c # dropWhile (due_by st x) ms = ns"
    using ns by (metis append.assoc append_Cons append_Nil takeWhile_dropWhile_id)
  have find: "find_place st x m = Some c"
    unfolding c_def using rep own ns by (intro find_place_linked) (auto simp: chain_rep_def)
  have "\<not> queue_empty (cs_blocked st)" "front (cs_blocked st) = Some m"
    using rep ns by (auto simp: queue_empty_def queue_size_def chain_rep_def)
  then have "insert_blocked n x st = Some (insert_after c n st)"
    using find rep ns own due queue_peek_chain [of "cs_nodes st" "cs_blocked st" m ms]
    by (auto simp: insert_blocked_def own_data_def due_by_def)
  moreover have "chain_rep (cs_nodes (insert_after c n st)) (cs_blocked (insert_after c n st))
      (takeWhile (due_by st x) ns @ n # dropWhile (due_by st x) ns)"
  proof -
    have "?pre @ c # n # dropWhile (due_by st x) ms = takeWhile (due_by st x) ns @ n # dropWhile (due_by st x) ns"
      using split ns due by (metis append.assoc append_Cons append_Nil takeWhile.simps(2) dropWhile.simps(2))
    then show ?thesis
      using insert_after_chain(1) [of st ?pre c "dropWhile (due_by st x) ms" n, unfolded eq, OF rep n]
      by (simp only:)
  qed
  moreover have "links_within (insert n (set ns)) (cs_nodes st) (cs_nodes (insert_after c n st))"
  proof (rule links_within_mono)
    show "links_within {c, n} (cs_nodes st) (cs_nodes (insert_after c n st))"
      by (rule insert_after_chain(2) [of st ?pre c "dropWhile (due_by st x) ms" n, unfolded eq, OF rep n])
    show "{c, n} \<subseteq> insert n (set ns)" using eq by auto
  qed
  ultimately show ?thesis by (intro that [of "insert_after c n st"]) (simp_all add: insert_after_def Let_def)
qed

subsection \<open>The two lists\<close>

text \<open>
  Every entry is in exactly one of the two lists: \<open>ns\<close> are the nodes of the delayed tasks, \<open>fs\<close> the
  free ones.
\<close>

definition lists_rep :: "clock_server_state \<Rightarrow> nat list \<Rightarrow> nat list \<Rightarrow> bool" where
  "lists_rep st ns fs \<longleftrightarrow> own_data st \<and> chain_rep (cs_nodes st) (cs_blocked st) ns \<and>
     queue_rep (cs_nodes st) (cs_free_list st) fs \<and> distinct (ns @ fs) \<and> set (ns @ fs) = {..<64}"

definition entry :: "clock_server_state \<Rightarrow> nat \<Rightarrow> i32 \<times> u8" where
  "entry st n = (be_ticks (cs_entries st ! n), be_tid (cs_entries st ! n))"

lemma lists_rep_length: "lists_rep st ns fs \<Longrightarrow> length ns + length fs = 64"
  using distinct_card [of "ns @ fs"] by (simp add: lists_rep_def)

lemma own_data_frame:
  "own_data st \<Longrightarrow> links_within S (cs_nodes st) (cs_nodes st') \<Longrightarrow> length (cs_entries st') = 64 \<Longrightarrow> own_data st'"
  by (simp add: own_data_def links_within_def)

lemma chain_rep_frame:
  "chain_rep h q ns \<Longrightarrow> links_within S h h' \<Longrightarrow> set ns \<inter> S = {} \<Longrightarrow> chain_rep h' q ns"
  by (subst chain_rep_cong [of ns h' h]) (auto simp: links_within_def)

text \<open>Where a new delay goes: behind all that are due no later.\<close>

definition add_delay :: "i32 \<Rightarrow> u8 \<Rightarrow> (i32 \<times> u8) list \<Rightarrow> (i32 \<times> u8) list" where
  "add_delay x t D = takeWhile (\<lambda>e. sint (fst e) \<le> sint x) D @ (x, t) # dropWhile (\<lambda>e. sint (fst e) \<le> sint x) D"

lemma set_insert_while: "set (takeWhile P xs @ x # dropWhile P xs) = insert x (set xs)"
  by (induction xs) auto

lemma block_sender_rep:
  assumes rep: "lists_rep st ns fs" and room: "length ns < 64"
  obtains st' ns' fs' where "block_sender st = Some st'" "lists_rep st' ns' fs'"
    "map (entry st') ns' = add_delay (csm_time (cs_msg st)) (cs_sender_tid st) (map (entry st) ns)"
    "cs_ticks st' = cs_ticks st" "cs_msg st' = cs_msg st" "cs_sender_tid st' = cs_sender_tid st"
proof -
  let ?x = "csm_time (cs_msg st)" and ?t = "cs_sender_tid st"
  from rep room obtain i fs' where fs: "fs = i # fs'" by (cases fs) (auto dest: lists_rep_length)
  have r: "own_data st" "chain_rep (cs_nodes st) (cs_blocked st) ns"
    "queue_rep (cs_nodes st) (cs_free_list st) (i # fs')" "distinct (ns @ i # fs')" "set (ns @ i # fs') = {..<64}"
    using rep fs by (simp_all add: lists_rep_def)
  have i: "i < 64" "i \<notin> set ns" "\<forall>m\<in>set ns. m < 64" using r(4,5) by auto
  obtain q h where get: "queue_get (cs_free_list st) (cs_nodes st) = Some (Some i, q, h)"
    "queue_rep h q fs'" "links_within {i} (cs_nodes st) h"
    using queue_get_rep [OF r(3)] r(1) i(1) by (auto simp: own_data_def)
  let ?e = "\<lparr>be_ticks = ?x, be_tid = ?t\<rparr>"
  let ?st = "st\<lparr>cs_free_list := q, cs_nodes := h, cs_entries := (cs_entries st)[i := ?e]\<rparr>"
  have ch: "chain_rep (cs_nodes ?st) (cs_blocked ?st) ns"
    using chain_rep_frame [OF r(2) get(3)] i(2) by simp
  have own: "own_data ?st" using r(1) own_data_frame [OF r(1), of "{i}" ?st] get(3) by (simp add: own_data_def)
  obtain st' where st': "insert_blocked i ?x ?st = Some st'" "st' = ?st\<lparr>cs_blocked := cs_blocked st', cs_nodes := cs_nodes st'\<rparr>"
    "chain_rep (cs_nodes st') (cs_blocked st') (takeWhile (due_by ?st ?x) ns @ i # dropWhile (due_by ?st ?x) ns)"
    "links_within (insert i (set ns)) (cs_nodes ?st) (cs_nodes st')"
    by (rule insert_blocked_chain [OF ch i(2) room own i(3)])
  define ns' where "ns' = takeWhile (due_by ?st ?x) ns @ i # dropWhile (due_by ?st ?x) ns"
  have chain': "chain_rep (cs_nodes st') (cs_blocked st') ns'" using st'(3) by (simp only: ns'_def)
  have fields: "cs_free_list st' = q" "cs_entries st' = (cs_entries st)[i := ?e]" "cs_ticks st' = cs_ticks st"
    "cs_msg st' = cs_msg st" "cs_sender_tid st' = ?t"
    by (subst st'(2), simp)+
  have "block_sender st = Some st'"
    using get(1) i(1) r(1) st'(1) by (simp add: block_sender_def own_data_def)
  moreover have "lists_rep st' ns' fs'"
  proof -
    have "queue_rep (cs_nodes st') q fs'"
      using queue_rep_frame [OF get(2), of "insert i (set ns)" "cs_nodes st'"] st'(4) r(4) by auto
    moreover have "own_data st'"
      using own_data_frame [OF own st'(4)] fields(2) r(1) by (simp add: own_data_def)
    moreover have "set ns' = insert i (set ns)"
      unfolding ns'_def by (rule set_insert_while)
    moreover have "distinct ns'" using chain' by (auto simp: chain_rep_def dest: linked_distinct)
    ultimately show ?thesis using chain' fields(1) r(4,5) by (auto simp: lists_rep_def)
  qed
  moreover have "map (entry st') ns' = add_delay ?x ?t (map (entry st) ns)"
  proof -
    have ne: "i \<noteq> m" if "m \<in> set ns" for m using that i(2) by auto
    have old: "entry st' m = entry st m" "due_by ?st ?x m = (sint (fst (entry st m)) \<le> sint ?x)" if "m \<in> set ns" for m
      using ne [OF that] by (simp_all add: entry_def due_by_def fields(2))
    have tw: "takeWhile (due_by ?st ?x) ns = takeWhile (\<lambda>m. sint (fst (entry st m)) \<le> sint ?x) ns"
      "dropWhile (due_by ?st ?x) ns = dropWhile (\<lambda>m. sint (fst (entry st m)) \<le> sint ?x) ns"
      by (auto intro: takeWhile_cong dropWhile_cong simp: old(2))
    have "entry st' i = (?x, ?t)" using i(1) r(1) by (simp add: entry_def fields(2) own_data_def)
    moreover have "map (entry st') (takeWhile P ns) = map (entry st) (takeWhile P ns)"
      "map (entry st') (dropWhile P ns) = map (entry st) (dropWhile P ns)" for P
      using old(1) by (auto dest: set_takeWhileD set_dropWhileD)
    ultimately show ?thesis
      by (simp add: ns'_def add_delay_def tw takeWhile_map dropWhile_map comp_def)
  qed
  ultimately show ?thesis using that fields by blast
qed

lemma release_front_rep:
  assumes rep: "lists_rep st (n # ns) fs" and due: "fst (entry st n) < cs_ticks st" and ret: "replies_return w"
  obtains st' w' where "release_front st w = Some (st', w')" "lists_rep st' ns (fs @ [n])"
    "map (entry st') ns = map (entry st) ns" "cs_ticks st' = cs_ticks st"
    "cs_msg st' = (cs_msg st)\<lparr>csm_time := cs_ticks st\<rparr>" "cs_sender_tid st' = cs_sender_tid st"
    "advances w 0 [(snd (entry st n), ClockMsg ((cs_msg st)\<lparr>csm_time := cs_ticks st\<rparr>))] w'"
proof -
  have r: "own_data st" "chain_rep (cs_nodes st) (cs_blocked st) (n # ns)"
    "queue_rep (cs_nodes st) (cs_free_list st) fs" "distinct (n # ns @ fs)" "set (n # ns @ fs) = {..<64}"
    using rep by (simp_all add: lists_rep_def)
  have n: "n < 64" "n \<notin> set fs" "qn_data (cs_nodes st n) = Some n" using r(1,4,5) by (auto simp: own_data_def)
  have len: "length fs < 64" using lists_rep_length [OF rep] by simp
  obtain q h where get: "queue_get (cs_blocked st) (cs_nodes st) = Some (Some n, q, h)" "chain_rep h q ns"
    "links_within {n} (cs_nodes st) h"
    using queue_get_chain [OF r(2)] n(3) by auto
  have "queue_rep h (cs_free_list st) fs" using queue_rep_frame [OF r(3) get(3)] n(2) by simp
  from queue_put_rep [OF this n(2)] len obtain q' h' where
    put: "queue_put (cs_free_list st) h (Some n) = Some (0, q', h')" "queue_rep h' q' (fs @ [n])"
      "links_within (insert n (set fs)) h h'"
    by auto
  let ?msg = "(cs_msg st)\<lparr>csm_time := cs_ticks st\<rparr>"
  let ?st = "st\<lparr>cs_blocked := q, cs_nodes := h', cs_free_list := q', cs_msg := ?msg\<rparr>"
  obtain ret1 w' where w': "Reply (be_tid (cs_entries st ! n)) (ClockMsg ?msg) w = Some (ret1, w')"
    "advances w 0 [(be_tid (cs_entries st ! n), ClockMsg ?msg)] w'"
    by (rule Reply_advances [OF ret])
  have "\<not> queue_empty (cs_blocked st)" using r(2) by (auto simp: queue_empty_def queue_size_def chain_rep_def)
  then have "release_front st w = Some (?st, w')"
    using due n r(1) get(1) put(1) w'(1) queue_peek_chain [OF r(2)]
    by (simp add: release_front_def own_data_def entry_def)
  moreover have "lists_rep ?st ns (fs @ [n])"
  proof -
    have lw: "links_within (insert n (set fs)) (cs_nodes st) h'"
      using links_within_trans [OF get(3) put(3)] by simp
    have "own_data ?st" using own_data_frame [OF r(1), of _ ?st] lw r(1) by (simp add: own_data_def)
    moreover have "chain_rep h' q ns" using chain_rep_frame [OF get(2) put(3)] r(4) by auto
    ultimately show ?thesis using put(2) r(4,5) by (auto simp: lists_rep_def)
  qed
  ultimately show ?thesis using w'(2) by (intro that [of ?st w']) (simp_all add: entry_def)
qed

lemma release_front_waits:
  assumes "lists_rep st ns fs" "ns = [] \<or> \<not> fst (entry st (hd ns)) < cs_ticks st"
  shows "release_front st w = Some (st, w)"
proof (cases ns)
  case Nil
  with assms have "elements (cs_blocked st) = 0" using chain_rep_empty_iff by (fastforce simp: lists_rep_def)
  then show ?thesis by (simp add: release_front_def queue_empty_def queue_size_def)
next
  case (Cons n ms)
  with assms have "queue_peek (cs_blocked st) (cs_nodes st) = Some (qn_data (cs_nodes st n))" "n < 64" "own_data st"
    using queue_peek_chain [of "cs_nodes st" "cs_blocked st" n ms] by (auto simp: lists_rep_def)
  with assms(2) Cons show ?thesis by (auto simp: release_front_def own_data_def entry_def)
qed

subsection \<open>Start-up\<close>

lemma clock_server_init_rep:
  assumes "length (cs_entries st) = 64"
  obtains st' where "clock_server_init st = Some st'" "lists_rep st' [] [0..<64]" "cs_ticks st' = 0"
proof -
  let ?st = "st\<lparr>cs_ticks := 0, cs_sender_tid := 0, cs_blocked := queue_init, cs_free_list := queue_init\<rparr>"
  let ?f = "\<lambda>i r. do {
         st \<leftarrow> r;
         let h = queue_node_init i (Some i) (cs_nodes st);
         (_, q, h) \<leftarrow> queue_put (cs_free_list st) h (Some i);
         Some (st\<lparr>cs_free_list := q, cs_nodes := h\<rparr>)
       }"
  have "\<exists>q h. fold ?f [0..<k] (Some ?st) = Some (?st\<lparr>cs_free_list := q, cs_nodes := h\<rparr>) \<and>
      queue_rep h q [0..<k] \<and> (\<forall>n<k. qn_data (h n) = Some n)" if "k \<le> 64" for k
    using that
  proof (induction k)
    case 0
    show ?case by (intro exI [of _ "queue_init"] exI [of _ "cs_nodes st"]) simp
  next
    case (Suc k)
    then obtain q h where IH: "fold ?f [0..<k] (Some ?st) = Some (?st\<lparr>cs_free_list := q, cs_nodes := h\<rparr>)"
      "queue_rep h q [0..<k]" "\<forall>n<k. qn_data (h n) = Some n"
      by auto
    let ?h = "queue_node_init k (Some k) h"
    have "queue_rep ?h q [0..<k]"
      using IH(2) by (subst queue_rep_cong [of _ _ h]) (auto simp: queue_node_init_def)
    from queue_put_rep [OF this, of k] Suc.prems obtain q' h' where
      put: "queue_put q ?h (Some k) = Some (0, q', h')" "queue_rep h' q' ([0..<k] @ [k])"
        "links_within (insert k (set [0..<k])) ?h h'"
      by auto
    have "\<forall>n<Suc k. qn_data (h' n) = Some n"
      using IH(3) links_within_data [OF put(3)] by (auto simp: queue_node_init_def less_Suc_eq)
    then show ?case
      using IH(1) put(1,2) by (intro exI [of _ q'] exI [of _ h']) simp
  qed
  from this [of 64] obtain q h where "fold ?f [0..<64] (Some ?st) = Some (?st\<lparr>cs_free_list := q, cs_nodes := h\<rparr>)"
    "queue_rep h q [0..<64]" "\<forall>n<64. qn_data (h n) = Some n"
    by auto
  then show ?thesis
    using assms queue_rep_init [of h]
    by (intro that [of "?st\<lparr>cs_free_list := q, cs_nodes := h\<rparr>"])
      (auto simp: clock_server_init_def TASK_DESCRIPTOR_MAX_TASKS_def lists_rep_def own_data_def queue_rep_def)
qed

subsection \<open>The abstract service\<close>

text \<open>
  The state is the time and the delayed tasks with their deadlines, earliest first. A tick is
  answered at once, advances the time and releases the first task when its deadline lies before the
  new time; deadlines are compared with the time as unsigned numbers and with each other as signed
  ones.
\<close>

type_synonym clock_service_state = "u32 \<times> (i32 \<times> u8) list"

definition delay_spec :: "u8 \<Rightarrow> i32 \<Rightarrow> clock_service_state \<Rightarrow> clock_service_state \<times> (u8 \<times> message) list" where
  "delay_spec t d S =
     (let (now, D) = S
      in if sint d \<le> 0 then (S, [(t, ClockMsg \<lparr>csm_type = CLOCK_SERVER_MSG_TYPE_ERROR, csm_time = 0\<rparr>)])
         else if d < now then (S, [(t, ClockMsg \<lparr>csm_type = CLOCK_SERVER_MSG_TYPE_TICK, csm_time = now\<rparr>)])
         else ((now, add_delay d t D), []))"

definition release_spec :: "i32 \<times> u8 \<Rightarrow> u32 \<Rightarrow> bool" where
  "release_spec e now \<longleftrightarrow> fst e < now"

definition tick_spec :: "u8 \<Rightarrow> clock_server_msg_t \<Rightarrow> clock_service_state \<Rightarrow> clock_service_state \<times> (u8 \<times> message) list" where
  "tick_spec t msg S =
     (let (now, D) = S; now = now + 1
      in case D of
           e # D' \<Rightarrow>
             if release_spec e now
             then ((now, D'), [(t, ClockMsg msg), (snd e, ClockMsg (msg\<lparr>csm_time := now\<rparr>))])
             else ((now, D), [(t, ClockMsg msg)])
         | [] \<Rightarrow> ((now, D), [(t, ClockMsg msg)]))"

definition cs_spec :: "(clock_server_msg_t, clock_service_state) service" where
  "cs_spec t msg S =
     (if csm_type msg = CLOCK_SERVER_MSG_TYPE_TICK then tick_spec t msg S
      else if csm_type msg = CLOCK_SERVER_MSG_TYPE_TIME then (S, [(t, ClockMsg (msg\<lparr>csm_time := fst S\<rparr>))])
      else if csm_type msg = CLOCK_SERVER_MSG_TYPE_DELAY then
        (if sint (csm_time msg) \<le> 0 then delay_spec t (csm_time msg) S
         else delay_spec t (csm_time msg + fst S) S)
      else if csm_type msg = CLOCK_SERVER_MSG_TYPE_DELAYUNTIL then delay_spec t (csm_time msg) S
      else (S, []))"

text \<open>A task is one of the 64 of the kernel, and while it is delayed it cannot send.\<close>

definition cs_ok :: "u8 \<Rightarrow> clock_server_msg_t \<Rightarrow> clock_service_state \<Rightarrow> bool" where
  "cs_ok t msg S \<longleftrightarrow> unat t < 64 \<and> t \<notin> snd ` set (snd S)"

text \<open>The invariant of the service: earliest deadline first, every task at most once.\<close>

definition cs_inv :: "clock_service_state \<Rightarrow> bool" where
  "cs_inv S \<longleftrightarrow> sorted (map (\<lambda>e. sint (fst e)) (snd S)) \<and> distinct (map snd (snd S)) \<and>
     (\<forall>e\<in>set (snd S). unat (snd e) < 64 \<and> 0 < sint (fst e))"

definition cs_rep :: "clock_server_state \<Rightarrow> clock_service_state \<Rightarrow> bool" where
  "cs_rep st S \<longleftrightarrow> cs_inv S \<and> cs_ticks st = fst S \<and> (\<exists>ns fs. lists_rep st ns fs \<and> snd S = map (entry st) ns)"

subsection \<open>The service keeps its invariant\<close>

lemma sorted_insert_while:
  "sorted (map f D) \<Longrightarrow> sorted (map f (takeWhile (\<lambda>e. f e \<le> f n) D @ n # dropWhile (\<lambda>e. f e \<le> f n) D))"
  for f :: "'b \<Rightarrow> 'c::linorder"
proof (induction D)
  case (Cons e D)
  then show ?case
    by (auto simp: set_insert_while [simplified] dest: set_takeWhileD set_dropWhileD)
qed simp

lemma set_add_delay [simp]: "set (add_delay x t D) = insert (x, t) (set D)"
  unfolding add_delay_def by (rule set_insert_while)

lemma add_delay_inv:
  assumes "cs_inv (now, D)" "cs_ok t msg (now, D)" "0 < sint d"
  shows "cs_inv (now, add_delay d t D)"
proof -
  have "sorted (map (\<lambda>e. sint (fst e)) (add_delay d t D))"
    using assms(1) sorted_insert_while [of "\<lambda>e. sint (fst e)" D "(d, t)"]
    by (simp add: cs_inv_def add_delay_def)
  moreover have "mset (map snd (add_delay d t D)) = mset (map snd ((d, t) # D))"
    unfolding add_delay_def
    by (metis (no_types, lifting) map_append mset_map mset_append mset.simps(2) takeWhile_dropWhile_id union_mset_add_mset_right)
  from mset_eq_imp_distinct_iff [OF this] have "distinct (map snd (add_delay d t D))"
    using assms(1,2) by (simp add: cs_inv_def cs_ok_def)
  ultimately show ?thesis using assms by (auto simp: cs_inv_def cs_ok_def)
qed

lemma delay_spec_inv: "cs_inv S \<Longrightarrow> cs_ok t msg S \<Longrightarrow> cs_inv (fst (delay_spec t d S))"
  by (auto simp: delay_spec_def split_def Let_def intro: add_delay_inv)

lemma tick_spec_inv: "cs_inv S \<Longrightarrow> cs_inv (fst (tick_spec t msg S))"
  by (cases S; cases "snd S") (auto simp: tick_spec_def cs_inv_def Let_def)

lemma cs_spec_inv: "cs_inv S \<Longrightarrow> cs_ok t msg S \<Longrightarrow> cs_inv (fst (cs_spec t msg S))"
  by (simp add: cs_spec_def delay_spec_inv tick_spec_inv)

lemma delayed_bound:
  assumes "cs_inv S" "cs_ok t msg S"
  shows "length (snd S) < 64"
proof -
  let ?T = "insert t (snd ` set (snd S))"
  have "unat ` ?T \<subseteq> {..<64}" using assms by (auto simp: cs_inv_def cs_ok_def)
  then have "card (unat ` ?T) \<le> 64" using card_mono [of "{..<64}" "unat ` ?T"] by simp
  moreover have "card (unat ` ?T) = card ?T" by (intro card_image inj_onI) (rule unsigned_word_eqI)
  moreover have "card ?T = Suc (length (snd S))"
    using assms distinct_card [of "map snd (snd S)"] by (simp add: cs_inv_def cs_ok_def)
  ultimately show ?thesis by simp
qed

subsection \<open>The server implements the service\<close>

lemma lists_rep_other [simp]:
  "lists_rep (st\<lparr>cs_msg := m\<rparr>) = lists_rep st" "lists_rep (st\<lparr>cs_sender_tid := t\<rparr>) = lists_rep st"
  "lists_rep (st\<lparr>cs_ticks := k\<rparr>) = lists_rep st"
  by (simp_all add: lists_rep_def own_data_def fun_eq_iff)

lemma entry_other [simp]:
  "entry (st\<lparr>cs_msg := m\<rparr>) = entry st" "entry (st\<lparr>cs_sender_tid := t\<rparr>) = entry st"
  "entry (st\<lparr>cs_ticks := k\<rparr>) = entry st"
  by (simp_all add: entry_def fun_eq_iff)

lemma reply_msg_advances:
  assumes "replies_return w"
  obtains w' where "reply_msg st w = Some (st, w')" "advances w 0 [(cs_sender_tid st, ClockMsg (cs_msg st))] w'"
proof -
  obtain r w' where "Reply (cs_sender_tid st) (ClockMsg (cs_msg st)) w = Some (r, w')"
    "advances w 0 [(cs_sender_tid st, ClockMsg (cs_msg st))] w'"
    by (rule Reply_advances [OF assms])
  then show ?thesis by (intro that) (simp_all add: reply_msg_def)
qed

text \<open>
  What a pass of the body does to the lists and the replies; the parts of the state that are not
  lists are those of the source's local variables.
\<close>

definition lists_of :: "clock_server_state \<Rightarrow> clock_service_state \<Rightarrow> bool" where
  "lists_of st S \<longleftrightarrow> cs_ticks st = fst S \<and> (\<exists>ns fs. lists_rep st ns fs \<and> snd S = map (entry st) ns)"

lemma lists_of_other [simp]:
  "lists_of (st\<lparr>cs_msg := m\<rparr>) = lists_of st" "lists_of (st\<lparr>cs_sender_tid := t\<rparr>) = lists_of st"
  by (simp_all add: lists_of_def fun_eq_iff)

lemma clock_tick_step:
  assumes "lists_of st S" "replies_return w"
  shows "\<exists>st' w'. clock_tick st w = Some (st', w') \<and> lists_of st' (fst (tick_spec (cs_sender_tid st) (cs_msg st) S)) \<and>
    advances w 0 (snd (tick_spec (cs_sender_tid st) (cs_msg st) S)) w' \<and> csm_type (cs_msg st') = csm_type (cs_msg st)"
proof -
  obtain ns fs where ns: "lists_rep st ns fs" "S = (cs_ticks st, map (entry st) ns)"
    using assms(1) by (cases S) (auto simp: lists_of_def)
  let ?st = "st\<lparr>cs_ticks := cs_ticks st + 1\<rparr>"
  obtain w1 where w1: "reply_msg st w = Some (st, w1)" "advances w 0 [(cs_sender_tid st, ClockMsg (cs_msg st))] w1"
    by (rule reply_msg_advances [OF assms(2)])
  have ret: "replies_return w1" using assms(2) advances_replies_return [OF w1(2)] by simp
  show ?thesis
  proof (cases "ns \<noteq> [] \<and> fst (entry st (hd ns)) < cs_ticks st + 1")
    case False
    then have "release_front ?st w1 = Some (?st, w1)"
      by (intro release_front_waits [of _ ns fs]) (use ns(1) in auto)
    moreover have "tick_spec (cs_sender_tid st) (cs_msg st) S =
        ((cs_ticks st + 1, map (entry st) ns), [(cs_sender_tid st, ClockMsg (cs_msg st))])"
      using False ns(2) by (cases ns) (auto simp: tick_spec_def release_spec_def Let_def)
    ultimately show ?thesis using w1 ns(1) by (auto simp: clock_tick_def lists_of_def)
  next
    case True
    then obtain n ms where n: "ns = n # ms" "fst (entry ?st n) < cs_ticks ?st" by (cases ns) auto
    have "lists_rep ?st (n # ms) fs" using ns(1) n(1) by simp
    from this n(2) ret obtain st' w' where *: "release_front ?st w1 = Some (st', w')" "lists_rep st' ms (fs @ [n])"
      "map (entry st') ms = map (entry ?st) ms" "cs_ticks st' = cs_ticks ?st"
      "cs_msg st' = (cs_msg ?st)\<lparr>csm_time := cs_ticks ?st\<rparr>"
      "advances w1 0 [(snd (entry ?st n), ClockMsg ((cs_msg ?st)\<lparr>csm_time := cs_ticks ?st\<rparr>))] w'"
      by (rule release_front_rep)
    have "clock_tick st w = Some (st', w')" using w1(1) *(1) by (simp add: clock_tick_def)
    moreover have "tick_spec (cs_sender_tid st) (cs_msg st) S = ((cs_ticks st + 1, map (entry st) ms),
        [(cs_sender_tid st, ClockMsg (cs_msg st)), (snd (entry st n), ClockMsg ((cs_msg st)\<lparr>csm_time := cs_ticks st + 1\<rparr>))])"
      using True n(1) ns(2) by (simp add: tick_spec_def release_spec_def Let_def)
    ultimately show ?thesis
      using *(2-5) advances_trans [OF w1(2) *(6)] by (auto simp: lists_of_def)
  qed
qed

lemma clock_delay_until_step:
  assumes "lists_of st S" "replies_return w" "length (snd S) < 64"
  shows "\<exists>st' w'. clock_delay_until st w = Some (st', w') \<and>
    lists_of st' (fst (delay_spec (cs_sender_tid st) (csm_time (cs_msg st)) S)) \<and>
    advances w 0 (snd (delay_spec (cs_sender_tid st) (csm_time (cs_msg st)) S)) w' \<and>
    csm_type (cs_msg st') \<in> {CLOCK_SERVER_MSG_TYPE_ERROR, CLOCK_SERVER_MSG_TYPE_TICK, csm_type (cs_msg st)}"
proof -
  let ?d = "csm_time (cs_msg st)"
  obtain ns fs where ns: "lists_rep st ns fs" "S = (cs_ticks st, map (entry st) ns)"
    using assms(1) by (cases S) (auto simp: lists_of_def)
  let ?err = "\<lparr>csm_type = CLOCK_SERVER_MSG_TYPE_ERROR, csm_time = 0\<rparr>"
  let ?late = "\<lparr>csm_type = CLOCK_SERVER_MSG_TYPE_TICK, csm_time = cs_ticks st\<rparr>"
  consider (err) "sint ?d \<le> 0" | (late) "\<not> sint ?d \<le> 0" "?d < cs_ticks st"
    | (wait) "\<not> sint ?d \<le> 0" "\<not> ?d < cs_ticks st"
    by blast
  then show ?thesis
  proof cases
    case err
    obtain w' where "reply_msg (st\<lparr>cs_msg := ?err\<rparr>) w = Some (st\<lparr>cs_msg := ?err\<rparr>, w')"
      "advances w 0 [(cs_sender_tid (st\<lparr>cs_msg := ?err\<rparr>), ClockMsg (cs_msg (st\<lparr>cs_msg := ?err\<rparr>)))] w'"
      by (rule reply_msg_advances [OF assms(2)])
    with err ns(2) assms(1) show ?thesis by (simp add: clock_delay_until_def clock_error_def delay_spec_def)
  next
    case late
    obtain w' where "reply_msg (st\<lparr>cs_msg := ?late\<rparr>) w = Some (st\<lparr>cs_msg := ?late\<rparr>, w')"
      "advances w 0 [(cs_sender_tid (st\<lparr>cs_msg := ?late\<rparr>), ClockMsg (cs_msg (st\<lparr>cs_msg := ?late\<rparr>)))] w'"
      by (rule reply_msg_advances [OF assms(2)])
    with late ns(2) assms(1) show ?thesis by (simp add: clock_delay_until_def delay_spec_def)
  next
    case wait
    obtain st' ns' fs' where *: "block_sender st = Some st'" "lists_rep st' ns' fs'"
      "map (entry st') ns' = add_delay ?d (cs_sender_tid st) (map (entry st) ns)"
      "cs_ticks st' = cs_ticks st" "cs_msg st' = cs_msg st"
      by (rule block_sender_rep [OF ns(1)]) (use assms(3) ns(2) in simp_all)
    then have "lists_of st' (cs_ticks st, add_delay ?d (cs_sender_tid st) (map (entry st) ns))"
      unfolding lists_of_def by (intro conjI exI [of _ ns'] exI [of _ fs']) simp_all
    with wait * ns(2) show ?thesis by (auto simp: clock_delay_until_def delay_spec_def)
  qed
qed

lemma clock_delay_step:
  assumes "lists_of st S" "replies_return w" "length (snd S) < 64"
    and "d = (if sint (csm_time (cs_msg st)) \<le> 0 then csm_time (cs_msg st) else csm_time (cs_msg st) + fst S)"
  shows "\<exists>st' w'. clock_delay st w = Some (st', w') \<and> lists_of st' (fst (delay_spec (cs_sender_tid st) d S)) \<and>
    advances w 0 (snd (delay_spec (cs_sender_tid st) d S)) w' \<and>
    csm_type (cs_msg st') \<in> {CLOCK_SERVER_MSG_TYPE_ERROR, CLOCK_SERVER_MSG_TYPE_TICK, csm_type (cs_msg st)}"
proof (cases "sint (csm_time (cs_msg st)) \<le> 0")
  case True
  then have "clock_delay st w = clock_delay_until st w" by (simp add: clock_delay_def clock_delay_until_def)
  with clock_delay_until_step [OF assms(1-3)] assms(4) True show ?thesis by simp
next
  case False
  let ?st = "st\<lparr>cs_msg := (cs_msg st)\<lparr>csm_time := csm_time (cs_msg st) + cs_ticks st\<rparr>\<rparr>"
  have "clock_delay st w = clock_delay_until ?st w" using False by (simp add: clock_delay_def)
  moreover have "cs_ticks st = fst S" using assms(1) by (simp add: lists_of_def)
  ultimately show ?thesis using clock_delay_until_step [of ?st S w] assms False by simp
qed

lemma cs_rep_alt: "cs_rep st S \<longleftrightarrow> cs_inv S \<and> lists_of st S"
  by (simp add: cs_rep_def lists_of_def)

abbreviation clock_is_exit :: "clock_server_msg_t \<Rightarrow> bool" where
  "clock_is_exit msg \<equiv> csm_type msg = CLOCK_SERVER_MSG_TYPE_EXIT"

lemma clock_server_body_step:
  assumes rep: "cs_rep st S" and ret: "replies_return w" and nxt: "next_msg w t (ClockMsg msg)"
    and ok: "cs_ok t msg S"
  shows "\<exists>st' w'. clock_server_body st w = Some (st', w') \<and> cs_rep st' (fst (cs_spec t msg S)) \<and>
    advances w 1 (snd (cs_spec t msg S)) w' \<and> clock_is_exit (cs_msg st') = clock_is_exit msg \<and>
    (clock_is_exit msg \<longrightarrow> (cs_sender_tid st', cs_msg st') = (t, msg))"
proof -
  let ?st = "st\<lparr>cs_sender_tid := t, cs_msg := msg\<rparr>"
  obtain w1 where rcv: "Receive (cs_sender_tid st) (ClockMsg (cs_msg st)) w = Some (ucast t, t, ClockMsg msg, w1)"
    and a1: "advances w 1 [] w1"
    by (rule Receive_advances [OF nxt, of "ClockMsg (cs_msg st)"]) simp_all
  have ret1: "replies_return w1" using ret advances_replies_return [OF a1] by simp
  have lists: "lists_of ?st S" using rep by (simp add: cs_rep_alt)
  have inv: "cs_inv (fst (cs_spec t msg S))" using rep ok cs_spec_inv by (simp add: cs_rep_alt)
  have len: "length (snd S) < 64" using rep ok delayed_bound by (auto simp: cs_rep_alt)
  have body: "clock_server_body st w =
     (if csm_type msg = CLOCK_SERVER_MSG_TYPE_TICK then clock_tick ?st w1
     else if csm_type msg = CLOCK_SERVER_MSG_TYPE_TIME then
       reply_msg (?st\<lparr>cs_msg := msg\<lparr>csm_time := cs_ticks st\<rparr>\<rparr>) w1
     else if csm_type msg = CLOCK_SERVER_MSG_TYPE_DELAY then clock_delay ?st w1
     else if csm_type msg = CLOCK_SERVER_MSG_TYPE_DELAYUNTIL then clock_delay_until ?st w1
     else if csm_type msg = CLOCK_SERVER_MSG_TYPE_EXIT then Some (?st, w1)
     else Some (?st, say ''Clock server received unexpected msg type'' [] w1))"
    using rcv ucast_byte_nonneg [of t] by (simp add: clock_server_body_def clock_reply_def Let_def)
  have "\<exists>st' w'. clock_server_body st w = Some (st', w') \<and> lists_of st' (fst (cs_spec t msg S)) \<and>
    advances w1 0 (snd (cs_spec t msg S)) w' \<and> clock_is_exit (cs_msg st') = clock_is_exit msg \<and>
    (clock_is_exit msg \<longrightarrow> (cs_sender_tid st', cs_msg st') = (t, msg))"
  proof -
    consider (tick) "csm_type msg = CLOCK_SERVER_MSG_TYPE_TICK" | (time) "csm_type msg = CLOCK_SERVER_MSG_TYPE_TIME"
      | (delay) "csm_type msg = CLOCK_SERVER_MSG_TYPE_DELAY" | (until) "csm_type msg = CLOCK_SERVER_MSG_TYPE_DELAYUNTIL"
      | (other) "csm_type msg \<notin> {CLOCK_SERVER_MSG_TYPE_TICK, CLOCK_SERVER_MSG_TYPE_TIME,
          CLOCK_SERVER_MSG_TYPE_DELAY, CLOCK_SERVER_MSG_TYPE_DELAYUNTIL}"
      by blast
    then show ?thesis
    proof cases
      case tick
      with clock_tick_step [OF lists ret1] show ?thesis by (auto simp: body cs_spec_def clock_type_defs)
    next
      case time
      let ?st' = "?st\<lparr>cs_msg := msg\<lparr>csm_time := cs_ticks st\<rparr>\<rparr>"
      obtain w' where "reply_msg ?st' w1 = Some (?st', w')" "advances w1 0 [(cs_sender_tid ?st', ClockMsg (cs_msg ?st'))] w'"
        by (rule reply_msg_advances [OF ret1])
      moreover have "cs_ticks st = fst S" using lists by (simp add: lists_of_def)
      ultimately show ?thesis using time lists by (auto simp: body cs_spec_def clock_type_defs)
    next
      case delay
      with clock_delay_step [OF lists ret1 len refl] show ?thesis
        by (auto simp: body cs_spec_def clock_type_defs)
    next
      case until
      with clock_delay_until_step [OF lists ret1 len] show ?thesis
        by (auto simp: body cs_spec_def clock_type_defs)
    next
      case other
      with lists show ?thesis by (auto simp: body cs_spec_def)
    qed
  qed
  then show ?thesis using inv advances_trans [OF a1] by (fastforce simp: cs_rep_alt)
qed

interpretation clock_service: message_server clock_server_body clock_server_loop
    "\<lambda>st. clock_is_exit (cs_msg st)" "\<lambda>st. (cs_sender_tid st, cs_msg st)" ClockMsg clock_is_exit
    cs_rep cs_ok cs_spec
proof
  fix st w
  show "clock_server_loop st w = do {
      (st, w) \<leftarrow> clock_server_body st w;
      if clock_is_exit (cs_msg st) then Some (st, w) else clock_server_loop st w
    }"
    by (subst clock_server_loop.simps) (auto intro!: Option.bind_cong)
qed (rule clock_server_body_step)

end
