(* ===== verification/ClockTheorems.thy ===== *)
theory ClockTheorems
  imports ClockProps
begin

text \<open>
  The theorems of the clock server: it implements its service from start-up to shutdown, nobody is
  woken early or out of order, everybody is woken, and what its clients and its notifier see.
\<close>

subsection \<open>Shutdown\<close>

lemma clock_reply_ClockMsg [simp]: "clock_reply (Some (ClockMsg m)) = Some m"
  by (simp add: clock_reply_def)

lemma await_notifier_run:
  assumes "pending w (map (apsnd ClockMsg) (ds @ [(n, tick)]) @ ms)" "csm_type (cs_msg st) \<noteq> CLOCK_SERVER_MSG_TYPE_TICK"
    "\<forall>(t, m)\<in>set ds. csm_type m \<noteq> CLOCK_SERVER_MSG_TYPE_TICK" "csm_type tick = CLOCK_SERVER_MSG_TYPE_TICK"
  shows "\<exists>st' w'. await_notifier st w = Some (st', w') \<and> cs_sender_tid st' = n \<and> advances w (Suc (length ds)) [] w'"
  using assms(1-3)
proof (induction ds arbitrary: st w)
  case Nil
  then have "next_msg w n (ClockMsg tick)" by (auto intro: pending_next)
  from Receive_advances [OF this, of "ClockMsg (cs_msg st)" "cs_sender_tid st"] obtain w' where
    "Receive (cs_sender_tid st) (ClockMsg (cs_msg st)) w = Some (ucast n, n, ClockMsg tick, w')" "advances w 1 [] w'"
    by auto
  with Nil assms(4) show ?case by (subst await_notifier.simps) (simp add: await_notifier.simps)
next
  case (Cons r ds)
  obtain t m where r: "r = (t, m)" by fastforce
  then have "next_msg w t (ClockMsg m)" using Cons.prems(1) by (auto intro: pending_next)
  from Receive_advances [OF this, of "ClockMsg (cs_msg st)" "cs_sender_tid st"] obtain w1 where
    1: "Receive (cs_sender_tid st) (ClockMsg (cs_msg st)) w = Some (ucast t, t, ClockMsg m, w1)" "advances w 1 [] w1"
    by auto
  let ?st = "st\<lparr>cs_sender_tid := t, cs_msg := m\<rparr>"
  have "pending w1 (map (apsnd ClockMsg) (ds @ [(n, tick)]) @ ms)"
    using pending_advances [of w "[(t, ClockMsg m)]"] Cons.prems(1) r 1(2) by simp
  with Cons.IH [of w1 ?st] Cons.prems(3) r obtain st' w' where
    "await_notifier ?st w1 = Some (st', w')" "cs_sender_tid st' = n" "advances w1 (Suc (length ds)) [] w'"
    by auto
  with 1 Cons.prems(2) advances_trans [OF 1(2)] show ?case
    by (subst await_notifier.simps) fastforce
qed

lemma Create_advances: "Create p c w = Some (r, w') \<Longrightarrow> advances w 0 [] w'"
  by (auto simp: Create_def advances_def split: bind_splits)

lemma RegisterAs_advances: "RegisterAs name w = Some (r, w') \<Longrightarrow> advances w 0 [] w'"
  by (auto simp: RegisterAs_def Send_def advances_def Let_def say_def split: bind_splits if_splits)

lemma clock_exit_unanswered:
  "clock_is_exit x \<Longrightarrow> snd (service_run cs_spec S (rs @ [(e, x)])) = snd (service_run cs_spec S rs)"
proof (induction rs arbitrary: S)
  case Nil
  then show ?case by (simp add: cs_spec_def clock_type_defs)
next
  case (Cons r rs)
  then show ?case by (cases r) (simp add: split_def Let_def)
qed

definition clock_exit_msg :: clock_server_msg_t where
  "clock_exit_msg = \<lparr>csm_type = CLOCK_SERVER_MSG_TYPE_EXIT, csm_time = - 1\<rparr>"

lemma clock_shutdown_run:
  assumes "replies_return w" "pending w (map (apsnd ClockMsg) (ds @ [(n, tick)]) @ ms)"
    "clock_is_exit (cs_msg st)" "\<forall>(t, m)\<in>set ds. csm_type m \<noteq> CLOCK_SERVER_MSG_TYPE_TICK"
    "csm_type tick = CLOCK_SERVER_MSG_TYPE_TICK"
  shows "\<exists>w' k. clock_shutdown st w = Some (Exit w') \<and>
    advances w k [(n, ClockMsg clock_exit_msg), (cs_sender_tid st, ClockMsg clock_exit_msg)] w'"
proof -
  obtain st1 w1 where 1: "await_notifier st w = Some (st1, w1)" "cs_sender_tid st1 = n" "advances w (Suc (length ds)) [] w1"
    using await_notifier_run [OF assms(2) _ assms(4,5), of st] assms(3) by (auto simp: clock_type_defs)
  obtain r2 w2 where 2: "Reply n (ClockMsg clock_exit_msg) w1 = Some (r2, w2)" "advances w1 0 [(n, ClockMsg clock_exit_msg)] w2"
    using assms(1) advances_replies_return [OF 1(3)] Reply_advances by blast
  let ?w2 = "say ''Clock server shutting down'' [] w2"
  have a: "advances w (Suc (length ds)) [(n, ClockMsg clock_exit_msg)] ?w2"
    using advances_trans [OF 1(3) 2(2)] by simp
  obtain r3 w3 where 3: "Reply (cs_sender_tid st) (ClockMsg clock_exit_msg) ?w2 = Some (r3, w3)"
    "advances ?w2 0 [(cs_sender_tid st, ClockMsg clock_exit_msg)] w3"
    using assms(1) advances_replies_return [OF a] Reply_advances by blast
  have "clock_shutdown st w = Some (Exit w3)"
    using 1(1,2) 2(1) 3(1) by (simp add: clock_shutdown_def clock_exit_msg_def)
  then show ?thesis using advances_trans [OF a 3(2)] by auto
qed

subsection \<open>Theorems\<close>

text \<open>
  C27: The clock server implements the delay queue from start-up to shutdown: whatever requests
  arrive, as long as a delayed task does not send again and there are 64 tasks at most, its replies are
  exactly those of the abstract service, in which the delayed tasks are kept by deadline, first come
  first served among equal ones. After the exit message it drops everything until the
  next tick, answers the notifier and then the task that asked it to exit, and exits.
\<close>

theorem clock_server_refines:
  assumes "length (cs_entries st) = 64" and "replies_return w"
    and "RegisterAs CLOCK_SERVER_NAME w = Some (r1, w1)"
    and "Create 2 ''clock_server_notifier_main'' w1 = Some (r2, w2)"
    and "pending w (map (apsnd ClockMsg) (rs @ [(e, x)]) @ map (apsnd ClockMsg) (ds @ [(n, tick)]) @ ms)"
    and "\<forall>(t, m)\<in>set rs. \<not> clock_is_exit m" and "clock_is_exit x"
    and "admissible cs_spec cs_ok (0, []) (rs @ [(e, x)])"
    and "\<forall>(t, m)\<in>set ds. csm_type m \<noteq> CLOCK_SERVER_MSG_TYPE_TICK" and "csm_type tick = CLOCK_SERVER_MSG_TYPE_TICK"
  shows "\<exists>w'. clock_server_main st w = Some (Exit w') \<and>
    replies (trace w') = replies (trace w) @ snd (service_run cs_spec (0, []) rs) @
      [(n, ClockMsg clock_exit_msg), (e, ClockMsg clock_exit_msg)]"
proof -
  obtain st1 where st1: "clock_server_init st = Some st1" "lists_rep st1 [] [0..<64]" "cs_ticks st1 = 0"
    by (rule clock_server_init_rep [OF assms(1)])
  then have rep: "cs_rep st1 (0, [])" by (auto simp: cs_rep_def cs_inv_def)
  have a: "advances w 0 [] w2"
    using advances_trans [OF RegisterAs_advances [OF assms(3)] Create_advances [OF assms(4)]] by simp
  have "replies_return w2" using assms(2) advances_replies_return [OF a] by simp
  from clock_service.loop_run [OF rep this pending_quiet [OF assms(5) a] assms(6-8)] obtain st2 w3 where
    2: "clock_server_loop st1 w2 = Some (st2, w3)" "(cs_sender_tid st2, cs_msg st2) = (e, x)"
      "advances w2 (Suc (length rs)) (snd (service_run cs_spec (0, []) rs)) w3"
    using clock_exit_unanswered [OF assms(7)] by auto
  have a': "advances w (Suc (length rs)) (snd (service_run cs_spec (0, []) rs)) w3"
    using advances_trans [OF a 2(3)] by simp
  have "pending w3 (map (apsnd ClockMsg) (ds @ [(n, tick)]) @ ms)"
    using pending_advances [OF assms(5), of _ w3] a' by simp
  with clock_shutdown_run [of w3 ds n tick ms st2] assms(2,7,9,10) 2(2) advances_replies_return [OF a'] obtain w4 k where
    4: "clock_shutdown st2 w3 = Some (Exit w4)" "advances w3 k [(n, ClockMsg clock_exit_msg), (e, ClockMsg clock_exit_msg)] w4"
    by auto
  have "clock_server_main st w = Some (Exit w4)"
    using st1(1) assms(3,4) 2(1) 4(1) by (simp add: clock_server_main_def)
  then show ?thesis using advances_trans [OF a' 4(2)] by (auto simp: advances_def)
qed

definition blank_clock :: clock_server_state where
  "blank_clock = \<lparr>cs_ticks = 0, cs_blocked = queue_init, cs_free_list = queue_init,
     cs_nodes = (\<lambda>_. \<lparr>qn_data = None, qn_next = None\<rparr>),
     cs_entries = replicate 64 \<lparr>be_ticks = 0, be_tid = 0\<rparr>,
     cs_msg = \<lparr>csm_type = 0, csm_time = 0\<rparr>, cs_sender_tid = 0\<rparr>"

abbreviation clock_req :: "u32 \<Rightarrow> i32 \<Rightarrow> clock_server_msg_t" where
  "clock_req ty v \<equiv> \<lparr>csm_type = ty, csm_time = v\<rparr>"

definition clock_script :: "(u8 \<times> clock_server_msg_t) list" where
  "clock_script = [(5, clock_req 2 2), (6, clock_req 3 1), (3, clock_req 0 0), (3, clock_req 0 0), (3, clock_req 0 0)]"

lemma scripted_start:
  "\<exists>w1 w2. RegisterAs CLOCK_SERVER_NAME (scripted ms) = Some (0, w1) \<and>
    Create 2 ''clock_server_notifier_main'' w1 = Some (0, w2)"
  by (simp add: RegisterAs_def Send_def Create_def scripted_def)

text \<open>Task 5 asks for a delay of 2 ticks, task 6 waits until time 1; task 3 is the notifier.\<close>

theorem clock_server_refines_witness:
  "\<exists>w'. clock_server_main blank_clock (scripted (map (apsnd ClockMsg) (clock_script @ [(7, clock_req 4 0)]) @
        map (apsnd ClockMsg) ([(8, clock_req 1 0)] @ [(3, clock_req 0 0)]) @ [])) = Some (Exit w') \<and>
    replies (trace w') = [(3, ClockMsg (clock_req 0 0)), (3, ClockMsg (clock_req 0 0)), (6, ClockMsg (clock_req 0 2)),
      (3, ClockMsg (clock_req 0 0)), (5, ClockMsg (clock_req 0 3)), (3, ClockMsg clock_exit_msg), (7, ClockMsg clock_exit_msg)]"
proof -
  let ?ms = "map (apsnd ClockMsg) (clock_script @ [(7, clock_req 4 0)]) @
        map (apsnd ClockMsg) ([(8, clock_req 1 0)] @ [(3, clock_req 0 0)]) @ []"
  note s = clock_type_defs cs_spec_def tick_spec_def delay_spec_def release_spec_def add_delay_def Let_def
  have run: "snd (service_run cs_spec (0, []) clock_script) = [(3, ClockMsg (clock_req 0 0)),
      (3, ClockMsg (clock_req 0 0)), (6, ClockMsg (clock_req 0 2)),
      (3, ClockMsg (clock_req 0 0)), (5, ClockMsg (clock_req 0 3))]"
    by (simp add: s clock_script_def)
  have adm: "admissible cs_spec cs_ok (0, []) (clock_script @ [(7, clock_req 4 0)])"
    by (simp add: s cs_ok_def clock_script_def)
  have types: "\<forall>(t, m)\<in>set clock_script. \<not> clock_is_exit m" "clock_is_exit (clock_req 4 0)"
    "\<forall>(t, m)\<in>set [(8, clock_req 1 0)]. csm_type m \<noteq> CLOCK_SERVER_MSG_TYPE_TICK"
    "csm_type (clock_req 0 0) = CLOCK_SERVER_MSG_TYPE_TICK"
    by (simp_all add: clock_script_def clock_type_defs)
  have len: "length (cs_entries blank_clock) = 64" by (simp add: blank_clock_def)
  obtain w1 w2 where start: "RegisterAs CLOCK_SERVER_NAME (scripted ?ms) = Some (0, w1)"
    "Create 2 ''clock_server_notifier_main'' w1 = Some (0, w2)"
    using scripted_start by blast
  show ?thesis
    using clock_server_refines [OF len scripted_replies start scripted_pending types(1,2) adm types(3,4)]
    unfolding run by (simp only: scripted_trace replies.simps append_Nil append_Cons)
qed

subsection \<open>Nobody is woken early or out of order\<close>

text \<open>
  C28: A delayed task gets no reply before its time: when a pass of the server's loop replies to a task
  that is waiting for deadline \<open>d\<close>, then the message was a tick, the time is now greater than \<open>d\<close>, and
  no other task has been waiting for an earlier deadline.
\<close>

theorem delayed_not_woken_early:
  assumes "cs_rep st (now, D)" and "replies_return w" and "next_msg w t (ClockMsg msg)"
    and "cs_ok t msg (now, D)" and "clock_server_body st w = Some (st', w')"
    and "replies (trace w') = replies (trace w) @ out" and "(d, c) \<in> set D" and "(c, m) \<in> set out"
  shows "csm_type msg = CLOCK_SERVER_MSG_TYPE_TICK \<and> cs_ticks st' = now + 1 \<and> d < cs_ticks st' \<and>
    (\<forall>e\<in>set D. sint d \<le> sint (fst e))"
proof -
  have inv: "cs_inv (now, D)" using assms(1) by (simp add: cs_rep_alt)
  from clock_server_body_step [OF assms(1-4)] assms(5) have
    step: "cs_rep st' (fst (cs_spec t msg (now, D)))" "advances w 1 (snd (cs_spec t msg (now, D))) w'"
    by auto
  then have out: "out = snd (cs_spec t msg (now, D))" using assms(6) by (simp add: advances_def)
  have "c \<noteq> t" using assms(4,7) by (force simp: cs_ok_def)
  with assms(8) out obtain e D' where tick: "csm_type msg = CLOCK_SERVER_MSG_TYPE_TICK" "D = e # D'" "snd e = c"
    "fst e < now + 1"
    by (auto simp: cs_spec_def delay_spec_def tick_spec_def release_spec_def Let_def split: if_splits list.splits)
  have "c \<notin> snd ` set D'" using inv tick(2,3) by (auto simp: cs_inv_def)
  then have e: "e = (d, c)" using assms(7) tick(2,3) by (cases e) (auto intro: rev_image_eqI)
  have "cs_ticks st' = now + 1"
    using step(1) tick by (simp add: cs_rep_def cs_spec_def tick_spec_def release_spec_def Let_def)
  moreover have "\<forall>e'\<in>set D. sint d \<le> sint (fst e')" using inv tick(2) e by (auto simp: cs_inv_def)
  ultimately show ?thesis using tick e by simp
qed

lemma reaches_delay_5: "\<exists>st. cs_rep st (1, [(1, 5)])"
proof -
  obtain st where st: "clock_server_init blank_clock = Some st" "lists_rep st [] [0..<64]" "cs_ticks st = 0"
    by (rule clock_server_init_rep [of blank_clock]) (simp_all add: blank_clock_def)
  then have "cs_rep st (0, [])" by (auto simp: cs_rep_def cs_inv_def)
  from clock_service.loop_run [OF this scripted_replies, of "map (apsnd ClockMsg) ([(5, clock_req 3 1), (3, clock_req 0 0)] @ [(7, clock_req 4 0)]) @ []"
      "[(5, clock_req 3 1), (3, clock_req 0 0)]" 7 "clock_req 4 0" "[]", OF scripted_pending]
  show ?thesis
    by (auto simp: clock_type_defs cs_spec_def tick_spec_def delay_spec_def release_spec_def add_delay_def Let_def cs_ok_def)
qed

theorem delayed_not_woken_early_witness:
  "\<exists>st st' w'. cs_rep st (1, [(1, 5)]) \<and>
    clock_server_body st (scripted [(3, ClockMsg (clock_req 0 0))]) = Some (st', w') \<and>
    (5, ClockMsg (clock_req 0 2)) \<in> set (replies (trace w')) \<and> (1 :: u32) < cs_ticks st'"
proof -
  let ?w = "scripted [(3, ClockMsg (clock_req 0 0))]"
  obtain st where st: "cs_rep st (1, [(1, 5)])" using reaches_delay_5 by blast
  have nxt: "next_msg ?w 3 (ClockMsg (clock_req 0 0))" by (rule pending_next [OF scripted_pending])
  have ok: "cs_ok 3 (clock_req 0 0) (1, [(1, 5)])" by (simp add: cs_ok_def)
  have out: "snd (cs_spec 3 (clock_req 0 0) (1, [(1, 5)])) = [(3, ClockMsg (clock_req 0 0)), (5, ClockMsg (clock_req 0 2))]"
    by (simp add: clock_type_defs cs_spec_def tick_spec_def release_spec_def Let_def)
  from clock_server_body_step [OF st scripted_replies nxt ok] out obtain st' w' where
    1: "clock_server_body st ?w = Some (st', w')" "advances ?w 1 [(3, ClockMsg (clock_req 0 0)), (5, ClockMsg (clock_req 0 2))] w'"
    by auto
  then have r: "replies (trace w') = replies (trace ?w) @ [(3, ClockMsg (clock_req 0 0)), (5, ClockMsg (clock_req 0 2))]"
    by (simp add: advances_def)
  from delayed_not_woken_early [OF st scripted_replies nxt ok 1(1) r, of 1 5 "ClockMsg (clock_req 0 2)"] st 1(1) r
  show ?thesis by auto
qed

subsection \<open>Everybody is woken\<close>

definition ticks_in :: "(u8 \<times> clock_server_msg_t) list \<Rightarrow> nat" where
  "ticks_in rs = length (filter (\<lambda>(t, m). csm_type m = CLOCK_SERVER_MSG_TYPE_TICK) rs)"

text \<open>An entry stays in the list when another delay is added, and keeps its place when the new deadline is not earlier.\<close>

lemma add_delay_position:
  assumes "p < length D"
  obtains p' where "p' < length (add_delay x t D)" "add_delay x t D ! p' = D ! p"
proof -
  have "D ! p \<in> set (takeWhile (\<lambda>e. sint (fst e) \<le> sint x) D @ dropWhile (\<lambda>e. sint (fst e) \<le> sint x) D)"
    using assms by simp
  then have "D ! p \<in> set (add_delay x t D)" unfolding add_delay_def set_append by simp
  then obtain p' where "p' < length (add_delay x t D)" "add_delay x t D ! p' = D ! p"
    unfolding in_set_conv_nth by blast
  then show ?thesis by (rule that)
qed

lemma add_delay_behind:
  assumes "sorted (map (\<lambda>e. sint (fst e)) D)" "p < length D" "sint (fst (D ! p)) \<le> sint x"
  shows "p < length (add_delay x t D)" and "add_delay x t D ! p = D ! p"
proof -
  let ?P = "\<lambda>e. sint (fst e) \<le> sint x"
  have "?P (D ! i)" if "i \<le> p" for i
    using assms that sorted_nth_mono [OF assms(1), of i p] by simp
  then have "Suc p \<le> length (takeWhile ?P D)"
    using assms(2) by (intro length_takeWhile_less_P_nth) auto
  then show "p < length (add_delay x t D)" "add_delay x t D ! p = D ! p"
    by (simp_all add: add_delay_def nth_append takeWhile_nth)
qed

lemma cs_inv_length:
  assumes "cs_inv (now, D)"
  shows "length D \<le> 64"
proof -
  have "length D = card (unat ` snd ` set D)"
    using assms distinct_card [of "map snd D"]
    by (subst card_image) (auto simp: cs_inv_def intro: inj_onI unsigned_word_eqI)
  moreover have "unat ` snd ` set D \<subseteq> {..<64}" using assms by (auto simp: cs_inv_def)
  ultimately show ?thesis using card_mono [of "{..<64}" "unat ` snd ` set D"] by simp
qed

lemma sint_pos_eq_uint:
  fixes x :: "'a::len word"
  assumes "0 \<le> sint x"
  shows "sint x = uint x"
proof -
  have "\<not> bit x (LENGTH('a) - 1)" using assms by (simp add: sint_uint not_less [symmetric] bit_uint_iff)
  moreover have "take_bit (LENGTH('a) - 1) (uint x) = uint x"
  proof (rule bit_eqI)
    fix n
    show "bit (take_bit (LENGTH('a) - 1) (uint x)) n = bit (uint x) n"
      using calculation by (cases "n = LENGTH('a) - 1") (auto simp: bit_take_bit_iff bit_uint_iff)
  qed
  ultimately show ?thesis by (simp add: sint_uint signed_take_bit_eq_if_positive bit_uint_iff)
qed

lemma sint_pos_le_imp_le: "sint x \<le> sint y \<Longrightarrow> 0 < sint x \<Longrightarrow> x \<le> y" for x y :: "'a::len word"
  using sint_pos_eq_uint [of x] sint_pos_eq_uint [of y] by (simp add: word_le_def)

text \<open>
  How many ticks a delayed task at place \<open>p\<close> still waits at most: up to its deadline, and from then on one for each
  place, because no later request can get before it any more.
\<close>

definition wake_bound :: "u32 \<Rightarrow> i32 \<Rightarrow> nat \<Rightarrow> nat" where
  "wake_bound now d p = (if unat now < unat d then unat d - unat now + 64 else Suc p)"

text \<open>One request: the task is answered, or its bound is as it was, and smaller by one after a tick.\<close>

lemma delay_progress:
  fixes t :: u8 and m :: clock_server_msg_t
  assumes inv: "cs_inv (now, D)" and ok: "cs_ok t m (now, D)" and p: "p < length D" "D ! p = (d, c)"
  defines "k \<equiv> of_bool (csm_type m = CLOCK_SERVER_MSG_TYPE_TICK) :: nat"
  assumes wrap: "unat now + k < 2 ^ 32"
  shows "(\<exists>m'. (c, ClockMsg m') \<in> set (snd (cs_spec t m (now, D))) \<and> csm_type m' = CLOCK_SERVER_MSG_TYPE_TICK \<and>
      d < csm_time m') \<or>
    (\<exists>now' D' p'. fst (cs_spec t m (now, D)) = (now', D') \<and> unat now' = unat now + k \<and> p' < length D' \<and>
      D' ! p' = (d, c) \<and> wake_bound now' d p' + k \<le> wake_bound now d p)"
proof -
  have d: "0 < sint d" "p < 64"
    using inv p nth_mem [of p D] cs_inv_length [OF inv] by (auto simp: cs_inv_def)
  consider (tick) "csm_type m = CLOCK_SERVER_MSG_TYPE_TICK"
    | (delay) "csm_type m = CLOCK_SERVER_MSG_TYPE_DELAY \<or> csm_type m = CLOCK_SERVER_MSG_TYPE_DELAYUNTIL"
    | (other) "csm_type m \<notin> {CLOCK_SERVER_MSG_TYPE_TICK, CLOCK_SERVER_MSG_TYPE_DELAY, CLOCK_SERVER_MSG_TYPE_DELAYUNTIL}"
    by blast
  then show ?thesis
  proof cases
    case tick
    have now: "unat (now + 1) = unat now + 1" using wrap tick by (intro unat_u32_add1) (simp add: k_def)
    obtain e D' where D: "D = e # D'" using p(1) by (cases D) auto
    have spec: "cs_spec t m (now, D) = (if fst e < now + 1
        then ((now + 1, D'), [(t, ClockMsg m), (snd e, ClockMsg (m\<lparr>csm_time := now + 1\<rparr>))])
        else ((now + 1, D), [(t, ClockMsg m)]))"
      using tick D by (simp add: cs_spec_def tick_spec_def release_spec_def Let_def)
    have k: "k = 1" using tick by (simp add: k_def)
    have "(d, c) \<in> set D" using p nth_mem [of p D] by simp
    then have "sint (fst e) \<le> sint d" "0 < sint (fst e)" using inv D by (auto simp: cs_inv_def)
    then have first: "unat (fst e) \<le> unat d" using sint_pos_le_imp_le [of "fst e" d] by (simp add: word_le_nat_alt)
    show ?thesis
    proof (cases "fst e < now + 1")
      case True
      show ?thesis
      proof (cases p)
        case 0
        with True spec p D tick show ?thesis by auto
      next
        case (Suc q)
        have "wake_bound (now + 1) d q + 1 \<le> wake_bound now d p" using now d(2) Suc by (auto simp: wake_bound_def)
        with True spec p D now k Suc show ?thesis by auto
      qed
    next
      case False
      then have "unat now < unat d" using now first by (simp add: word_less_nat_alt)
      then have "wake_bound (now + 1) d p + 1 \<le> wake_bound now d p" using now d(2) by (auto simp: wake_bound_def)
      with False spec p now k show ?thesis by auto
    qed
  next
    case delay
    have k: "k = 0" using delay by (auto simp: k_def clock_type_defs)
    obtain x where "fst (cs_spec t m (now, D)) = fst (delay_spec t x (now, D))"
      using delay by (cases "sint (csm_time m) \<le> 0") (auto simp: cs_spec_def clock_type_defs)
    then consider "fst (cs_spec t m (now, D)) = (now, D)"
      | (add) "fst (cs_spec t m (now, D)) = (now, add_delay x t D)" "0 < sint x" "now \<le> x"
      by (auto simp: delay_spec_def split: if_splits)
    then show ?thesis
    proof cases
      case 1
      with p k show ?thesis by auto
    next
      case add
      show ?thesis
      proof (cases "unat now < unat d")
        case True
        obtain p' where "p' < length (add_delay x t D)" "add_delay x t D ! p' = D ! p"
          by (rule add_delay_position [OF p(1)])
        with add True p(2) k show ?thesis by (auto simp: wake_bound_def)
      next
        case False
        then have "d \<le> x" using add(3) by (simp add: word_le_nat_alt)
        then have "sint d \<le> sint x" using d(1) add(2) sint_pos_eq_uint [of d] sint_pos_eq_uint [of x] by (simp add: word_le_def)
        with add_delay_behind [of D p x t] inv p add k show ?thesis by (auto simp: cs_inv_def)
      qed
    qed
  next
    case other
    then have "fst (cs_spec t m (now, D)) = (now, D)" "k = 0" by (auto simp: cs_spec_def k_def)
    with p show ?thesis by auto
  qed
qed

abbreviation woken :: "u8 \<Rightarrow> i32 \<Rightarrow> (u8 \<times> message) list \<Rightarrow> bool" where
  "woken c d out \<equiv> \<exists>m. (c, ClockMsg m) \<in> set out \<and> csm_type m = CLOCK_SERVER_MSG_TYPE_TICK \<and> d < csm_time m"

lemma released_in_run:
  assumes "cs_inv (now, D)" "admissible cs_spec cs_ok (now, D) rs" "p < length D" "D ! p = (d, c)"
    "unat now + ticks_in rs < 2 ^ 32" "wake_bound now d p \<le> ticks_in rs"
  shows "woken c d (snd (service_run cs_spec (now, D) rs))"
  using assms
proof (induction rs arbitrary: now D p)
  case Nil
  then show ?case by (simp add: ticks_in_def wake_bound_def split: if_splits)
next
  case (Cons r rs)
  obtain t m where r: "r = (t, m)" by fastforce
  let ?k = "of_bool (csm_type m = CLOCK_SERVER_MSG_TYPE_TICK) :: nat"
  have counts: "ticks_in (r # rs) = ?k + ticks_in rs"
    using r by (simp add: ticks_in_def)
  have run: "snd (service_run cs_spec (now, D) (r # rs)) =
      snd (cs_spec t m (now, D)) @ snd (service_run cs_spec (fst (cs_spec t m (now, D))) rs)"
    using r by (simp add: split_def Let_def)
  have ok: "cs_ok t m (now, D)" "admissible cs_spec cs_ok (fst (cs_spec t m (now, D))) rs"
    using Cons.prems(2) r by simp_all
  have "unat now + ?k < 2 ^ 32" using Cons.prems(5) counts by linarith
  from delay_progress [OF Cons.prems(1) ok(1) Cons.prems(3,4) this] consider
      (now) "woken c d (snd (cs_spec t m (now, D)))"
    | (later) now' D' p' where "fst (cs_spec t m (now, D)) = (now', D')" "unat now' = unat now + ?k" "p' < length D'"
        "D' ! p' = (d, c)" "wake_bound now' d p' + ?k \<le> wake_bound now d p"
    by blast
  then show ?case
  proof cases
    case now
    then show ?thesis unfolding run by auto
  next
    case later
    have "woken c d (snd (service_run cs_spec (now', D') rs))"
      using Cons.IH [of now' D' p'] cs_spec_inv [OF Cons.prems(1) ok(1)] ok(2) later Cons.prems(5,6) counts
      by simp
    then show ?thesis unfolding run later(1) by auto
  qed
qed

text \<open>
  C29: Every delayed task is woken within a bounded number of ticks, whatever else is requested meanwhile, also further
  delays. A task with deadline \<open>d\<close> is answered, with a time after its deadline, at the latest with the tick number
  \<open>wake_bound\<close>: before the deadline that is \<open>d\<close> minus the present time plus 64 ticks, because up to 63 other
  tasks may be due before it and the server releases one task per tick; from the deadline on it is one tick for each task
  before it and one for itself. This holds as long as the ticks come before an exit message and the 32-bit tick
  counter does not wrap around, and the requests come from the kernel's 64 tasks, none of which sends while it is delayed.
\<close>

theorem delayed_task_woken:
  assumes "cs_rep st (now, D)" and "replies_return w" and "p < length D" and "D ! p = (d, c)"
    and "pending w (map (apsnd ClockMsg) (rs @ [(e, x)]) @ ms)"
    and "\<forall>(t, m)\<in>set rs. \<not> clock_is_exit m" and "clock_is_exit x"
    and "admissible cs_spec cs_ok (now, D) (rs @ [(e, x)])"
    and "unat now + ticks_in rs < 2 ^ 32" and "wake_bound now d p \<le> ticks_in rs"
  shows "\<exists>st' w' out. clock_server_loop st w = Some (st', w') \<and> replies (trace w') = replies (trace w) @ out \<and>
    woken c d out"
proof -
  from clock_service.loop_run [OF assms(1,2,5-8)] obtain st' w' where
    "clock_server_loop st w = Some (st', w')"
    "advances w (Suc (length rs)) (snd (service_run cs_spec (now, D) (rs @ [(e, x)]))) w'"
    by auto
  moreover have "woken c d (snd (service_run cs_spec (now, D) (rs @ [(e, x)])))"
    using assms(1,3,4,7-10) by (intro released_in_run [of _ _ _ p])
      (auto simp: cs_rep_alt ticks_in_def clock_type_defs)
  ultimately show ?thesis by (auto simp: advances_def)
qed

theorem delayed_task_woken_witness:
  "\<exists>st st' w' out. cs_rep st (1, [(1, 5)]) \<and>
    clock_server_loop st (scripted (map (apsnd ClockMsg) ([(3, clock_req 0 0)] @ [(7, clock_req 4 0)]) @ [])) = Some (st', w') \<and>
    replies (trace w') = out \<and> woken 5 1 out"
proof -
  obtain st where st: "cs_rep st (1, [(1, 5)])" using reaches_delay_5 by blast
  have adm: "admissible cs_spec cs_ok (1, [(1, 5)]) ([(3, clock_req 0 0)] @ [(7, clock_req 4 0)])"
    by (simp add: cs_ok_def clock_type_defs cs_spec_def tick_spec_def release_spec_def Let_def)
  have "\<forall>(t, m)\<in>set [(3, clock_req 0 0)]. \<not> clock_is_exit m" "clock_is_exit (clock_req 4 0)"
    by (simp_all add: clock_type_defs)
  from delayed_task_woken [OF st scripted_replies _ _ scripted_pending this adm, of 0 1 5]
  have "\<exists>st' w' out. clock_server_loop st (scripted (map (apsnd ClockMsg) ([(3, clock_req 0 0)] @ [(7, clock_req 4 0)]) @ [])) = Some (st', w') \<and>
    replies (trace w') = [] @ out \<and> woken 5 1 out"
    by (simp add: ticks_in_def wake_bound_def clock_type_defs)
  with st show ?thesis by fastforce
qed

subsection \<open>The clients\<close>

text \<open>The requests among the events.\<close>

definition requests_in :: "event list \<Rightarrow> (u8 \<times> message) list" where
  "requests_in es = List.map_filter (\<lambda>e. case e of EvSend t m _ _ \<Rightarrow> Some (t, m) | _ \<Rightarrow> None) es"

lemma requests_in_append [simp]:
  "requests_in (es @ [e]) = requests_in es @ (case e of EvSend t m _ _ \<Rightarrow> [(t, m)] | _ \<Rightarrow> [])"
  by (simp add: requests_in_def List.map_filter_def split: event.split)

lemma requests_in_append2 [simp]:
  "requests_in (es @ [e, e']) = requests_in (es @ [e]) @ (case e' of EvSend t m _ _ \<Rightarrow> [(t, m)] | _ \<Rightarrow> [])"
  using requests_in_append [of "es @ [e]" e'] by simp

text \<open>
  C39: What the clients of the clock server get back, for a delay that is positive and an answer that is not an error:
  \<open>Delay\<close> and \<open>DelayUntil\<close> return 0 and \<open>Time\<close> the time of the answer when the server could be reached,
  and all three return -1 when \<open>Send\<close> failed. Each of them sends exactly one request, with the documented
  type and the caller's number of ticks.
\<close>

theorem clock_client_results:
  assumes "\<forall>m h. sys w (CSend (ucast tid) m) h = Some \<lparr>o_ret = res, o_from = f, o_data = ClockMsg rep\<rparr>"
    and "0 < sint ticks" and "csm_type rep \<noteq> CLOCK_SERVER_MSG_TYPE_ERROR"
  shows "map_option (\<lambda>(r, w'). (r, requests_in (trace w'))) (Delay tid ticks w) =
      Some (if res = 0 then 0 else - 1,
        requests_in (trace w) @ [(ucast tid, ClockMsg \<lparr>csm_type = CLOCK_SERVER_MSG_TYPE_DELAY, csm_time = ticks\<rparr>)]) \<and>
    map_option (\<lambda>(r, w'). (r, requests_in (trace w'))) (DelayUntil tid ticks w) =
      Some (if res = 0 then 0 else - 1,
        requests_in (trace w) @ [(ucast tid, ClockMsg \<lparr>csm_type = CLOCK_SERVER_MSG_TYPE_DELAYUNTIL, csm_time = ticks\<rparr>)]) \<and>
    map_option (\<lambda>(r, w'). (r, requests_in (trace w'))) (Time garbage tid w) =
      Some (if res = 0 then csm_time rep else - 1,
        requests_in (trace w) @ [(ucast tid, ClockMsg \<lparr>csm_type = CLOCK_SERVER_MSG_TYPE_TIME, csm_time = garbage\<rparr>)])"
  using assms(1)
  by (simp add: Delay_def DelayUntil_def Time_def Send_def clock_type_defs CLOCK_SERVER_INVALID_TID_def say_def
      clock_reply_def Let_def)

text \<open>
  The documented result -2 for a delay that is not positive never occurs: \<open>Delay\<close> and \<open>DelayUntil\<close> look at the type of
  the message they sent and not at that of the answer, so they return 0 after an error answer too.
\<close>

lemma invalid_delay_reported_as_success:
  assumes "\<forall>m h. sys w (CSend (ucast tid) m) h = Some \<lparr>o_ret = 0, o_from = f, o_data = ClockMsg rep\<rparr>"
    and "csm_type rep = CLOCK_SERVER_MSG_TYPE_ERROR"
  shows "map_option fst (Delay tid ticks w) = Some 0" and "map_option fst (DelayUntil tid ticks w) = Some 0"
  using assms(1) by (simp_all add: Delay_def DelayUntil_def Send_def clock_type_defs Let_def)

definition answering :: "message \<Rightarrow> world" where
  "answering m = \<lparr>trace = [], sys = (\<lambda>c h. Some \<lparr>o_ret = 0, o_from = 0, o_data = m\<rparr>)\<rparr>"

theorem clock_client_results_witness:
  "map_option fst (Delay 4 7 (answering (ClockMsg (clock_req 0 9)))) = Some 0 \<and>
   map_option fst (Time 0 4 (answering (ClockMsg (clock_req 0 9)))) = Some 9"
  using clock_client_results [of "answering (ClockMsg (clock_req 0 9))" 4 0 0 "clock_req 0 9" 7 0]
  by (auto simp: answering_def clock_type_defs)

subsection \<open>The notifier\<close>

text \<open>The history after \<open>k\<close> ticks have been delivered and answered with \<open>rep\<close>.\<close>

definition ticked :: "u8 \<Rightarrow> clock_server_msg_t \<Rightarrow> i32 \<Rightarrow> clock_server_msg_t \<Rightarrow> nat \<Rightarrow> event list" where
  "ticked tid msg v rep k =
     concat (replicate k [EvAwait TICK_EVENT v, EvSend tid (ClockMsg msg) 0 (Some (ClockMsg rep))])"

lemma notifier_loop_run:
  assumes "\<And>h. sys w (CAwait TICK_EVENT) h = Some \<lparr>o_ret = v, o_from = 0, o_data = NoMsg\<rparr>"
    and "\<And>j. j < k \<Longrightarrow> sys w (CSend tid (ClockMsg msg)) (trace w @ ticked tid msg v rep j @ [EvAwait TICK_EVENT v]) =
      Some \<lparr>o_ret = 0, o_from = 0, o_data = ClockMsg rep\<rparr>"
    and "sys w (CSend tid (ClockMsg msg)) (trace w @ ticked tid msg v rep k @ [EvAwait TICK_EVENT v]) =
      Some \<lparr>o_ret = 0, o_from = 0, o_data = ClockMsg bye\<rparr>"
    and "\<not> clock_is_exit rep" "clock_is_exit bye" "\<not> clock_is_exit r0"
  shows "\<exists>w'. notifier_loop tid msg r0 w = Some w' \<and>
    trace w' = trace w @ ticked tid msg v rep k @ [EvAwait TICK_EVENT v, EvSend tid (ClockMsg msg) 0 (Some (ClockMsg bye))]"
  using assms
proof (induction k arbitrary: w r0)
  case 0
  then show ?case
    by (subst notifier_loop.simps) (simp add: AwaitEvent_def Send_def ticked_def notifier_loop.simps)
next
  case (Suc k)
  let ?w = "did (EvSend tid (ClockMsg msg) 0 (Some (ClockMsg rep))) (did (EvAwait TICK_EVENT v) w)"
  have first: "sys w (CSend tid (ClockMsg msg)) (trace w @ [EvAwait TICK_EVENT v]) = Some \<lparr>o_ret = 0, o_from = 0, o_data = ClockMsg rep\<rparr>"
    using Suc.prems(2) [of 0] by (simp add: ticked_def)
  have shift: "trace w @ ticked tid msg v rep (Suc j) @ z = trace ?w @ ticked tid msg v rep j @ z" for j z
    by (simp add: ticked_def)
  have "\<exists>w'. notifier_loop tid msg rep ?w = Some w' \<and> trace w' = trace ?w @ ticked tid msg v rep k @
      [EvAwait TICK_EVENT v, EvSend tid (ClockMsg msg) 0 (Some (ClockMsg bye))]"
  proof (rule Suc.IH)
    fix j assume "j < k"
    then show "sys ?w (CSend tid (ClockMsg msg)) (trace ?w @ ticked tid msg v rep j @ [EvAwait TICK_EVENT v]) =
        Some \<lparr>o_ret = 0, o_from = 0, o_data = ClockMsg rep\<rparr>"
      using Suc.prems(2) [of "Suc j", unfolded shift] by simp
  next
    show "sys ?w (CSend tid (ClockMsg msg)) (trace ?w @ ticked tid msg v rep k @ [EvAwait TICK_EVENT v]) =
        Some \<lparr>o_ret = 0, o_from = 0, o_data = ClockMsg bye\<rparr>"
      using Suc.prems(3) [unfolded shift] by simp
  qed (use Suc.prems(1,4-6) in simp_all)
  moreover have "notifier_loop tid msg r0 w = notifier_loop tid msg rep ?w"
    using Suc.prems(1,6) first by (subst notifier_loop.simps) (simp add: AwaitEvent_def Send_def)
  ultimately show ?case unfolding shift by simp
qed

text \<open>
  C38: The notifier sends the clock server exactly one message per timer event and nothing else: after
  \<open>k\<close> ticks that the server acknowledges and one that it answers with the exit message, it has awaited
  and sent \<open>k + 1\<close> times in strict alternation, and then it ends.
\<close>

theorem notifier_one_message_per_tick:
  assumes "WhoIs CLOCK_SERVER_NAME w = Some (i, w1)" and "tid = ucast i" and "msg = \<lparr>csm_type = CLOCK_SERVER_MSG_TYPE_TICK, csm_time = garbage\<rparr>"
    and "\<forall>h. sys w1 (CAwait TICK_EVENT) h = Some \<lparr>o_ret = v, o_from = 0, o_data = NoMsg\<rparr>"
    and "\<forall>j<k. sys w1 (CSend tid (ClockMsg msg)) (trace w1 @ ticked tid msg v rep j @ [EvAwait TICK_EVENT v]) =
      Some \<lparr>o_ret = 0, o_from = 0, o_data = ClockMsg rep\<rparr>"
    and "sys w1 (CSend tid (ClockMsg msg)) (trace w1 @ ticked tid msg v rep k @ [EvAwait TICK_EVENT v]) =
      Some \<lparr>o_ret = 0, o_from = 0, o_data = ClockMsg bye\<rparr>"
    and "\<not> clock_is_exit rep" and "clock_is_exit bye"
  shows "\<exists>w' s. clock_server_notifier_main garbage garbage2 w = Some w' \<and>
    trace w' = trace w1 @ ticked tid msg v rep k @
      [EvAwait TICK_EVENT v, EvSend tid (ClockMsg msg) 0 (Some (ClockMsg bye)), EvPrint s [], EvExit]"
proof -
  let ?r0 = "\<lparr>csm_type = CLOCK_SERVER_MSG_TYPE_TICK, csm_time = garbage2\<rparr>"
  have "\<not> clock_is_exit ?r0" by (simp add: clock_type_defs)
  with notifier_loop_run [of w1 v k tid msg rep bye ?r0] assms(4-8) obtain w' where
    "notifier_loop tid msg ?r0 w1 = Some w'"
    "trace w' = trace w1 @ ticked tid msg v rep k @ [EvAwait TICK_EVENT v, EvSend tid (ClockMsg msg) 0 (Some (ClockMsg bye))]"
    by auto
  then show ?thesis
    using assms(1-3) by (auto simp: clock_server_notifier_main_def Exit_def say_def)
qed

definition ticking :: world where
  "ticking = \<lparr>trace = [], sys = (\<lambda>c h. case c of
      CSend t (NameMsg n) \<Rightarrow> Some \<lparr>o_ret = 0, o_from = 0, o_data = IntMsg 4\<rparr>
    | CSend t m \<Rightarrow> Some \<lparr>o_ret = 0, o_from = 0, o_data = ClockMsg (clock_req (if length h < 4 then 0 else 4) 0)\<rparr>
    | _ \<Rightarrow> Some \<lparr>o_ret = 0, o_from = 0, o_data = NoMsg\<rparr>)\<rparr>"

theorem notifier_one_message_per_tick_witness:
  "\<exists>w' q s. clock_server_notifier_main 0 0 ticking = Some w' \<and> trace w' = [EvSend 2 q 0 (Some (IntMsg 4)),
      EvAwait TICK_EVENT 0, EvSend 4 (ClockMsg (clock_req 0 0)) 0 (Some (ClockMsg (clock_req 0 0))),
      EvAwait TICK_EVENT 0, EvSend 4 (ClockMsg (clock_req 0 0)) 0 (Some (ClockMsg (clock_req 4 0))), EvPrint s [], EvExit]"
proof -
  let ?q = "NameMsg (name_server_msg_init NAME_SERVER_MSG_TYPE_WHO CLOCK_SERVER_NAME)"
  let ?w1 = "did (EvSend 2 ?q 0 (Some (IntMsg 4))) ticking"
  have who: "WhoIs CLOCK_SERVER_NAME ticking = Some (4, ?w1)"
    by (simp add: WhoIs_def whois_loop.simps Send_def NAME_SERVER_TID_def) (simp add: ticking_def)
  have t: "sys ?w1 (CAwait TICK_EVENT) h = Some \<lparr>o_ret = 0, o_from = 0, o_data = NoMsg\<rparr>"
    "sys ?w1 (CSend t (ClockMsg m)) h =
       Some \<lparr>o_ret = 0, o_from = 0, o_data = ClockMsg (clock_req (if length h < 4 then 0 else 4) 0)\<rparr>"
    "trace ?w1 = [EvSend 2 ?q 0 (Some (IntMsg 4))]" for h t m
    by (simp_all add: ticking_def)
  have "\<exists>w' s. clock_server_notifier_main 0 0 ticking = Some w' \<and>
    trace w' = trace ?w1 @ ticked 4 (clock_req 0 0) 0 (clock_req 0 0) 1 @
      [EvAwait TICK_EVENT 0, EvSend 4 (ClockMsg (clock_req 0 0)) 0 (Some (ClockMsg (clock_req 4 0))), EvPrint s [], EvExit]"
    by (rule notifier_one_message_per_tick [OF who]) (simp_all only: t, simp_all add: ticked_def clock_type_defs)
  then show ?thesis by (auto simp: t(3) ticked_def simp del: did_simps)
qed

end
