(* ===== verification/IoTheorems.thy ===== *)
theory IoTheorems
  imports IoProps ClockTheorems
begin

text \<open>
  The theorems of the I/O server: it implements its service from start-up to shutdown, no byte is lost,
  invented or reordered in either direction, an overflow stops the system, and the transmit notifier
  writes what it is given to the device.
\<close>

subsection \<open>Shutdown\<close>

abbreviation io_is_notif :: "io_server_msg_t \<Rightarrow> bool" where
  "io_is_notif msg \<equiv> ism_type msg = IO_SERVER_MSG_TYPE_NOTIF_RX \<or> ism_type msg = IO_SERVER_MSG_TYPE_NOTIF_TX"

definition io_exit_msg :: "io_server_msg_t \<Rightarrow> message" where
  "io_exit_msg m = IoMsg (m\<lparr>ism_type := IO_SERVER_MSG_TYPE_EXIT\<rparr>)"

lemma io_reply_IoMsg [simp]: "io_reply (IoMsg m) = Some m"
  by (simp add: io_reply_def)

lemma exit_notifiers_skip:
  assumes "pending w (map (apsnd IoMsg) ds @ ms)" "\<forall>(t, m)\<in>set ds. \<not> io_is_notif m" "k < 2"
  shows "\<exists>st' w'. exit_notifiers k st w = exit_notifiers k st' w' \<and> advances w (length ds) [] w'"
  using assms(1,2)
proof (induction ds arbitrary: st w)
  case Nil
  then show ?case by auto
next
  case (Cons r ds)
  obtain t m where r: "r = (t, m)" by fastforce
  then have "next_msg w t (IoMsg m)" using Cons.prems(1) by (auto intro: pending_next)
  from Receive_advances [OF this, of "IoMsg (io_msg st)" "io_sender_tid st"] obtain w1 where
    1: "Receive (io_sender_tid st) (IoMsg (io_msg st)) w = Some (ucast t, t, IoMsg m, w1)" "advances w 1 [] w1"
    by auto
  let ?st = "st\<lparr>io_sender_tid := t, io_msg := m\<rparr>"
  have "pending w1 (map (apsnd IoMsg) ds @ ms)"
    using pending_advances [of w "[(t, IoMsg m)]"] Cons.prems(1) r 1(2) by simp
  with Cons.IH [of w1 ?st] Cons.prems(2) obtain st' w' where
    "exit_notifiers k ?st w1 = exit_notifiers k st' w'" "advances w1 (length ds) [] w'"
    by auto
  moreover have "exit_notifiers k st w = exit_notifiers k ?st w1"
    using 1(1) assms(3) Cons.prems(2) r by (subst exit_notifiers.simps) simp
  ultimately show ?case using advances_trans [OF 1(2)] by fastforce
qed

lemma exit_notifiers_next:
  assumes "pending w (map (apsnd IoMsg) (ds @ [(n, m)]) @ ms)" "\<forall>(t, m)\<in>set ds. \<not> io_is_notif m"
    "io_is_notif m" "k < 2" "replies_return w"
  shows "\<exists>st' w' j. exit_notifiers k st w = exit_notifiers (Suc k) st' w' \<and> advances w j [(n, io_exit_msg m)] w' \<and>
    pending w' ms"
proof -
  obtain st1 w1 where 1: "exit_notifiers k st w = exit_notifiers k st1 w1" "advances w (length ds) [] w1"
    using exit_notifiers_skip [of w ds "(n, IoMsg m) # ms" k st] assms(1,2,4) by auto
  have p1: "pending w1 ((n, IoMsg m) # ms)"
    using pending_advances [of w "map (apsnd IoMsg) ds" "(n, IoMsg m) # ms"] assms(1) 1(2) by simp
  from Receive_advances [OF pending_next [OF p1], of "IoMsg (io_msg st1)" "io_sender_tid st1"] obtain w2 where
    2: "Receive (io_sender_tid st1) (IoMsg (io_msg st1)) w1 = Some (ucast n, n, IoMsg m, w2)" "advances w1 1 [] w2"
    by auto
  let ?m = "m\<lparr>ism_type := IO_SERVER_MSG_TYPE_EXIT\<rparr>"
  let ?st = "st1\<lparr>io_sender_tid := n, io_msg := ?m\<rparr>"
  have a2: "advances w (length ds + 1) [] w2" using advances_trans [OF 1(2) 2(2)] by simp
  have "replies_return w2" using assms(5) advances_replies_return [OF a2] by simp
  then obtain w3 where 3: "io_send n ?st w2 = Some (?st, w3)" "advances w2 0 [(n, IoMsg (io_msg ?st))] w3"
    by (rule io_send_advances)
  have "exit_notifiers k st w = exit_notifiers (Suc k) ?st w3"
    unfolding 1(1) using 2(1) 3(1) assms(3,4) by (subst exit_notifiers.simps) auto
  moreover have "advances w (length ds + 1) [(n, io_exit_msg m)] w3"
    using advances_trans [OF a2 3(2)] by (simp add: io_exit_msg_def)
  moreover have "pending w3 ms"
    using pending_advances [of w1 "[(n, IoMsg m)]" ms _ w3] p1 advances_trans [OF 2(2) 3(2)] by simp
  ultimately show ?thesis by blast
qed

lemma io_exit_unanswered:
  "io_is_exit x \<Longrightarrow> snd (service_run (io_spec tx) S (rs @ [(e, x)])) = snd (service_run (io_spec tx) S rs)"
proof (induction rs arbitrary: S)
  case Nil
  then show ?case by (simp add: io_spec_def io_type_defs)
next
  case (Cons r rs)
  then show ?case by (cases r) (simp add: split_def Let_def)
qed

definition io_start :: io_service_state where
  "io_start = \<lparr>si_in = [], si_out = [], si_tx_ready = False, si_client = None\<rparr>"

subsection \<open>Theorems\<close>

text \<open>
  C30: The I/O server implements its service from start-up to shutdown: for all requests that respect
  the contract, its replies are exactly those of two unbounded-looking byte queues with a waiting
  reader and a waiting transmitter. After the exit message it answers the next message of each of its
  two notifiers with the exit type, drops everything else and exits; the task that asked it to exit is
  not answered.
\<close>

theorem io_server_refines:
  assumes "length in_buf = 128" and "length out_buf = 128"
    and "get_com_num g1 g2 ''io server failed to get COM number'' w = Some (p, com, w1)"
    and "io_server_setup com w1 = Some (tx, w2)" and "replies_return w2"
    and "pending w2 (map (apsnd IoMsg) (rs @ [(e, x)]) @ map (apsnd IoMsg) (ds1 @ [(n1, m1)]) @
      map (apsnd IoMsg) (ds2 @ [(n2, m2)]) @ ms)"
    and "\<forall>(t, m)\<in>set rs. \<not> io_is_exit m" and "io_is_exit x"
    and "admissible (io_spec tx) (io_ok tx) io_start (rs @ [(e, x)])"
    and "\<forall>(t, m)\<in>set (ds1 @ ds2). \<not> io_is_notif m" and "io_is_notif m1" and "io_is_notif m2"
  shows "\<exists>w'. io_server_main in_buf out_buf msg g1 g2 w = Some (Exit w') \<and>
    replies (trace w') = replies (trace w2) @ snd (service_run (io_spec tx) io_start rs) @
      [(n1, io_exit_msg m1), (n2, io_exit_msg m2)]"
proof -
  let ?st = "\<lparr>io_msg = msg, io_sender_tid = p, io_tx_notifier_tid = tx,
      io_rb_in = ringbuffer_init in_buf IO_SERVER_BUFFER_SIZE, io_rb_out = ringbuffer_init out_buf IO_SERVER_BUFFER_SIZE,
      io_tx_ready = False, io_client_ready = False, io_client_tid = 0\<rparr>"
  have "io_rep tx ?st io_start"
    using assms(1,2) by (simp add: io_rep_def io_start_def IO_SERVER_BUFFER_SIZE_def rb_rep_init)
      (simp add: ringbuffer_init_def)
  from io_service.loop_run [OF this assms(5-9)] obtain st3 w3 where
    3: "io_server_loop ?st w2 = Some (st3, w3)" "advances w2 (Suc (length rs)) (snd (service_run (io_spec tx) io_start rs)) w3"
    using io_exit_unanswered [OF assms(8)] by auto
  have ret3: "replies_return w3" using assms(5) advances_replies_return [OF 3(2)] by simp
  have p3: "pending w3 (map (apsnd IoMsg) (ds1 @ [(n1, m1)]) @ map (apsnd IoMsg) (ds2 @ [(n2, m2)]) @ ms)"
    using pending_advances [OF assms(6), of _ w3] 3(2) by simp
  have "\<forall>(t, m)\<in>set ds1. \<not> io_is_notif m" using assms(10) by auto
  from exit_notifiers_next [OF p3 this assms(11) _ ret3, of 0 st3] obtain st4 w4 j where
    4: "exit_notifiers 0 st3 w3 = exit_notifiers 1 st4 w4" "advances w3 j [(n1, io_exit_msg m1)] w4"
      "pending w4 (map (apsnd IoMsg) (ds2 @ [(n2, m2)]) @ ms)"
    by auto
  have "\<forall>(t, m)\<in>set ds2. \<not> io_is_notif m" "replies_return w4"
    using assms(10) ret3 advances_replies_return [OF 4(2)] by auto
  from exit_notifiers_next [OF 4(3) this(1) assms(12) _ this(2), of 1 st4] obtain st5 w5 i where
    5: "exit_notifiers 1 st4 w4 = exit_notifiers 2 st5 w5" "advances w4 i [(n2, io_exit_msg m2)] w5"
    by (auto simp: numeral_2_eq_2)
  have "exit_notifiers 2 st5 w5 = Some (st5, w5)" by (subst exit_notifiers.simps) simp
  then have "io_server_main in_buf out_buf msg g1 g2 w = Some (Exit (say ''IO server shutting down'' [] w5))"
    using assms(3,4) 3(1) 4(1) 5(1) by (simp add: io_server_main_def)
  then show ?thesis
    using advances_trans [OF 3(2) advances_trans [OF 4(2) 5(2)]] by (auto simp: advances_def say_def)
qed

definition io_req :: "u32 \<Rightarrow> u8 list \<Rightarrow> io_server_msg_t" where
  "io_req ty bs = \<lparr>ism_type = ty, ism_data = bs @ replicate (31 - length bs) 0, ism_len = of_nat (length bs)\<rparr>"

text \<open>The transmit notifier 0 waits, task 5 writes two bytes, task 7 types a character, task 6 reads it.\<close>

definition io_script :: "(u8 \<times> io_server_msg_t) list" where
  "io_script = [(0, io_req 4 []), (5, io_req 2 [72, 105]), (7, io_req 3 [33]), (6, io_req 1 [0])]"

definition io_inbox :: "(u8 \<times> message) list" where
  "io_inbox = map (apsnd IoMsg) (io_script @ [(5, io_req 0 [])]) @ map (apsnd IoMsg) ([(6, io_req 1 [0])] @ [(0, io_req 4 [])]) @
     map (apsnd IoMsg) ([] @ [(7, io_req 3 [1])]) @ []"

lemmas io_eval = io_req_def io_type_defs io_spec_def read_spec_def write_spec_def rx_spec_def tx_spec_def
  load_def ack_def payload_def io_start_def

lemma io_script_run: "snd (service_run (io_spec 0) io_start io_script) =
   [(0, IoMsg ((io_req 2 [72, 105]))), (5, IoMsg ((io_req 2 [72, 105])\<lparr>ism_len := 0\<rparr>)),
    (7, IoMsg ((io_req 3 [33])\<lparr>ism_len := 0\<rparr>)), (6, IoMsg (io_req 1 [33]))]"
  by (simp add: io_eval io_script_def)

lemma io_script_ok: "admissible (io_spec 0) (io_ok 0) io_start (io_script @ [(5, io_req 0 [])])"
  by (simp add: io_script_def io_ok_def io_eval)

lemma io_script_start:
  "\<exists>w1 w2. get_com_num 0 0 ''io server failed to get COM number'' (scripted ((9, ByteMsg 1) # ms)) = Some (9, 1, w1) \<and>
    io_server_setup 1 w1 = Some (0, w2) \<and> replies (trace w2) = [(9, NoMsg)] \<and>
    receives (trace w2) = 1 \<and> sys w2 = sys (scripted ((9, ByteMsg 1) # ms))"
  by (simp add: get_com_num_def receive_com_num_def Receive_def Reply_def scripted_def byte_msg_def io_server_setup_def
      RegisterAs_def Create_def Send_def send_com_num_def COM1_def COM2_def did_def Let_def)

theorem io_server_refines_witness:
  "\<exists>w'. io_server_main (replicate 128 0) (replicate 128 0) (io_req 0 []) 0 0 (scripted ((9, ByteMsg 1) # io_inbox)) = Some (Exit w') \<and>
    replies (trace w') = [(9, NoMsg), (0, IoMsg ((io_req 2 [72, 105]))), (5, IoMsg ((io_req 2 [72, 105])\<lparr>ism_len := 0\<rparr>)),
      (7, IoMsg ((io_req 3 [33])\<lparr>ism_len := 0\<rparr>)), (6, IoMsg (io_req 1 [33])),
      (0, io_exit_msg (io_req 4 [])), (7, io_exit_msg (io_req 3 [1]))]"
proof -
  let ?w = "scripted ((9, ByteMsg 1) # io_inbox)"
  obtain w1 w2 where start: "get_com_num 0 0 ''io server failed to get COM number'' ?w = Some (9, 1, w1)"
    "io_server_setup 1 w1 = Some (0, w2)" and w2: "replies (trace w2) = [(9, NoMsg)]" "receives (trace w2) = 1" "sys w2 = sys ?w"
    using io_script_start by blast
  have ret: "replies_return w2" using scripted_replies [of "(9, ByteMsg 1) # io_inbox"] w2(3) by (simp add: replies_return_def)
  have pend: "pending w2 io_inbox"
    using pending_after [of ?w "[(9, ByteMsg 1)]" io_inbox w2] scripted_pending w2(2,3) by simp
  have types: "\<forall>(t, m)\<in>set io_script. \<not> io_is_exit m" "io_is_exit (io_req 0 [])"
    "\<forall>(t, m)\<in>set ([(6, io_req 1 [0])] @ []). \<not> io_is_notif m" "io_is_notif (io_req 4 [])" "io_is_notif (io_req 3 [1])"
    by (simp_all add: io_script_def io_req_def io_type_defs)
  show ?thesis
    using io_server_refines [OF _ _ start ret pend [unfolded io_inbox_def] types(1,2) io_script_ok types(3-5), of "replicate 128 0" "replicate 128 0" "io_req 0 []"]
    unfolding io_script_run w2(1) io_inbox_def by (simp only: length_replicate append_Nil append_Cons simp_thms)
qed

subsection \<open>Overflow\<close>

text \<open>A request for which the buffer has no room, and the message of the panic that it leads to.\<close>

definition io_overflow :: "io_server_msg_t \<Rightarrow> io_service_state \<Rightarrow> bool" where
  "io_overflow msg S \<longleftrightarrow>
     ism_type msg = IO_SERVER_MSG_TYPE_CLIENT_WRITE \<and> 127 < length (si_out S) + unat (ism_len msg) \<or>
     ism_type msg = IO_SERVER_MSG_TYPE_NOTIF_RX \<and> 127 \<le> length (si_in S)"

definition overflow_err :: "io_server_msg_t \<Rightarrow> string" where
  "overflow_err msg = line
     (if ism_type msg = IO_SERVER_MSG_TYPE_CLIENT_WRITE then ''Not enough space in ringbuffer!'' else ''Input ringbuffer full!'')"

lemma calls_panicI:
  assumes "f w = do { w \<leftarrow> panic err w1; g w }" "trace w1 = trace w @ es" "sys w1 = sys w"
    and "\<And>w2. sys w2 = sys w \<Longrightarrow> trace w2 = trace w @ es @ [EvPanic err] \<Longrightarrow>
      \<exists>r w' es'. g w2 = Some (r, w') \<and> trace w' = trace w2 @ es'"
  shows "calls_panic err es f w"
proof (cases "sys w (CPanic err) (trace w @ es)")
  case None
  then show ?thesis using assms(1-3) by (simp add: calls_panic_def panic_def)
next
  case (Some r)
  let ?w2 = "did (EvPanic err) w1"
  obtain r' w' es' where "g ?w2 = Some (r', w')" "trace w' = trace ?w2 @ es'"
    using assms(4) [of ?w2] assms(2,3) by auto
  then show ?thesis using Some assms(1-3) by (simp add: calls_panic_def panic_def)
qed

lemma io_ack_returns:
  assumes "replies_return w"
  shows "\<exists>r w' es'. io_ack st w = Some (r, w') \<and> trace w' = trace w @ es'"
proof -
  obtain r where "Reply (io_sender_tid st) (IoMsg (io_msg (st\<lparr>io_msg := (io_msg st)\<lparr>ism_len := 0\<rparr>\<rparr>))) w =
      Some (r, did (EvReply (io_sender_tid st) (IoMsg (io_msg (st\<lparr>io_msg := (io_msg st)\<lparr>ism_len := 0\<rparr>\<rparr>))) r) w)"
    by (rule Reply_returns [OF assms])
  then show ?thesis by (simp add: io_ack_def io_send_def)
qed

lemma io_overflow_panics_calls:
  assumes "io_rep tx st S" and "replies_return w" and "next_msg w t (IoMsg msg)"
    and "length (ism_data msg) = 31" and "unat (ism_len msg) \<le> 31" and "io_overflow msg S"
  shows "calls_panic (overflow_err msg) [EvReceive (ucast t) t (IoMsg msg)] (io_server_body st) w"
proof -
  let ?w1 = "did (EvReceive (ucast t) t (IoMsg msg)) w" and ?st = "st\<lparr>io_sender_tid := t, io_msg := msg\<rparr>"
  have rcv: "Receive (io_sender_tid st) (IoMsg (io_msg st)) w = Some (ucast t, t, IoMsg msg, ?w1)"
    using assms(3) by (auto simp: Receive_def next_msg_def)
  have pos: "\<not> sint (ucast t :: i32) < 0" using ucast_byte_nonneg [of t] by simp
  have rb: "rb_rep (io_rb_out st) (si_out S)" "rb_size (io_rb_out st) = 128" "rb_rep (io_rb_in st) (si_in S)" "rb_size (io_rb_in st) = 128"
    using assms(1) by (simp_all add: io_rep_def)
  have "\<exists>st1. io_server_body st w = do { w \<leftarrow> panic (overflow_err msg) ?w1; io_ack st1 w }"
    using assms(6) unfolding io_overflow_def
  proof
    assume wr: "ism_type msg = IO_SERVER_MSG_TYPE_CLIENT_WRITE \<and> 127 < length (si_out S) + unat (ism_len msg)"
    have "unat (ism_len msg) \<le> length (ism_data msg)" using assms(4,5) by simp
    from rb_rep_putn [OF rb(1) this] obtain rb' where
      "ringbuffer_putn (ism_data msg) (ism_len msg) (io_rb_out st) = Some (False, rb')"
      using wr rb(2) by auto
    with rcv wr pos show ?thesis
      by (intro exI [of _ "?st\<lparr>io_rb_out := rb'\<rparr>"])
        (simp add: io_server_body_def io_type_defs io_client_write_def overflow_err_def Let_def bind_assoc)
  next
    assume rx: "ism_type msg = IO_SERVER_MSG_TYPE_NOTIF_RX \<and> 127 \<le> length (si_in S)"
    obtain rb' where "ringbuffer_put (ism_data msg ! 0) (io_rb_in st) = Some (False, rb')"
      by (rule rb_rep_put [OF rb(3), of "ism_data msg ! 0"]) (use rx rb(3,4) in \<open>auto simp: rb_rep_def Let_def\<close>)
    with rcv rx assms(4) pos show ?thesis
      by (intro exI [of _ "?st\<lparr>io_rb_in := rb'\<rparr>"])
        (simp add: io_server_body_def io_type_defs io_notif_rx_def overflow_err_def Let_def bind_assoc)
  qed
  then obtain st1 where body: "io_server_body st w = do { w \<leftarrow> panic (overflow_err msg) ?w1; io_ack st1 w }" ..
  show ?thesis
  proof (rule calls_panicI [where f = "io_server_body st" and g = "io_ack st1" and ?w1.0 = ?w1, OF body])
    fix w2 :: world assume "sys w2 = sys w"
    then have "replies_return w2" using assms(2) by (simp add: replies_return_def)
    then show "\<exists>r w' es'. io_ack st1 w2 = Some (r, w') \<and> trace w' = trace w2 @ es'" by (rule io_ack_returns)
  qed simp_all
qed

text \<open>
  C33: When a client writes more than the output buffer can take, or a character arrives while 127 wait
  to be read, the server panics with the message that names the buffer. The panic is the first thing it does after it has
  received the request: it has not answered anybody before. As the kernel stops at a panic, it does not return.
\<close>

theorem io_overflow_panics:
  assumes "io_rep tx st S" and "replies_return w" and "next_msg w t (IoMsg msg)"
    and "length (ism_data msg) = 31" and "unat (ism_len msg) \<le> 31" and "io_overflow msg S"
  shows "calls_panic (overflow_err msg) [EvReceive (ucast t) t (IoMsg msg)] (io_server_body st) w \<and>
    (panics_stop w \<longrightarrow> io_server_body st w = None)"
  using io_overflow_panics_calls [OF assms] calls_panic_stops by blast

definition io_blank :: io_server_state where
  "io_blank = \<lparr>io_msg = io_req 0 [], io_sender_tid = 9, io_tx_notifier_tid = 0,
     io_rb_in = ringbuffer_init (replicate 128 0) 128, io_rb_out = ringbuffer_init (replicate 128 0) 128,
     io_tx_ready = False, io_client_ready = False, io_client_tid = 0\<rparr>"

definition io_full :: io_server_state where
  "io_full = io_blank\<lparr>io_rb_out := \<lparr>read_index = 0, write_index = 127, rb_size = 128, buf = replicate 128 0\<rparr>\<rparr>"

lemma io_full_rep: "io_rep 0 io_full (io_start\<lparr>si_out := replicate 127 0\<rparr>)"
  by (simp add: io_rep_def io_full_def io_blank_def io_start_def rb_rep_def ringbuffer_init_def Let_def)

text \<open>The same message in an environment that stops at a panic, and in one that comes back from it.\<close>

theorem io_overflow_panics_witness:
  "io_server_body io_full (scripted [(5, IoMsg (io_req 2 [65]))]) = None \<and>
   (\<exists>st' w' es. io_server_body io_full (answering (IoMsg (io_req 2 [65]))) = Some (st', w') \<and>
      trace w' = EvReceive 0 0 (IoMsg (io_req 2 [65])) # EvPanic (line ''Not enough space in ringbuffer!'') # es)"
proof -
  let ?m = "io_req 2 [65]" and ?S = "io_start\<lparr>si_out := replicate 127 0\<rparr>"
  have m: "length (ism_data ?m) = 31" "unat (ism_len ?m) \<le> 31" "io_overflow ?m ?S"
    "overflow_err ?m = line ''Not enough space in ringbuffer!''"
    by (simp_all add: io_req_def io_overflow_def overflow_err_def io_type_defs)
  have "next_msg (scripted [(5, IoMsg ?m)]) 5 (IoMsg ?m)" by (rule pending_next [OF scripted_pending])
  from io_overflow_panics [OF io_full_rep scripted_replies this m(1-3)]
  have "io_server_body io_full (scripted [(5, IoMsg ?m)]) = None" by simp
  moreover have "next_msg (answering (IoMsg ?m)) 0 (IoMsg ?m)" "replies_return (answering (IoMsg ?m))"
    by (simp_all add: next_msg_def answering_def replies_return_def)
  from io_overflow_panics [OF io_full_rep this(2,1) m(1-3)]
  have "calls_panic (overflow_err ?m) [EvReceive (ucast (0 :: u8)) 0 (IoMsg ?m)] (io_server_body io_full) (answering (IoMsg ?m))" by blast
  ultimately show ?thesis by (auto simp: calls_panic_def answering_def m(4))
qed

subsection \<open>No byte is lost, invented or reordered\<close>

text \<open>The bytes that the messages among some replies carry to the tasks in \<open>P\<close>.\<close>

fun bytes_to :: "(u8 \<Rightarrow> bool) \<Rightarrow> (u8 \<times> message) list \<Rightarrow> u8 list" where
  "bytes_to P [] = []"
| "bytes_to P ((t, IoMsg m) # out) = (if P t then payload m else []) @ bytes_to P out"
| "bytes_to P (_ # out) = bytes_to P out"

lemma bytes_to_append [simp]: "bytes_to P (xs @ ys) = bytes_to P xs @ bytes_to P ys"
  by (induction P xs rule: bytes_to.induct) auto

lemma bytes_to_ack [simp]: "bytes_to P [(t, ack m)] = []"
  by (simp add: ack_def payload_def)

lemma bytes_to_Cons: "bytes_to P (x # xs) = bytes_to P [x] @ bytes_to P xs"
  by (simp only: bytes_to_append [symmetric] append_Cons append_Nil)

definition written :: "io_server_msg_t \<Rightarrow> u8 list" where
  "written m = (if ism_type m = IO_SERVER_MSG_TYPE_CLIENT_WRITE then payload m else [])"

definition typed :: "io_server_msg_t \<Rightarrow> u8 list" where
  "typed m = (if ism_type m = IO_SERVER_MSG_TYPE_NOTIF_RX then [ism_data m ! 0] else [])"

definition io_inv :: "u8 \<Rightarrow> io_service_state \<Rightarrow> bool" where
  "io_inv tx S \<longleftrightarrow> si_client S \<noteq> Some tx \<and> (si_client S \<noteq> None \<longrightarrow> si_in S = []) \<and>
     length (si_in S) \<le> 127 \<and> length (si_out S) \<le> 127"

lemma io_step_conserves:
  assumes "io_inv tx S" "io_ok tx t m S"
  shows "io_inv tx (fst (io_spec tx t m S)) \<and>
      bytes_to (\<lambda>t. t = tx) (snd (io_spec tx t m S)) @ si_out (fst (io_spec tx t m S)) = si_out S @ written m \<and>
      bytes_to (\<lambda>t. t \<noteq> tx) (snd (io_spec tx t m S)) @ si_in (fst (io_spec tx t m S)) = si_in S @ typed m"
proof -
  consider (rd) "ism_type m = IO_SERVER_MSG_TYPE_CLIENT_READ" | (wr) "ism_type m = IO_SERVER_MSG_TYPE_CLIENT_WRITE"
    | (rx) "ism_type m = IO_SERVER_MSG_TYPE_NOTIF_RX" | (tx) "ism_type m = IO_SERVER_MSG_TYPE_NOTIF_TX"
    | (ex) "io_is_exit m"
    using assms(2) io_types [of "ism_type m"] unfolding io_ok_def by blast
  then show ?thesis
  proof cases
    case rd
    then have "t \<noteq> tx" using assms(2) by (simp add: io_ok_def io_type_defs)
    with rd assms show ?thesis
      by (auto simp: io_spec_def read_spec_def io_inv_def written_def typed_def io_type_defs payload_load Let_def)
  next
    case wr
    then have t: "t \<noteq> tx" and len: "length (si_out S) + length (payload m) \<le> 127"
      using assms(2) by (auto simp: io_ok_def io_type_defs payload_def)
    define out where "out = si_out S @ payload m"
    have spec: "io_spec tx t m S = (if si_tx_ready S
         then (S\<lparr>si_out := drop 31 out, si_tx_ready := False\<rparr>,
               [(tx, IoMsg (load m (take 31 out))), (t, ack (load m (take 31 out)))])
         else (S\<lparr>si_out := out\<rparr>, [(t, ack m)]))"
      using wr by (simp add: io_spec_def write_spec_def out_def io_type_defs Let_def)
    have "length out \<le> 127" "si_out S @ written m = out" "typed m = []"
      using wr len by (simp_all add: out_def written_def typed_def io_type_defs)
    with t assms(1) spec show ?thesis
      by (auto simp: io_inv_def payload_load bytes_to_Cons [of _ _ "[_]"])
  next
    case rx
    then have "t \<noteq> tx" using assms(2) by (simp add: io_ok_def io_type_defs)
    with rx assms show ?thesis
      by (auto simp: io_spec_def rx_spec_def io_inv_def io_ok_def written_def typed_def io_type_defs payload_load
          bytes_to_Cons [of _ _ "[_]"] Let_def split: option.splits)
  next
    case tx
    then have "t = tx" using assms(2) by (simp add: io_ok_def io_type_defs)
    with tx assms show ?thesis
      by (auto simp: io_spec_def tx_spec_def io_inv_def written_def typed_def io_type_defs payload_load)
  next
    case ex
    with assms(1) show ?thesis by (simp add: io_spec_def written_def typed_def io_type_defs)
  qed
qed

lemma io_run_conserves:
  assumes "io_inv tx S" "admissible (io_spec tx) (io_ok tx) S rs"
  defines "r \<equiv> service_run (io_spec tx) S rs"
  shows "bytes_to (\<lambda>t. t = tx) (snd r) @ si_out (fst r) = si_out S @ concat (map (written \<circ> snd) rs) \<and>
    bytes_to (\<lambda>t. t \<noteq> tx) (snd r) @ si_in (fst r) = si_in S @ concat (map (typed \<circ> snd) rs) \<and>
    length (si_out (fst r)) \<le> 127 \<and> length (si_in (fst r)) \<le> 127"
proof -
  note c = service_run_conserves [where I = "io_inv tx" and ok = "io_ok tx" and spec = "io_spec tx" and a = S and rs = rs]
  have "io_inv tx (fst r) \<and> bytes_to (\<lambda>t. t = tx) (snd r) @ si_out (fst r) = si_out S @ concat (map (written \<circ> snd) rs)"
    unfolding r_def by (rule c) (use assms(1,2) io_step_conserves in auto)
  moreover have "io_inv tx (fst r) \<and> bytes_to (\<lambda>t. t \<noteq> tx) (snd r) @ si_in (fst r) = si_in S @ concat (map (typed \<circ> snd) rs)"
    unfolding r_def by (rule c) (use assms(1,2) io_step_conserves in auto)
  ultimately show ?thesis by (auto simp: io_inv_def)
qed

text \<open>
  The form of the requests, whatever the server holds: the data of a message, a length that fits it where the
  length is used, a known type, and the type of the transmit notifier from that notifier alone.
\<close>

definition io_form :: "u8 \<Rightarrow> u8 \<Rightarrow> io_server_msg_t \<Rightarrow> bool" where
  "io_form tx t msg \<longleftrightarrow>
     length (ism_data msg) = 31 \<and> ism_type msg \<le> IO_SERVER_MSG_TYPE_NOTIF_TX \<and>
     (ism_type msg \<noteq> IO_SERVER_MSG_TYPE_EXIT \<longrightarrow> unat (ism_len msg) \<le> 31) \<and>
     (ism_type msg = IO_SERVER_MSG_TYPE_NOTIF_TX) = (t = tx)"

lemma io_ok_cases: "io_form tx t msg \<Longrightarrow> \<not> io_ok tx t msg S \<Longrightarrow> io_overflow msg S"
  by (auto simp: io_form_def io_ok_def io_overflow_def io_type_defs)

lemma io_ok_exit: "io_form tx t msg \<Longrightarrow> io_is_exit msg \<Longrightarrow> io_ok tx t msg S"
  by (auto simp: io_form_def io_ok_def io_type_defs)

text \<open>
  \<open>io_carried tx S rs out S'\<close>: with the requests \<open>rs\<close> and the replies \<open>out\<close>, what the server got from the state \<open>S\<close>
  to \<open>S'\<close> accounts for every byte, in each direction.
\<close>

definition io_carried ::
  "u8 \<Rightarrow> io_service_state \<Rightarrow> (u8 \<times> io_server_msg_t) list \<Rightarrow> (u8 \<times> message) list \<Rightarrow> io_service_state \<Rightarrow> bool"
where
  "io_carried tx S rs out S' \<longleftrightarrow>
     bytes_to (\<lambda>t. t = tx) out @ si_out S' = si_out S @ concat (map (written \<circ> snd) rs) \<and>
     bytes_to (\<lambda>t. t \<noteq> tx) out @ si_in S' = si_in S @ concat (map (typed \<circ> snd) rs) \<and>
     length (si_out S') \<le> 127 \<and> length (si_in S') \<le> 127"

lemma io_run_carried:
  "io_inv tx S \<Longrightarrow> admissible (io_spec tx) (io_ok tx) S rs \<Longrightarrow>
     io_carried tx S rs (snd (service_run (io_spec tx) S rs)) (fst (service_run (io_spec tx) S rs))"
  unfolding io_carried_def by (rule io_run_conserves)

text \<open>
  C31: Between its clients and its notifiers the server loses, invents and reorders no byte, for every sequence of
  requests of the right form that ends with the exit message, however much is written. Either it gets to
  the end, and the bytes it has handed to the transmit notifier followed by those it still holds are the bytes that were
  waiting followed by all that the clients wrote, in order, and likewise for the bytes from the device and the
  readers. Or there is a first request for which a buffer has no room: up to it all bytes are accounted for in the same way,
  and on that request the server panics at once instead of dropping or overwriting a byte. It never holds more than
  127 bytes in either direction.
\<close>

theorem io_bytes_in_order:
  assumes "io_rep tx st S" and "io_inv tx S" and "replies_return w"
    and "pending w (map (apsnd IoMsg) (rs @ [(e, x)]) @ ms)"
    and "\<forall>(t, m)\<in>set rs. \<not> io_is_exit m \<and> io_form tx t m" and "io_is_exit x" and "io_form tx e x"
  shows "(\<exists>st' w' out S'. io_server_loop st w = Some (st', w') \<and> replies (trace w') = replies (trace w) @ out \<and>
      io_rep tx st' S' \<and> io_carried tx S rs out S') \<or>
    (\<exists>rs1 t m rs2 st1 w1 out S1. rs = rs1 @ (t, m) # rs2 \<and> io_server_loop st w = io_server_loop st1 w1 \<and>
      sys w1 = sys w \<and> replies (trace w1) = replies (trace w) @ out \<and> io_rep tx st1 S1 \<and> io_carried tx S rs1 out S1 \<and>
      io_overflow m S1 \<and> calls_panic (overflow_err m) [EvReceive (ucast t) t (IoMsg m)] (io_server_body st1) w1)"
proof (cases "admissible (io_spec tx) (io_ok tx) S (rs @ [(e, x)])")
  case True
  let ?r = "service_run (io_spec tx) S (rs @ [(e, x)])"
  have "\<forall>(t, m)\<in>set rs. \<not> io_is_exit m" using assms(5) by auto
  from io_service.loop_run [OF assms(1,3,4) this assms(6) True] obtain st' w' where
    "io_server_loop st w = Some (st', w')" "io_rep tx st' (fst ?r)" "advances w (Suc (length rs)) (snd ?r) w'"
    by auto
  moreover have "written x = []" "typed x = []" using assms(6) by (simp_all add: written_def typed_def io_type_defs)
  then have "io_carried tx S rs (snd ?r) (fst ?r)"
    using io_run_carried [OF assms(2) True] by (simp add: io_carried_def)
  ultimately show ?thesis by (intro disjI1 exI) (auto simp: advances_def)
next
  case False
  from first_inadmissible [OF this] obtain rs1 t m rs2 where split: "rs @ [(e, x)] = rs1 @ (t, m) # rs2"
    and adm: "admissible (io_spec tx) (io_ok tx) S rs1"
    and bad: "\<not> io_ok tx t m (fst (service_run (io_spec tx) S rs1))"
    by blast
  let ?S1 = "fst (service_run (io_spec tx) S rs1)"
  have "(t, m) \<noteq> (e, x)" using bad io_ok_exit [OF assms(7,6)] by auto
  then obtain rs3 where rs: "rs = rs1 @ (t, m) # rs3"
    using split by (cases rs2 rule: rev_cases) auto
  then have form: "io_form tx t m" "\<forall>(t, m)\<in>set rs1. \<not> io_is_exit m" using assms(5) by auto
  have over: "io_overflow m ?S1" by (rule io_ok_cases [OF form(1) bad])
  have "pending w (map (apsnd IoMsg) rs1 @ (t, IoMsg m) # map (apsnd IoMsg) (rs3 @ [(e, x)]) @ ms)"
    using assms(4) rs by simp
  from io_service.loop_passes [OF assms(1,3) this form(2) adm] obtain st1 w1 where
    1: "io_server_loop st w = io_server_loop st1 w1" "io_rep tx st1 ?S1"
      "advances w (length rs1) (snd (service_run (io_spec tx) S rs1)) w1" "replies_return w1"
      "pending w1 ((t, IoMsg m) # map (apsnd IoMsg) (rs3 @ [(e, x)]) @ ms)"
    by blast
  have "unat (ism_len m) \<le> 31" "length (ism_data m) = 31"
    using form(1) assms(5) rs by (auto simp: io_form_def)
  from io_overflow_panics_calls [OF 1(2,4) pending_next [OF 1(5)] this(2,1) over]
  have "calls_panic (overflow_err m) [EvReceive (ucast t) t (IoMsg m)] (io_server_body st1) w1" .
  moreover have "io_carried tx S rs1 (snd (service_run (io_spec tx) S rs1)) ?S1"
    by (rule io_run_carried [OF assms(2) adm])
  ultimately show ?thesis
    using rs 1(1-3) over by (intro disjI2 exI) (auto simp: advances_def)
qed

lemma io_blank_rep: "io_rep 0 io_blank io_start" "io_inv 0 io_start"
  by (simp_all add: io_rep_def io_blank_def io_start_def rb_rep_init io_inv_def)
    (simp_all add: ringbuffer_init_def)

text \<open>In the example run nothing overflows: where the environment stops at a panic, the loop would not return.\<close>

theorem io_bytes_in_order_witness:
  "\<exists>st' w' S'. io_server_loop io_blank (scripted (map (apsnd IoMsg) (io_script @ [(5, io_req 0 [])]) @ [])) = Some (st', w') \<and>
    bytes_to (\<lambda>t. t = 0) (replies (trace w')) @ si_out S' = [72, 105] \<and>
    bytes_to (\<lambda>t. t \<noteq> 0) (replies (trace w')) @ si_in S' = [33] \<and> io_rep 0 st' S'"
proof -
  let ?w = "scripted (map (apsnd IoMsg) (io_script @ [(5, io_req 0 [])]) @ [])"
  have types: "\<forall>(t, m)\<in>set io_script. \<not> io_is_exit m" "io_is_exit (io_req 0 [])"
    by (simp_all add: io_script_def io_req_def io_type_defs)
  have form: "\<forall>(t, m)\<in>set io_script. \<not> io_is_exit m \<and> io_form 0 t m" "io_form 0 5 (io_req 0 [])"
    by (simp_all add: io_script_def io_req_def io_type_defs io_form_def)
  have bytes: "concat (map (written \<circ> snd) io_script) = [72, 105]" "concat (map (typed \<circ> snd) io_script) = [33]"
    by (simp_all add: io_script_def written_def typed_def io_eval)
  obtain st' w' where run: "io_server_loop io_blank ?w = Some (st', w')"
    using io_service.loop_run [OF io_blank_rep(1) scripted_replies scripted_pending types io_script_ok] by blast
  have none: "io_server_loop st1 w1 = None" if "sys w1 = sys ?w" "calls_panic err es (io_server_body st1) w1" for st1 w1 err es
  proof -
    have "panics_stop w1" using that(1) scripted_stops [of "map (apsnd IoMsg) (io_script @ [(5, io_req 0 [])]) @ []"]
      by (simp add: panics_stop_def)
    then have "io_server_body st1 w1 = None" by (rule calls_panic_stops [OF that(2)])
    then show ?thesis by (subst io_server_loop.simps) simp
  qed
  from io_bytes_in_order [where ms = "[]", OF io_blank_rep scripted_replies scripted_pending form(1) types(2) form(2)] show ?thesis
  proof (elim disjE exE conjE)
    fix a b out and S' :: io_service_state
    assume "io_server_loop io_blank ?w = Some (a, b)" "replies (trace b) = replies (trace ?w) @ out" "io_rep 0 a S'"
      "io_carried 0 io_start io_script out S'"
    with bytes show ?thesis
      by (intro exI [of _ a] exI [of _ b] exI [of _ S']) (simp add: io_carried_def io_start_def)
  next
    fix st1 w1 m t
    assume "io_server_loop io_blank ?w = io_server_loop st1 w1" "sys w1 = sys ?w"
      "calls_panic (overflow_err m) [EvReceive (ucast t) t (IoMsg m)] (io_server_body st1) w1"
    with none [of w1] run show ?thesis by simp
  qed
qed

subsection \<open>The transmit notifier\<close>

text \<open>What the notifier does apart from its replies to the clear-to-send notifier.\<close>

definition device_events :: "event list \<Rightarrow> event list" where
  "device_events es = filter (\<lambda>e. case e of EvReply t m r \<Rightarrow> False | _ \<Rightarrow> True) es"

text \<open>One byte: wait for the device, on COM1 also for the clear-to-send notifier, then write it.\<close>

definition sends_byte :: "bool \<Rightarrow> u32 \<Rightarrow> u32 \<Rightarrow> i32 \<Rightarrow> u8 \<Rightarrow> u8 \<Rightarrow> event list" where
  "sends_byte com1 uart ev v cts c =
     EvAwait ev v # (if com1 then [EvReceive (ucast cts) cts NoMsg] else []) @ [EvRegWrite uart (ucast c)]"

lemma device_events_append [simp]: "device_events (es @ fs) = device_events es @ device_events fs"
  by (simp add: device_events_def)

lemma byte_mask: "0xFF AND (ucast (c :: u8) :: u32) = ucast c"
proof -
  have "(0xFF :: u32) = mask 8" by (simp add: mask_eq_exp_minus_1)
  then have "0xFF AND (ucast c :: u32) = take_bit 8 (ucast c)" by (simp only: take_bit_eq_mask and.commute)
  also have "\<dots> = ucast c" by (rule bit_word_eqI) (auto simp: bit_take_bit_iff bit_ucast_iff dest: bit_imp_le_length)
  finally show ?thesis .
qed

text \<open>
  C32: The transmit notifier writes the bytes that the I/O server gives it to the data register of the
  UART, all of them and in order, and before each of them it waits for the device to be ready, and
  on COM1 for the message of the clear-to-send notifier.
\<close>

theorem transmit_writes_payload:
  assumes "\<forall>h. sys w (CAwait ev) h = Some \<lparr>o_ret = v, o_from = f, o_data = d\<rparr>" and "0 \<le> sint v"
    and "com1 \<longrightarrow> (\<forall>h. sys w CReceive h = Some \<lparr>o_ret = 0, o_from = cts, o_data = NoMsg\<rparr>)"
    and "replies_return w" and "i + n \<le> length data"
  shows "\<exists>cts' w'. transmit com1 uart ev data i n cts0 w = Some (cts', w') \<and>
    device_events (trace w') = device_events (trace w) @ concat (map (sends_byte com1 uart ev v cts) (take n (drop i data)))"
  using assms
proof (induction n arbitrary: i cts0 w)
  case 0
  then show ?case by simp
next
  case (Suc n)
  let ?c = "data ! i"
  let ?wa = "did (EvAwait ev v) w"
  have await: "AwaitEvent ev w = Some (v, ?wa)" using Suc.prems(1) by (simp add: AwaitEvent_def)
  obtain cts1 w1 where w1: "(if com1 then do {
        (_, cts_tid, _, w) \<leftarrow> Receive cts0 NoMsg ?wa; (_, w) \<leftarrow> Reply cts_tid NoMsg w; Some (cts_tid, w)
      } else Some (cts0, ?wa)) = Some (cts1, w1)" "sys w1 = sys w"
      "device_events (trace w1) = device_events (trace w) @ EvAwait ev v # (if com1 then [EvReceive (ucast cts) cts NoMsg] else [])"
  proof (cases com1)
    case True
    let ?wr = "did (EvReceive (ucast cts) cts NoMsg) ?wa"
    have "Receive cts0 NoMsg ?wa = Some (ucast cts, cts, NoMsg, ?wr)" using True Suc.prems(3) by (simp add: Receive_def)
    moreover obtain r where "Reply cts NoMsg ?wr = Some (r, did (EvReply cts NoMsg r) ?wr)"
      using Suc.prems(4) Reply_returns [of ?wr cts NoMsg] by auto
    ultimately show ?thesis using True by (intro that [of cts "did (EvReply cts NoMsg r) ?wr"]) (simp_all add: device_events_def)
  next
    case False
    then show ?thesis by (intro that [of cts0 ?wa]) (simp_all add: device_events_def)
  qed
  let ?w2 = "reg_store (uart + 4 * UART_DATA_OFFSET) (0xFF AND ucast ?c) w1"
  have i: "i < length data" using Suc.prems(5) by simp
  have "transmit com1 uart ev data i (Suc n) cts0 w = transmit com1 uart ev data (Suc i) n cts1 ?w2"
    using await w1(1) Suc.prems(2) i by simp
  moreover have "\<exists>cts' w'. transmit com1 uart ev data (Suc i) n cts1 ?w2 = Some (cts', w') \<and>
      device_events (trace w') = device_events (trace ?w2) @ concat (map (sends_byte com1 uart ev v cts) (take n (drop (Suc i) data)))"
    using Suc.prems w1(2) by (intro Suc.IH) (auto simp: reg_store_def replies_return_def)
  moreover have "device_events (trace ?w2) = device_events (trace w) @ sends_byte com1 uart ev v cts ?c"
    using w1(3) by (simp add: reg_store_def device_events_def sends_byte_def UART_DATA_OFFSET_def byte_mask)
  moreover have "take (Suc n) (drop i data) = ?c # take n (drop (Suc i) data)"
    using i by (simp add: Cons_nth_drop_Suc [symmetric])
  ultimately show ?case by auto
qed

theorem transmit_writes_payload_witness:
  "\<exists>cts' w'. transmit False UART2_BASE SYS_CALL_EVENT_UART2_TX [72, 105, 0] 0 2 0 (answering NoMsg) = Some (cts', w') \<and>
    device_events (trace w') = [EvAwait SYS_CALL_EVENT_UART2_TX 0, EvRegWrite UART2_BASE 72,
      EvAwait SYS_CALL_EVENT_UART2_TX 0, EvRegWrite UART2_BASE 105]"
  using transmit_writes_payload [of "answering NoMsg" SYS_CALL_EVENT_UART2_TX 0 0 NoMsg False 0 0 2 "[72, 105, 0]" UART2_BASE 0]
  by (simp add: answering_def replies_return_def sends_byte_def device_events_def)

subsection \<open>Clients\<close>

text \<open>
  C34: \<open>Putstr\<close> sends the I/O server one write request with the first 31 bytes of the string, or all of it when
  it is shorter, and returns 0 when the message was delivered; the rest of a longer string is dropped
  without a sign. The request is one that the server accepts.
\<close>

theorem putstr_sends_prefix:
  assumes "\<forall>m h. sys w (CSend (ucast tid) m) h = Some \<lparr>o_ret = 0, o_from = f, o_data = IoMsg rep\<rparr>"
    and "unat len \<le> length str" and "length garbage = 31"
  shows "\<exists>msg w'. Putstr garbage tid uart str len w = Some (0, w') \<and>
    trace w' = trace w @ [EvSend (ucast tid) (IoMsg msg) 0 (Some (IoMsg rep))] \<and>
    written msg = take (min 31 (unat len)) str \<and> length (ism_data msg) = 31"
proof -
  let ?n = "if len < 31 then len else 31"
  let ?msg = "\<lparr>ism_type = IO_SERVER_MSG_TYPE_CLIENT_WRITE, ism_data = take (unat ?n) str @ drop (unat ?n) garbage, ism_len = ?n\<rparr>"
  have n: "unat ?n = min 31 (unat len)" by (auto simp: word_less_nat_alt)
  then have "unat ?n \<le> length str" "unat ?n \<le> 31" using assms(2) by auto
  moreover from this have "Putstr garbage tid uart str len w =
      Some (0, did (EvSend (ucast tid) (IoMsg ?msg) 0 (Some (IoMsg rep))) w)"
    using assms(1) by (cases "len < 31") (simp_all add: Putstr_def Send_def IO_SERVER_MSG_MAX_DATA_LEN_def Let_def)
  moreover have "written ?msg = take (min 31 (unat len)) str"
    using n \<open>unat ?n \<le> length str\<close> by (simp add: written_def payload_def)
  ultimately show ?thesis
    using assms(3) by (intro exI [of _ ?msg] exI [of _ "did (EvSend (ucast tid) (IoMsg ?msg) 0 (Some (IoMsg rep))) w"]) simp
qed

theorem putstr_sends_prefix_witness:
  "\<exists>msg w'. Putstr (replicate 31 0) 4 1 (replicate 40 65) 40 (answering (IoMsg (io_req 2 []))) = Some (0, w') \<and>
    trace w' = [EvSend 4 (IoMsg msg) 0 (Some (IoMsg (io_req 2 [])))] \<and> written msg = replicate 31 65"
  using putstr_sends_prefix [of "answering (IoMsg (io_req 2 []))" 4 0 "io_req 2 []" 40 "replicate 40 65" "replicate 31 0" 1]
  by (auto simp: answering_def)

end
