(* ===== verification/ContextSwitch.thy ===== *)
theory ContextSwitch
  imports Machine
begin

text \<open>
  The context switch of \<^verbatim>\<open>src/main.c\<close>: the assembly of \<^verbatim>\<open>activate\<close>, which leaves the kernel for a
  task and comes back at \<open>kernel_entry\<close> after a software interrupt, or at \<open>irq_entry\<close> after a hardware
  interrupt. The instructions that occur there are a datatype, with their effect on an ARM processor with
  registers banked by mode (user and system share a bank, supervisor and interrupt have their own); the
  assembly is the lists of instructions below, in the order of the source. So is the assembly of \<^verbatim>\<open>init\<close> that
  sets up the stack of the interrupt mode.
  The compiler's choice of registers is the one that the source fixes: r0 to r4.
\<close>

subsection \<open>The processor\<close>

datatype bank = Usr | Svc | Irq

record cpu =
  gpr :: "nat \<Rightarrow> u32"          \<comment> \<open>r0 to r12\<close>
  sp_of :: "bank \<Rightarrow> u32"
  lr_of :: "bank \<Rightarrow> u32"
  spsr_of :: "bank \<Rightarrow> u32"
  cpsr :: u32
  pc :: u32
  ram :: "u32 \<Rightarrow> u8"

definition mode_bank :: "u32 \<Rightarrow> bank" where
  "mode_bank c = (if c AND 0x1F = 0x13 then Svc else if c AND 0x1F = 0x12 then Irq else Usr)"

abbreviation bank_of :: "cpu \<Rightarrow> bank" where
  "bank_of s \<equiv> mode_bank (cpsr s)"

text \<open>Register 13 is the stack pointer and 14 the link register of the current mode.\<close>

definition get_reg :: "nat \<Rightarrow> cpu \<Rightarrow> u32" where
  "get_reg r s = (if r = 13 then sp_of s (bank_of s) else if r = 14 then lr_of s (bank_of s) else gpr s r)"

definition set_reg :: "nat \<Rightarrow> u32 \<Rightarrow> cpu \<Rightarrow> cpu" where
  "set_reg r v s =
     (if r = 13 then s\<lparr>sp_of := (sp_of s)(bank_of s := v)\<rparr>
      else if r = 14 then s\<lparr>lr_of := (lr_of s)(bank_of s := v)\<rparr>
      else s\<lparr>gpr := (gpr s)(r := v)\<rparr>)"

text \<open>Consecutive words in memory.\<close>

fun store_words :: "(u32 \<Rightarrow> u8) \<Rightarrow> u32 \<Rightarrow> u32 list \<Rightarrow> (u32 \<Rightarrow> u8)" where
  "store_words m a [] = m"
| "store_words m a (v # vs) = store_words (store32 m a v) (a + 4) vs"

fun load_words :: "(u32 \<Rightarrow> u8) \<Rightarrow> u32 \<Rightarrow> nat \<Rightarrow> u32 list" where
  "load_words m a 0 = []"
| "load_words m a (Suc n) = load32 m a # load_words m (a + 4) n"

subsection \<open>Instructions\<close>

datatype instr =
    STMFD nat "nat list"          \<comment> \<open>\<^verbatim>\<open>stmfd rn!, {...}\<close>\<close>
  | LDMFD nat bool "nat list"     \<comment> \<open>\<^verbatim>\<open>ldmfd rn!, {...}\<close>, and without write-back\<close>
  | MSR_SPSR nat | MSR_CPSR nat | MRS_CPSR nat | MRS_SPSR nat
  | MOV nat nat | MOVI nat u32
  | ORR nat nat u32 | BIC nat nat u32 | SUB nat nat u32
  | STR_OFF nat nat u32               \<comment> \<open>\<^verbatim>\<open>str rd, [rn, #off]\<close>\<close>
  | STR_PRE nat nat u32           \<comment> \<open>\<^verbatim>\<open>str rd, [rn, #off]!\<close>\<close>
  | LDR_OFF nat nat u32               \<comment> \<open>\<^verbatim>\<open>ldr rd, [rn, #off]\<close>\<close>
  | LDR_POST nat nat u32          \<comment> \<open>\<^verbatim>\<open>ldr rd, [rn], #off\<close>\<close>
  | MOVS_PC_LR

fun exec1 :: "instr \<Rightarrow> cpu \<Rightarrow> cpu" where
  "exec1 (STMFD rn rs) s =
     (let a = get_reg rn s - 4 * of_nat (length rs)
      in set_reg rn a (s\<lparr>ram := store_words (ram s) a (map (\<lambda>r. get_reg r s) rs)\<rparr>))"
| "exec1 (LDMFD rn wb rs) s =
     (let a = get_reg rn s;
          s' = (if wb then set_reg rn (a + 4 * of_nat (length rs)) s else s)
      in fold (\<lambda>(r, v). set_reg r v) (zip rs (load_words (ram s) a (length rs))) s')"
| "exec1 (MSR_SPSR r) s = s\<lparr>spsr_of := (spsr_of s)(bank_of s := get_reg r s)\<rparr>"
| "exec1 (MSR_CPSR r) s = s\<lparr>cpsr := get_reg r s\<rparr>"
| "exec1 (MRS_CPSR r) s = set_reg r (cpsr s) s"
| "exec1 (MRS_SPSR r) s = set_reg r (spsr_of s (bank_of s)) s"
| "exec1 (MOV d r) s = set_reg d (get_reg r s) s"
| "exec1 (MOVI d v) s = set_reg d v s"
| "exec1 (ORR d r v) s = set_reg d (get_reg r s OR v) s"
| "exec1 (BIC d r v) s = set_reg d (get_reg r s AND NOT v) s"
| "exec1 (SUB d r v) s = set_reg d (get_reg r s - v) s"
| "exec1 (STR_OFF d r off) s = s\<lparr>ram := store32 (ram s) (get_reg r s + off) (get_reg d s)\<rparr>"
| "exec1 (STR_PRE d r off) s =
     (let a = get_reg r s + off in set_reg r a (s\<lparr>ram := store32 (ram s) a (get_reg d s)\<rparr>))"
| "exec1 (LDR_OFF d r off) s = set_reg d (load32 (ram s) (get_reg r s + off)) s"
| "exec1 (LDR_POST d r off) s =
     (let a = get_reg r s in set_reg d (load32 (ram s) a) (set_reg r (a + off) s))"
| "exec1 MOVS_PC_LR s = s\<lparr>pc := lr_of s (bank_of s), cpsr := spsr_of s (bank_of s)\<rparr>"

definition exec :: "instr list \<Rightarrow> cpu \<Rightarrow> cpu" where
  "exec is s = fold exec1 is s"

subsection \<open>The assembly of \<open>activate\<close>\<close>

definition exit_code :: "instr list" where
  "exit_code = [
     STMFD 13 [4, 5, 6, 7, 8, 9, 10, 11, 12, 14],
     MSR_SPSR 1,
     MOV 14 3,
     MRS_CPSR 1,
     ORR 1 1 0x1F,
     MSR_CPSR 1,
     BIC 1 1 0xC,
     MOV 13 0,
     MOVI 0 0,
     STR_OFF 0 4 0,
     SUB 0 4 4,
     LDMFD 13 True [2, 3],
     STMFD 0 [2, 3],
     LDMFD 13 True [2, 3, 4, 5, 6, 7, 8, 9, 10, 11, 12, 14],
     MSR_CPSR 1,
     LDMFD 0 False [0, 1],
     MOVS_PC_LR]"

definition irq_entry_code :: "instr list" where
  "irq_entry_code = [
     SUB 14 14 4,
     STR_OFF 14 13 0,
     MRS_SPSR 14,
     STR_OFF 14 13 (- 4),
     MRS_CPSR 14,
     ORR 14 14 0x1,
     MSR_CPSR 14]"

definition save_code :: "instr list" where
  "save_code = [
     STR_PRE 14 13 (- 4),
     MRS_CPSR 14,
     ORR 14 14 0x1F,
     MSR_CPSR 14,
     STMFD 13 [0, 1, 2, 3, 4, 5, 6, 7, 8, 9, 10, 11, 12, 14],
     MOV 0 13,
     MRS_CPSR 1,
     BIC 1 1 0xC,
     MSR_CPSR 1,
     LDR_POST 14 13 4,
     LDMFD 13 True [4, 5, 6, 7, 8, 9, 10, 11, 12],
     LDR_OFF 3 4 0]"

definition swi_code :: "instr list" where
  "swi_code = [MRS_SPSR 1, LDR_OFF 2 14 (- 4), BIC 2 2 0xFF000000, MOV 3 14]"

text \<open>The comparison of r3 with 0 sets only condition flags, which the branch after it reads and nothing else.\<close>

definition kernel_entry :: "cpu \<Rightarrow> cpu" where
  "kernel_entry s =
     (let s = exec save_code s;
          s = (if get_reg 3 s = 0 then exec swi_code s else exec [LDR_OFF 1 4 (- 4)] s)
      in exec [LDR_POST 14 13 4] s)"

definition irq_entry :: "cpu \<Rightarrow> cpu" where
  "irq_entry s = kernel_entry (exec irq_entry_code s)"

text \<open>
  The assembly of \<^verbatim>\<open>init\<close> that sets the stack pointer of the interrupt mode; \<open>rm\<close> is the register in which
  the compiler has put the address.
\<close>

definition irq_stack_setup :: "nat \<Rightarrow> instr list" where
  "irq_stack_setup rm = [
     MRS_CPSR 0,
     BIC 0 0 0x1F,
     ORR 0 0 0x12,
     MSR_CPSR 0,
     MOV 13 rm,
     BIC 0 0 0x1F,
     ORR 0 0 0x13,
     MSR_CPSR 0]"

text \<open>The part of \<open>activate\<close> before and after the task runs; the task's descriptor keeps these three.\<close>

record task_regs =
  tr_sp :: u32
  tr_spsr :: u32
  tr_svc_lr :: u32

definition activate_exit :: "u32 \<Rightarrow> task_regs \<Rightarrow> cpu \<Rightarrow> cpu" where
  "activate_exit irq_stack td s =
     exec exit_code (s\<lparr>gpr := (gpr s)(0 := tr_sp td, 1 := tr_spsr td, 3 := tr_svc_lr td, 4 := irq_stack)\<rparr>)"

definition activate_return :: "cpu \<Rightarrow> task_regs \<times> u32" where
  "activate_return s =
     (\<lparr>tr_sp = get_reg 0 s, tr_spsr = get_reg 1 s, tr_svc_lr = get_reg 3 s\<rparr>, get_reg 2 s)"

subsection \<open>Exceptions\<close>

text \<open>
  What the processor does on a software interrupt at \<open>pc\<close>, and on an interrupt before the instruction at
  \<open>pc\<close>; interrupts are then masked. The exception vectors lead to the two entry points.
\<close>

definition take_swi :: "cpu \<Rightarrow> cpu" where
  "take_swi s = s\<lparr>lr_of := (lr_of s)(Svc := pc s + 4), spsr_of := (spsr_of s)(Svc := cpsr s),
     cpsr := (cpsr s AND NOT 0x1F) OR 0x93\<rparr>"

definition take_irq :: "cpu \<Rightarrow> cpu" where
  "take_irq s = s\<lparr>lr_of := (lr_of s)(Irq := pc s + 4), spsr_of := (spsr_of s)(Irq := cpsr s),
     cpsr := (cpsr s AND NOT 0x1F) OR 0x92\<rparr>"

subsection \<open>Words in memory\<close>

abbreviation aligned :: "u32 \<Rightarrow> bool" where
  "aligned a \<equiv> 4 dvd a"

lemma aligned_unat: "aligned a \<Longrightarrow> 4 dvd unat a"
proof -
  assume "aligned a"
  then obtain k where "a = 4 * k" by (rule dvdE)
  then have "unat a = (4 * unat k) mod 2 ^ 32" by (simp add: unat_word_ariths)
  then show ?thesis by (simp add: dvd_mod)
qed

lemma aligned_numeral: "aligned 4" "aligned 8" "aligned 12" "aligned 40" "aligned 56"
  using dvd_triv_left [of "4 :: u32" 2] dvd_triv_left [of "4 :: u32" 3] dvd_triv_left [of "4 :: u32" 10]
    dvd_triv_left [of "4 :: u32" 14] by simp_all

lemma aligned_disjoint:
  assumes "aligned a" "aligned b" "a \<noteq> b"
  shows "addr_range a 4 \<inter> addr_range b 4 = {}"
proof -
  have off: "unat (x + of_nat i) = unat x + i" if "aligned x" "i < 4" for x :: u32 and i
  proof -
    have "unat x \<le> 2 ^ 32 - 4"
      using aligned_unat [OF that(1)] unsigned_less [of x, where ?'a = nat] by (auto elim!: dvdE)
    then have "unat x + i < 2 ^ 32" using that(2) by simp
    then show ?thesis using that(2) by (simp add: unat_word_ariths unsigned_of_nat take_bit_nat_eq_self)
  qed
  have "a + of_nat i \<noteq> b + of_nat j" if "i < 4" "j < 4" for i j
  proof
    assume "a + of_nat i = b + of_nat j"
    then have "unat a + i = unat b + j" using off [OF assms(1) that(1)] off [OF assms(2) that(2)] by simp
    then have "unat a = unat b"
      using aligned_unat [OF assms(1)] aligned_unat [OF assms(2)] that by (auto elim!: dvdE)
    then show False using assms(3) by (simp add: unsigned_word_eqI)
  qed
  then show ?thesis by (auto simp: addr_range_def)
qed

lemma load32_store32_aligned:
  "aligned a \<Longrightarrow> aligned b \<Longrightarrow> a \<noteq> b \<Longrightarrow> load32 (store32 m a v) b = load32 m b"
  using aligned_disjoint [of b a] by (intro load32_store32_outside) auto

definition word_addrs :: "u32 \<Rightarrow> nat \<Rightarrow> u32 set" where
  "word_addrs a n = (\<lambda>i. a + 4 * of_nat i) ` {..<n}"

lemma word_addrs_0 [simp]: "word_addrs a 0 = {}"
  by (simp add: word_addrs_def)

lemma word_addrs_Suc: "word_addrs a (Suc n) = insert a (word_addrs (a + 4) n)"
proof -
  have "{..<Suc n} = insert 0 (Suc ` {..<n})" by (auto simp: image_iff less_Suc_eq_0_disj)
  then show ?thesis by (simp add: word_addrs_def image_image algebra_simps)
qed

lemma word_addrs_next: "n < 2 ^ 30 \<Longrightarrow> a \<notin> word_addrs (a + 4) n"
proof
  assume n: "n < 2 ^ 30" and "a \<in> word_addrs (a + 4) n"
  then obtain i where i: "i < n" "4 + 4 * of_nat i = (0 :: u32)"
    by (auto simp: word_addrs_def add.assoc)
  then have "(of_nat (4 + 4 * i) :: u32) = of_nat 0" by simp
  then show False using i(1) n by (subst (asm) of_nat_u32_inj) simp_all
qed

lemma load32_store_words_other:
  "aligned a \<Longrightarrow> aligned b \<Longrightarrow> b \<notin> word_addrs a (length vs) \<Longrightarrow> load32 (store_words m a vs) b = load32 m b"
  by (induction vs arbitrary: m a) (auto simp: word_addrs_Suc load32_store32_aligned aligned_numeral)

lemma load_words_cong:
  "(\<And>x. x \<in> word_addrs a n \<Longrightarrow> load32 m x = load32 m' x) \<Longrightarrow> load_words m a n = load_words m' a n"
  by (induction n arbitrary: a) (simp_all add: word_addrs_Suc)

lemma word_addrs_aligned: "aligned a \<Longrightarrow> x \<in> word_addrs a n \<Longrightarrow> aligned x"
  by (auto simp: word_addrs_def)

lemma load_words_store_words:
  "aligned a \<Longrightarrow> length vs < 2 ^ 30 \<Longrightarrow> load_words (store_words m a vs) a (length vs) = vs"
proof (induction vs arbitrary: m a)
  case (Cons v vs)
  have "load32 (store_words (store32 m a v) (a + 4) vs) a = v"
    using Cons.prems word_addrs_next [of "length vs" a]
    by (subst load32_store_words_other) (auto simp: aligned_numeral)
  with Cons show ?case by (simp add: aligned_numeral)
qed simp

lemma load_words_store_words_other:
  "aligned a \<Longrightarrow> aligned b \<Longrightarrow> word_addrs a (length vs) \<inter> word_addrs b n = {} \<Longrightarrow>
     load_words (store_words m a vs) b n = load_words m b n"
  by (intro load_words_cong load32_store_words_other) (auto dest: word_addrs_aligned)

lemma load_words_store32_other:
  "aligned a \<Longrightarrow> aligned b \<Longrightarrow> a \<notin> word_addrs b n \<Longrightarrow> load_words (store32 m a v) b n = load_words m b n"
  by (intro load_words_cong load32_store32_aligned) (auto dest: word_addrs_aligned)

lemma load_words_length [simp]: "length (load_words m a n) = n"
  by (induction n arbitrary: a) simp_all

lemma load_words_split: "load_words m a (i + n) = load_words m a i @ load_words m (a + 4 * of_nat i) n"
  by (induction i arbitrary: a) (simp_all add: algebra_simps)

subsection \<open>Modes\<close>

lemma mode_bank_sys: "mode_bank (c OR 0x1F) = Usr"
proof -
  have "(c OR 0x1F) AND 0x1F = 0x1F" by (rule bit_word_eqI) (auto simp: bit_and_iff bit_or_iff)
  then show ?thesis by (simp add: mode_bank_def)
qed

lemma mask_bits:
  fixes c m k :: u32
  shows "((c OR m) AND NOT k) AND m = NOT k AND m" and "(c AND NOT m OR k) AND m = k AND m"
  by (rule bit_word_eqI, auto simp: bit_and_iff bit_or_iff bit_not_iff)+

lemma mode_bank_svc: "mode_bank ((c OR 0x1F) AND NOT 0xC) = Svc"
proof -
  have "((c OR 0x1F) AND NOT 0xC) AND 0x1F = 0x13" by (subst mask_bits(1)) simp
  then show ?thesis by (simp add: mode_bank_def)
qed

lemma mode_bank_exceptions: "mode_bank (c AND NOT 0x1F OR 0x93) = Svc" "mode_bank (c AND NOT 0x1F OR 0x92) = Irq"
    "mode_bank ((c AND NOT 0x1F OR 0x92) OR 1) = Svc"
proof -
  have m: "(c AND NOT 0x1F OR v) AND 0x1F = v AND 0x1F" for v by (rule mask_bits(2))
  show "mode_bank (c AND NOT 0x1F OR 0x93) = Svc" "mode_bank (c AND NOT 0x1F OR 0x92) = Irq"
    unfolding mode_bank_def m by simp_all
  have "(c AND NOT 0x1F OR 0x92) OR 1 = c AND NOT 0x1F OR (0x92 OR 1)" by (rule or.assoc)
  then show "mode_bank ((c AND NOT 0x1F OR 0x92) OR 1) = Svc" unfolding mode_bank_def by (simp only: m) simp
qed

subsection \<open>Leaving the kernel\<close>

lemmas asm_simps = exec_def get_reg_def set_reg_def Let_def mode_bank_sys mode_bank_svc mode_bank_svc [simplified]

lemma load_words_numeral [simp]:
  "load_words m a (numeral k) = load32 m a # load_words m (a + 4) (pred_numeral k)"
  by (simp add: numeral_eq_Suc)

text \<open>The registers of a task that are saved on its stack, and those of the kernel on the kernel stack.\<close>

definition task_frame :: "cpu \<Rightarrow> u32 list" where
  "task_frame s = map (gpr s) [0..<13] @ [lr_of s Usr]"

definition kernel_frame :: "cpu \<Rightarrow> u32 list" where
  "kernel_frame s = map (gpr s) [4..<13] @ [lr_of s Svc]"

lemma frame_simps:
  "task_frame s = [gpr s 0, gpr s 1, gpr s 2, gpr s 3, gpr s 4, gpr s 5, gpr s 6, gpr s 7, gpr s 8, gpr s 9,
     gpr s 10, gpr s 11, gpr s 12, lr_of s Usr]"
  "kernel_frame s = [gpr s 4, gpr s 5, gpr s 6, gpr s 7, gpr s 8, gpr s 9, gpr s 10, gpr s 11, gpr s 12, lr_of s Svc]"
  by (simp_all add: task_frame_def kernel_frame_def upt_rec numeral_eq_Suc)

text \<open>The three memory areas a switch touches do not overlap and are aligned to words.\<close>

definition areas_ok :: "u32 \<Rightarrow> u32 \<Rightarrow> u32 \<Rightarrow> bool" where
  "areas_ok frame kstack irq \<longleftrightarrow> aligned frame \<and> aligned kstack \<and> aligned irq \<and>
     word_addrs frame 14 \<inter> word_addrs kstack 11 = {} \<and> word_addrs frame 14 \<inter> word_addrs (irq - 12) 4 = {} \<and>
     word_addrs kstack 11 \<inter> word_addrs (irq - 12) 4 = {}"

lemma exit_code_run:
  assumes "bank_of s = Svc"
  defines "s' \<equiv> exec exit_code s" and "k \<equiv> sp_of s Svc - 40"
  defines "m1 \<equiv> store_words (ram s) k (kernel_frame s)"
  defines "m2 \<equiv> store32 m1 (gpr s 4) 0"
  defines "m3 \<equiv> store_words m2 (gpr s 4 - 12) (load_words m2 (gpr s 0) 2)"
  shows "ram s' = m3" "task_frame s' = load_words m3 (gpr s 4 - 12) 2 @ load_words m3 (gpr s 0 + 8) 12"
    "sp_of s' = (sp_of s)(Svc := k, Usr := 56 + gpr s 0)" "pc s' = gpr s 3" "cpsr s' = gpr s 1"
  using assms(1)
  by (simp_all add: s'_def k_def m1_def m2_def m3_def exit_code_def asm_simps frame_simps del: store_words.simps)

lemma load_words_14: "load_words m a 14 = load_words m a 2 @ load_words m (a + 8) 12"
  using load_words_split [of m a 2 12] by (simp del: load_words_numeral)

lemma word_addrs_mono: "n \<le> n' \<Longrightarrow> word_addrs a n \<subseteq> word_addrs a n'"
  by (auto simp: word_addrs_def)

lemma word_addrs_shift: "i + n \<le> n' \<Longrightarrow> word_addrs (a + 4 * of_nat i) n \<subseteq> word_addrs a n'"
proof
  fix x assume "i + n \<le> n'" "x \<in> word_addrs (a + 4 * of_nat i) n"
  then obtain j where "j < n" "x = a + 4 * of_nat (i + j)" by (auto simp: word_addrs_def algebra_simps)
  with \<open>i + n \<le> n'\<close> show "x \<in> word_addrs a n'"
    unfolding word_addrs_def by (intro image_eqI [of _ _ "i + j"]) simp_all
qed

lemma areas_okD:
  assumes "areas_ok frame kstack irq"
  shows "aligned frame" "aligned kstack" "aligned irq" "aligned (irq - 12)" "aligned (frame + 8)" "aligned (kstack + 4)"
    "word_addrs (irq - 12) 2 \<inter> word_addrs frame 2 = {}" "word_addrs (irq - 12) 2 \<inter> word_addrs (frame + 8) 12 = {}"
    "irq \<notin> word_addrs frame 14" "irq \<notin> word_addrs kstack 11" "irq - 4 \<notin> word_addrs frame 14" "irq - 4 \<notin> word_addrs kstack 11"
    "irq \<notin> word_addrs (irq - 12) 2" "word_addrs (kstack + 4) 10 \<inter> word_addrs frame 14 = {}"
    "word_addrs (irq - 12) 2 \<inter> word_addrs (kstack + 4) 10 = {}" "irq \<notin> word_addrs (kstack + 4) 10"
    "word_addrs frame 14 \<inter> word_addrs (kstack + 4) 9 = {}" "kstack \<notin> word_addrs frame 14"
    "kstack \<notin> word_addrs (kstack + 4) 9" "word_addrs frame 14 \<inter> word_addrs (kstack + 4) 10 = {}"
proof -
  note a = assms [unfolded areas_ok_def]
  have sub: "word_addrs (irq - 12) 2 \<subseteq> word_addrs (irq - 12) 4" "word_addrs frame 2 \<subseteq> word_addrs frame 14"
    "word_addrs (frame + 8) 12 \<subseteq> word_addrs frame 14" "word_addrs (kstack + 4) 10 \<subseteq> word_addrs kstack 11"
    "word_addrs (kstack + 4) 9 \<subseteq> word_addrs kstack 11" "kstack \<in> word_addrs kstack 11"
    using word_addrs_shift [of 2 12 14 frame] word_addrs_shift [of 1 10 11 kstack] word_addrs_shift [of 1 9 11 kstack]
    by (auto simp: word_addrs_mono) (auto simp: word_addrs_def image_iff intro: bexI [of _ 0])
  have irq: "irq \<in> word_addrs (irq - 12) 4" "irq - 4 \<in> word_addrs (irq - 12) 4"
    by (auto simp: word_addrs_def image_iff intro: bexI [of _ 3] bexI [of _ 2])
  show "aligned frame" "aligned kstack" "aligned irq" "aligned (irq - 12)" "aligned (frame + 8)" "aligned (kstack + 4)"
    using a aligned_numeral by (auto intro: dvd_diff)
  show "word_addrs (irq - 12) 2 \<inter> word_addrs frame 2 = {}" "word_addrs (irq - 12) 2 \<inter> word_addrs (frame + 8) 12 = {}"
    "irq \<notin> word_addrs frame 14" "irq \<notin> word_addrs kstack 11" "irq - 4 \<notin> word_addrs frame 14" "irq - 4 \<notin> word_addrs kstack 11"
    "word_addrs (kstack + 4) 10 \<inter> word_addrs frame 14 = {}"
    "word_addrs (irq - 12) 2 \<inter> word_addrs (kstack + 4) 10 = {}" "irq \<notin> word_addrs (kstack + 4) 10"
    "word_addrs frame 14 \<inter> word_addrs (kstack + 4) 9 = {}" "kstack \<notin> word_addrs frame 14"
    "word_addrs frame 14 \<inter> word_addrs (kstack + 4) 10 = {}"
    using a sub irq by blast+
  show "irq \<notin> word_addrs (irq - 12) 2" by (auto simp: word_addrs_def less_2_cases_iff)
  show "kstack \<notin> word_addrs (kstack + 4) 9" by (rule word_addrs_next) simp
qed

lemma exit_code_spec:
  assumes "bank_of s = Svc" and ok: "areas_ok (gpr s 0) (sp_of s Svc - 44) (gpr s 4)"
  defines "s' \<equiv> exec exit_code s"
  shows "task_frame s' = load_words (ram s) (gpr s 0) 14" "load_words (ram s') (sp_of s Svc - 40) 10 = kernel_frame s"
    "load32 (ram s') (gpr s 4) = 0"
proof -
  let ?fr = "gpr s 0" and ?irq = "gpr s 4" and ?k = "sp_of s Svc - 40"
  define m1 where "m1 = store_words (ram s) ?k (kernel_frame s)"
  define m2 where "m2 = store32 m1 ?irq 0"
  define m3 where "m3 = store_words m2 (?irq - 12) (load_words m2 ?fr 2)"
  note run = exit_code_run [OF assms(1), folded s'_def, folded m1_def, folded m2_def, folded m3_def]
  have k: "sp_of s Svc - 44 + 4 = ?k" by simp
  note d = areas_okD [OF ok, unfolded k]
  have kl: "length (kernel_frame s) = 10" by (simp add: kernel_frame_def)
  have fr2: "load_words m2 ?fr 14 = load_words (ram s) ?fr 14"
    using d kl unfolding m2_def m1_def
    by (subst load_words_store32_other, simp, simp, simp, subst load_words_store_words_other) auto
  have "load_words m3 (?irq - 12) (length (load_words m2 ?fr 2)) = load_words m2 ?fr 2"
    unfolding m3_def using d(4) by (intro load_words_store_words) simp_all
  then have 1: "load_words m3 (?irq - 12) 2 = load_words m2 ?fr 2" by (simp only: load_words_length)
  have 2: "load_words m3 (?fr + 8) 12 = load_words m2 (?fr + 8) 12"
    unfolding m3_def using d by (intro load_words_store_words_other) (simp_all only: load_words_length)
  show "task_frame s' = load_words (ram s) ?fr 14" by (simp only: run(2) 1 2 load_words_14 [symmetric] fr2)
  have "load_words m3 ?k 10 = load_words m2 ?k 10"
    unfolding m3_def using d by (intro load_words_store_words_other) (simp_all only: load_words_length)
  also have "\<dots> = load_words m1 ?k 10"
    unfolding m2_def using d by (intro load_words_store32_other) simp_all
  also have "\<dots> = kernel_frame s"
    unfolding m1_def using d(6) kl load_words_store_words [of ?k "kernel_frame s" "ram s"] by simp
  finally show "load_words (ram s') ?k 10 = kernel_frame s" by (simp only: run(1))
  have "load32 m3 ?irq = load32 m2 ?irq"
    unfolding m3_def using d by (intro load32_store_words_other) (simp_all only: load_words_length not_False_eq_True)
  then show "load32 (ram s') ?irq = 0" by (simp add: run(1) m2_def)
qed

subsection \<open>Entering the kernel\<close>

lemma save_code_run:
  assumes "bank_of s = Svc"
  defines "k \<equiv> sp_of s Svc" and "fr \<equiv> sp_of s Usr - 56"
  defines "m \<equiv> store_words (store32 (ram s) (k - 4) (lr_of s Svc)) fr (task_frame s)"
  shows "exec save_code s = s\<lparr>
    gpr := (gpr s)(0 := fr, 1 := (cpsr s OR 0x1F) AND NOT 0xC, 4 := load32 m k, 5 := load32 m (k + 4),
      6 := load32 m (8 + k), 7 := load32 m (12 + k), 8 := load32 m (16 + k), 9 := load32 m (20 + k),
      10 := load32 m (24 + k), 11 := load32 m (28 + k), 12 := load32 m (32 + k), 3 := load32 m (load32 m k)),
    sp_of := (sp_of s)(Svc := k + 36, Usr := fr), lr_of := (lr_of s)(Svc := load32 m (k - 4)),
    cpsr := (cpsr s OR 0x1F) AND NOT 0xC, ram := m\<rparr>"
  using assms(1)
  by (simp add: k_def fr_def m_def save_code_def asm_simps frame_simps fun_upd_twist [of Svc Usr] del: store_words.simps)

lemma kernel_entry_run:
  assumes "bank_of s = Svc"
  defines "s' \<equiv> kernel_entry s" and "k \<equiv> sp_of s Svc" and "fr \<equiv> sp_of s Usr - 56"
  defines "m \<equiv> store_words (store32 (ram s) (k - 4) (lr_of s Svc)) fr (task_frame s)"
  defines "mark \<equiv> load32 m (load32 m k)"
  shows "ram s' = m" "gpr s' 0 = fr" "kernel_frame s' = load_words m k 10" "sp_of s' Svc = 40 + k" "bank_of s' = Svc"
    "mark = 0 \<Longrightarrow> gpr s' 1 = spsr_of s Svc \<and> gpr s' 3 = load32 m (k - 4) \<and>
       gpr s' 2 = load32 m (load32 m (k - 4) - 4) AND NOT 0xFF000000"
    "mark \<noteq> 0 \<Longrightarrow> gpr s' 1 = load32 m (load32 m k - 4) \<and> gpr s' 3 = mark"
  using save_code_run [OF assms(1), folded k_def fr_def, folded m_def]
  by (simp_all add: s'_def mark_def kernel_entry_def swi_code_def asm_simps frame_simps(2) add.commute [of _ "36 :: u32"])

lemma kernel_entry_spec:
  assumes "bank_of s = Svc" and ok: "areas_ok (sp_of s Usr - 56) (sp_of s Svc - 4) irq"
    and kf: "load_words (ram s) (sp_of s Svc) 10 = kf" "kf ! 0 = irq"
  defines "s' \<equiv> kernel_entry s"
  shows "gpr s' 0 = sp_of s Usr - 56" "load_words (ram s') (sp_of s Usr - 56) 14 = task_frame s" "kernel_frame s' = kf"
    "sp_of s' Svc = 40 + sp_of s Svc" "bank_of s' = Svc"
    "load32 (ram s) irq = 0 \<Longrightarrow> gpr s' 1 = spsr_of s Svc \<and> gpr s' 3 = lr_of s Svc \<and>
       gpr s' 2 = load32 (ram s') (lr_of s Svc - 4) AND NOT 0xFF000000"
    "load32 (ram s) irq \<noteq> 0 \<Longrightarrow> gpr s' 1 = load32 (ram s) (irq - 4) \<and> gpr s' 3 = load32 (ram s) irq"
    "aligned x \<Longrightarrow> x \<notin> word_addrs (sp_of s Usr - 56) 14 \<Longrightarrow> x \<noteq> sp_of s Svc - 4 \<Longrightarrow>
       load32 (ram s') x = load32 (ram s) x"
proof -
  let ?k = "sp_of s Svc" and ?fr = "sp_of s Usr - 56"
  define m where "m = store_words (store32 (ram s) (?k - 4) (lr_of s Svc)) ?fr (task_frame s)"
  note run = kernel_entry_run [OF assms(1), folded s'_def, folded m_def]
  have k: "?k - 4 + 4 = ?k" by simp
  note d = areas_okD [OF ok, unfolded k]
  have len: "length (task_frame s) = 14" by (simp add: task_frame_def)
  have frame: "load_words m ?fr 14 = task_frame s"
    unfolding m_def using d(1) len load_words_store_words [of ?fr "task_frame s" "store32 (ram s) (?k - 4) (lr_of s Svc)"]
    by (simp del: load_words_numeral)
  have same: "load32 m x = load32 (ram s) x" if "aligned x" "x \<notin> word_addrs ?fr 14" "x \<noteq> ?k - 4" for x
    unfolding m_def using d(1,2) that len by (simp add: load32_store_words_other load32_store32_aligned)
  have kern: "load_words m ?k 10 = kf"
  proof -
    have "load_words m ?k 10 = load_words (store32 (ram s) (?k - 4) (lr_of s Svc)) ?k 10"
      unfolding m_def using d(1,6,20) len by (intro load_words_store_words_other) simp_all
    also have "\<dots> = load_words (ram s) ?k 10"
      using d(2,6) word_addrs_next [of 10 "?k - 4"] by (intro load_words_store32_other) simp_all
    finally show ?thesis using kf(1) by simp
  qed
  then have "load32 m ?k = irq" using kf(2) by auto
  moreover have "irq \<noteq> ?k - 4" "irq - 4 \<noteq> ?k - 4"
    using d(10,12) by (auto simp: word_addrs_Suc numeral_eq_Suc)
  moreover have "aligned (irq - 4)" using d(3) aligned_numeral(1) by (rule dvd_diff)
  ultimately have marks: "load32 m (load32 m ?k) = load32 (ram s) irq" "load32 m (load32 m ?k - 4) = load32 (ram s) (irq - 4)"
    using same d(3,9,11) by auto
  have lr: "load32 m (?k - 4) = lr_of s Svc"
    unfolding m_def using d(1,2,18) len by (subst load32_store_words_other) simp_all
  show "gpr s' 0 = ?fr" "sp_of s' Svc = 40 + ?k" "bank_of s' = Svc" by (rule run)+
  show "load_words (ram s') ?fr 14 = task_frame s" by (simp only: run(1) frame)
  show "kernel_frame s' = kf" by (simp only: run(3) kern)
  show "gpr s' 1 = spsr_of s Svc \<and> gpr s' 3 = lr_of s Svc \<and> gpr s' 2 = load32 (ram s') (lr_of s Svc - 4) AND NOT 0xFF000000"
    if "load32 (ram s) irq = 0"
    using run(6) that unfolding marks lr run(1) by simp
  show "gpr s' 1 = load32 (ram s) (irq - 4) \<and> gpr s' 3 = load32 (ram s) irq" if "load32 (ram s) irq \<noteq> 0"
    using run(7) that unfolding marks by simp
  show "load32 (ram s') x = load32 (ram s) x" if "aligned x" "x \<notin> word_addrs ?fr 14" "x \<noteq> ?k - 4"
    using same that by (simp only: run(1))
qed

subsection \<open>Theorems\<close>

lemma take_swi_simps:
  "bank_of (take_swi u) = Svc" "sp_of (take_swi u) = sp_of u" "ram (take_swi u) = ram u" "task_frame (take_swi u) = task_frame u"
  "spsr_of (take_swi u) Svc = cpsr u" "lr_of (take_swi u) Svc = pc u + 4"
  using mode_bank_exceptions(1) [of "cpsr u"] by (simp_all add: take_swi_def frame_simps)

lemma activate_exit_spec:
  assumes "bank_of s = Svc" "areas_ok (tr_sp td) (sp_of s Svc - 44) irq"
  defines "u \<equiv> activate_exit irq td s"
  shows "task_frame u = load_words (ram s) (tr_sp td) 14" "sp_of u Usr = 56 + tr_sp td" "sp_of u Svc = sp_of s Svc - 40"
    "pc u = tr_svc_lr td" "cpsr u = tr_spsr td" "load32 (ram u) irq = 0"
    "load_words (ram u) (sp_of s Svc - 40) 10 = irq # tl (kernel_frame s)" "sp_of u Irq = sp_of s Irq"
proof -
  let ?s = "s\<lparr>gpr := (gpr s)(0 := tr_sp td, 1 := tr_spsr td, 3 := tr_svc_lr td, 4 := irq)\<rparr>"
  have s: "bank_of ?s = Svc" "areas_ok (gpr ?s 0) (sp_of ?s Svc - 44) (gpr ?s 4)" using assms(1,2) by simp_all
  show "task_frame u = load_words (ram s) (tr_sp td) 14" "load32 (ram u) irq = 0"
    using exit_code_spec(1,3) [OF s] by (simp_all add: u_def activate_exit_def del: load_words_numeral)
  show "load_words (ram u) (sp_of s Svc - 40) 10 = irq # tl (kernel_frame s)"
    using exit_code_spec(2) [OF s] by (simp add: u_def activate_exit_def frame_simps del: load_words_numeral)
  show "sp_of u Usr = 56 + tr_sp td" "sp_of u Svc = sp_of s Svc - 40" "pc u = tr_svc_lr td" "cpsr u = tr_spsr td"
    "sp_of u Irq = sp_of s Irq"
    using exit_code_run(3-5) [OF s(1)] by (simp_all add: u_def activate_exit_def)
qed

text \<open>
  C35: A system call is transparent to the task that makes it. A task traps at \<open>pc\<close>; the kernel gets the
  number in the instruction there, and may run whatever it likes, as long as it comes back to \<open>activate\<close> with
  the task's three saved values and with the frame on the task's stack unchanged but for the result in
  its first word. Then the task goes on behind the trap with all its registers, its stack pointer and its
  status as they were, and the result in r0.
\<close>

theorem context_switch_swi:
  assumes "areas_ok (sp_of u Usr - 56) (sp_of u Svc - 4) irq"
    and "load_words (ram u) (sp_of u Svc) 10 = irq # kf" and "load32 (ram u) irq = 0"
    and "aligned (pc u)" and "pc u \<notin> word_addrs (sp_of u Usr - 56) 14" and "pc u \<noteq> sp_of u Svc - 4"
    and "s1 = kernel_entry (take_swi u)" and "activate_return s1 = (td, req)"
    and "bank_of s2 = Svc" and "areas_ok (tr_sp td) (sp_of s2 Svc - 44) irq"
    and "load_words (ram s2) (tr_sp td) 14 = (load_words (ram s1) (tr_sp td) 14)[0 := ret]"
    and "u' = activate_exit irq td s2"
  shows "req = load32 (ram u) (pc u) AND NOT 0xFF000000 \<and> task_frame u' = (task_frame u)[0 := ret] \<and>
    sp_of u' Usr = sp_of u Usr \<and> pc u' = pc u + 4 \<and> cpsr u' = cpsr u"
proof -
  have kf: "(irq # kf) ! 0 = irq" by simp
  note t = take_swi_simps [of u]
  note e = kernel_entry_spec [of "take_swi u", unfolded t, OF refl assms(1,2) kf, folded assms(7)]
  have td: "tr_sp td = sp_of u Usr - 56" "tr_spsr td = cpsr u" "tr_svc_lr td = pc u + 4" "req = gpr s1 2"
    using assms(8) e(1) e(6) [OF assms(3)] by (auto simp: activate_return_def get_reg_def)
  note x = activate_exit_spec [OF assms(9,10), folded assms(12)]
  have "load32 (ram s1) (pc u) = load32 (ram u) (pc u)" by (rule e(8) [OF assms(4-6)])
  then have "req = load32 (ram u) (pc u) AND NOT 0xFF000000" using e(6) [OF assms(3)] td(4) by simp
  moreover have "task_frame u' = (task_frame u)[0 := ret]" by (simp only: x(1) td(1) assms(11) [unfolded td(1)] e(2))
  ultimately show ?thesis using x(2,4,5) td(1-3) by simp
qed

lemma word_addrs_numeral [simp]:
  "word_addrs a (numeral k) = insert a (word_addrs (a + 4) (pred_numeral k))"
  by (simp add: numeral_eq_Suc word_addrs_Suc)

lemma word_addrs_1 [simp]: "word_addrs a (Suc 0) = {a}"
  by (simp add: word_addrs_Suc)

lemma task_frame_nth: "i < 13 \<Longrightarrow> gpr s i = task_frame s ! i"
  by (simp add: task_frame_def nth_append)

text \<open>A task at address 0x100 that makes system call 5, with its stack below 0x2000.\<close>

definition sample_task :: cpu where
  "sample_task = \<lparr>gpr = (\<lambda>r. 16 * of_nat r + 1), sp_of = (\<lambda>b. case b of Usr \<Rightarrow> 0x2000 | Svc \<Rightarrow> 0x1000 | Irq \<Rightarrow> 0x3000),
     lr_of = (\<lambda>_. 0x500), spsr_of = (\<lambda>_. 0), cpsr = 0x50, pc = 0x100,
     ram = store32 (store_words (\<lambda>_. 0) 0x1000 (0x3000 # replicate 9 7)) 0x100 0xEF000005\<rparr>"

lemma sample_aligned: "aligned 0x100" "aligned 0x1000" "aligned 0x3000"
  using dvd_triv_left [of "4 :: u32" "0x40"] dvd_triv_left [of "4 :: u32" "0x400"] dvd_triv_left [of "4 :: u32" "0xC00"]
  by simp_all

lemma sample_areas: "areas_ok 0x1FC8 0xFFC 0x3000"
  using dvd_triv_left [of "4 :: u32" "0x7F2"] dvd_triv_left [of "4 :: u32" "0x3FF"] sample_aligned(3)
  by (simp add: areas_ok_def)

lemma sample_memory:
  "load_words (ram sample_task) 0x1000 10 = 0x3000 # replicate 9 7" "load32 (ram sample_task) 0x3000 = 0"
  "load32 (ram sample_task) 0x100 = 0xEF000005"
proof -
  let ?m = "store_words (\<lambda>_. 0) 0x1000 (0x3000 # replicate 9 7)"
  have "load_words (store32 ?m 0x100 0xEF000005) 0x1000 10 = load_words ?m 0x1000 10"
    using sample_aligned by (intro load_words_store32_other) simp_all
  also have "\<dots> = 0x3000 # replicate 9 7"
    using load_words_store_words [of "0x1000" "0x3000 # replicate 9 7" "\<lambda>_. 0"] sample_aligned by simp
  finally show "load_words (ram sample_task) 0x1000 10 = 0x3000 # replicate 9 7" by (simp add: sample_task_def)
  have "load32 (store32 ?m 0x100 0xEF000005) 0x3000 = load32 ?m 0x3000"
    using sample_aligned by (intro load32_store32_aligned) simp_all
  also have "\<dots> = load32 (\<lambda>_. 0) 0x3000"
    using sample_aligned by (intro load32_store_words_other) simp_all
  finally show "load32 (ram sample_task) 0x3000 = 0" by (simp add: sample_task_def load32_def)
  show "load32 (ram sample_task) 0x100 = 0xEF000005" by (simp add: sample_task_def)
qed

lemma load_words_store32_first:
  "aligned a \<Longrightarrow> n < 2 ^ 30 \<Longrightarrow> load_words (store32 m a v) a (Suc n) = (load_words m a (Suc n))[0 := v]"
  using word_addrs_next [of n a] by (simp add: load_words_store32_other aligned_numeral)

theorem context_switch_swi_witness:
  "\<exists>s1 td s2 u'. s1 = kernel_entry (take_swi sample_task) \<and> activate_return s1 = (td, 5) \<and>
    s2 = s1\<lparr>ram := store32 (ram s1) (tr_sp td) 42\<rparr> \<and> u' = activate_exit 0x3000 td s2 \<and>
    gpr u' 0 = 42 \<and> gpr u' 7 = 113 \<and> sp_of u' Usr = 0x2000 \<and> pc u' = 0x104 \<and> cpsr u' = 0x50"
proof -
  let ?u = sample_task and ?s1 = "kernel_entry (take_swi sample_task)"
  obtain td req where ret: "activate_return ?s1 = (td, req)" by fastforce
  let ?s2 = "?s1\<lparr>ram := store32 (ram ?s1) (tr_sp td) 42\<rparr>"
  have sp: "sp_of ?u Usr = 0x2000" "sp_of ?u Svc = 0x1000" "pc ?u = 0x100" "cpsr ?u = 0x50" by (simp_all add: sample_task_def)
  have areas: "areas_ok (sp_of ?u Usr - 56) (sp_of ?u Svc - 4) 0x3000" using sample_areas by (simp add: sp)
  have kf: "load_words (ram ?u) (sp_of ?u Svc) 10 = 0x3000 # replicate 9 7" using sample_memory(1) by (simp only: sp)
  have "(0x3000 # replicate 9 7) ! 0 = (0x3000 :: u32)" by simp
  note e = kernel_entry_spec [of "take_swi ?u", unfolded take_swi_simps [of ?u], OF refl areas kf this]
  have td: "tr_sp td = 0x1FC8" using ret e(1) by (auto simp: activate_return_def get_reg_def sp)
  have s2: "bank_of ?s2 = Svc" "areas_ok (tr_sp td) (sp_of ?s2 Svc - 44) 0x3000"
    using e(4,5) sample_areas by (simp_all add: td sp)
  have "aligned (tr_sp td)" using sample_areas by (simp add: td areas_ok_def)
  then have fr: "load_words (ram ?s2) (tr_sp td) 14 = (load_words (ram ?s1) (tr_sp td) 14)[0 := 42]"
    using load_words_store32_first [of "tr_sp td" 13 "ram ?s1" 42] by (simp del: load_words_numeral load_words.simps)
  have pc: "aligned (pc ?u)" "pc ?u \<notin> word_addrs (sp_of ?u Usr - 56) 14" "pc ?u \<noteq> sp_of ?u Svc - 4"
    using sample_aligned by (simp_all add: sp)
  note mark = sample_memory(2)
  define u' where "u' = activate_exit 0x3000 td ?s2"
  from context_switch_swi [OF areas kf mark pc refl ret s2 fr u'_def] have
    c: "req = load32 (ram ?u) (pc ?u) AND NOT 0xFF000000" "task_frame u' = (task_frame ?u)[0 := 42]"
      "sp_of u' Usr = sp_of ?u Usr" "pc u' = pc ?u + 4" "cpsr u' = cpsr ?u"
    by blast+
  have "req = 5" using c(1) by (simp only: sp(3) sample_memory(3)) simp
  moreover have "gpr u' 0 = 42" "gpr u' 7 = 113"
    unfolding task_frame_nth [of 0 u', simplified] task_frame_nth [of 7 u', simplified] c(2)
    by (simp_all add: frame_simps) (simp add: sample_task_def)
  moreover have "sp_of u' Usr = 0x2000" "pc u' = 0x104" "cpsr u' = 0x50" using c(3-5) by (simp_all add: sp)
  moreover have "activate_return ?s1 = (td, 5)" using ret \<open>req = 5\<close> by (simp only:)
  ultimately show ?thesis using u'_def by blast
qed

lemma irq_entry_code_run:
  assumes "u0 = take_irq u"
  defines "s \<equiv> exec irq_entry_code u0"
  shows "bank_of s = Svc" "ram s = store32 (store32 (ram u) (sp_of u Irq) (pc u)) (sp_of u Irq - 4) (cpsr u)"
    "sp_of s = sp_of u" "task_frame s = task_frame u"
  using mode_bank_exceptions(2,3) [of "cpsr u", simplified] mode_bank_exceptions(2,3) [of "cpsr u"]
  by (simp_all add: s_def assms(1) take_irq_def irq_entry_code_def exec_def get_reg_def set_reg_def frame_simps)

lemma irq_entry_kernel_stack:
  assumes "areas_ok (sp_of u Usr - 56) (sp_of u Svc - 4) irq" and "sp_of u Irq = irq"
  shows "load_words (ram (exec irq_entry_code (take_irq u))) (sp_of u Svc) 10 = load_words (ram u) (sp_of u Svc) 10"
proof -
  have k: "sp_of u Svc - 4 + 4 = sp_of u Svc" by simp
  note d = areas_okD [OF assms(1), unfolded k]
  have "aligned (irq - 4)" using d(3) aligned_numeral(1) by (rule dvd_diff)
  moreover have "irq - 4 \<notin> word_addrs (sp_of u Svc) 10"
    using d(12) word_addrs_shift [of 1 10 11 "sp_of u Svc - 4"] by auto
  ultimately show ?thesis
    unfolding irq_entry_code_run(2) [OF refl] assms(2) using d(3,6,16)
    by (subst load_words_store32_other, simp_all only:)
      (subst load_words_store32_other, simp_all only: not_False_eq_True)
qed

text \<open>
  What \<open>activate\<close> expects of the interrupt mode is what \<^verbatim>\<open>init\<close> has set up: the stack pointer of that mode
  alone is changed, to the given address, and the processor ends in supervisor mode.
\<close>

lemma irq_stack_setup_spec:
  assumes "0 < rm" "rm < 13"
  shows "sp_of (exec (irq_stack_setup rm) s) = (sp_of s)(Irq := gpr s rm)" "bank_of (exec (irq_stack_setup rm) s) = Svc"
    "lr_of (exec (irq_stack_setup rm) s) = lr_of s" "ram (exec (irq_stack_setup rm) s) = ram s"
    "r \<noteq> 0 \<Longrightarrow> gpr (exec (irq_stack_setup rm) s) r = gpr s r"
proof -
  have m: "mode_bank (c AND NOT 0x1F OR 0x12) = Irq" "mode_bank (c AND NOT 0x1F OR 0x13) = Svc" for c :: u32
    unfolding mode_bank_def mask_bits(2) by simp_all
  show "sp_of (exec (irq_stack_setup rm) s) = (sp_of s)(Irq := gpr s rm)" "bank_of (exec (irq_stack_setup rm) s) = Svc"
    "lr_of (exec (irq_stack_setup rm) s) = lr_of s" "ram (exec (irq_stack_setup rm) s) = ram s"
    "r \<noteq> 0 \<Longrightarrow> gpr (exec (irq_stack_setup rm) s) r = gpr s r"
    using assms m [simplified] m by (simp_all add: irq_stack_setup_def exec_def get_reg_def set_reg_def)
qed

text \<open>
  C36: A hardware interrupt is invisible to the task that it interrupts: when the kernel comes back to
  \<open>activate\<close> with the frame as it was, the task goes on at the interrupted instruction with every
  register, its stack pointer and its status as they were.
\<close>

theorem context_switch_irq:
  assumes "areas_ok (sp_of u Usr - 56) (sp_of u Svc - 4) irq" and "sp_of u Irq = irq"
    and "load_words (ram u) (sp_of u Svc) 10 = irq # kf" and "pc u \<noteq> 0"
    and "s1 = irq_entry (take_irq u)" and "activate_return s1 = (td, req)"
    and "bank_of s2 = Svc" and "areas_ok (tr_sp td) (sp_of s2 Svc - 44) irq"
    and "load_words (ram s2) (tr_sp td) 14 = load_words (ram s1) (tr_sp td) 14"
    and "u' = activate_exit irq td s2"
  shows "task_frame u' = task_frame u \<and> sp_of u' Usr = sp_of u Usr \<and> pc u' = pc u \<and> cpsr u' = cpsr u"
proof -
  let ?s = "exec irq_entry_code (take_irq u)"
  note r = irq_entry_code_run [OF refl, of u, unfolded assms(2)]
  have k: "sp_of u Svc - 4 + 4 = sp_of u Svc" by simp
  note d = areas_okD [OF assms(1), unfolded k]
  have "aligned (irq - 4)" using d(3) aligned_numeral(1) by (rule dvd_diff)
  have kf: "load_words (ram ?s) (sp_of u Svc) 10 = irq # kf"
    by (simp only: irq_entry_kernel_stack [OF assms(1,2)] assms(3))
  have mark: "load32 (ram ?s) irq = pc u" "load32 (ram ?s) (irq - 4) = cpsr u"
    unfolding r(2) using d(3) \<open>aligned (irq - 4)\<close> by (simp_all add: load32_store32_aligned)
  have "(irq # kf) ! 0 = irq" by simp
  from kernel_entry_spec [of ?s, unfolded r(1,3,4), OF refl assms(1) kf this, folded irq_entry_def, folded assms(5)]
  have e: "gpr s1 0 = sp_of u Usr - 56" "load_words (ram s1) (sp_of u Usr - 56) 14 = task_frame u"
    "gpr s1 1 = cpsr u" "gpr s1 3 = pc u"
    using mark assms(4) by simp_all
  then have td: "tr_sp td = sp_of u Usr - 56" "tr_spsr td = cpsr u" "tr_svc_lr td = pc u"
    using assms(6) by (auto simp: activate_return_def get_reg_def)
  note x = activate_exit_spec [OF assms(7,8), folded assms(10)]
  have "task_frame u' = task_frame u" by (simp only: x(1) td(1) assms(9) [unfolded td(1)] e(2))
  then show ?thesis using x(2,4,5) td by simp
qed

theorem context_switch_irq_witness:
  "\<exists>s1 td req u'. s1 = irq_entry (take_irq sample_task) \<and> activate_return s1 = (td, req) \<and>
    u' = activate_exit 0x3000 td s1 \<and> gpr u' 0 = 1 \<and> gpr u' 7 = 113 \<and> sp_of u' Usr = 0x2000 \<and> pc u' = 0x100"
proof -
  let ?u = sample_task and ?s1 = "irq_entry (take_irq sample_task)" and ?s = "exec irq_entry_code (take_irq sample_task)"
  obtain td req where ret: "activate_return ?s1 = (td, req)" by fastforce
  have sp: "sp_of ?u Usr = 0x2000" "sp_of ?u Svc = 0x1000" "sp_of ?u Irq = 0x3000" "pc ?u = 0x100" "cpsr ?u = 0x50"
    by (simp_all add: sample_task_def)
  have areas: "areas_ok (sp_of ?u Usr - 56) (sp_of ?u Svc - 4) 0x3000" using sample_areas by (simp add: sp)
  have kf: "load_words (ram ?u) (sp_of ?u Svc) 10 = 0x3000 # replicate 9 7" using sample_memory(1) by (simp only: sp)
  have pc: "pc ?u \<noteq> 0" by (simp add: sp)
  note r = irq_entry_code_run [OF refl, of ?u]
  have run: "gpr ?s1 0 = sp_of ?s Usr - 56" "sp_of ?s1 Svc = 40 + sp_of ?s Svc" "bank_of ?s1 = Svc"
    using kernel_entry_run(2,4,5) [OF r(1)] by (simp_all add: irq_entry_def)
  have td: "tr_sp td = 0x1FC8" using ret run(1) r(3) by (auto simp: activate_return_def get_reg_def sp)
  have areas2: "areas_ok (tr_sp td) (sp_of ?s1 Svc - 44) 0x3000"
    using run(2) r(3) sample_areas by (simp add: td sp)
  define u' where "u' = activate_exit 0x3000 td ?s1"
  from context_switch_irq [OF areas sp(3) kf pc refl ret run(3) areas2 refl u'_def] have
    c: "task_frame u' = task_frame ?u" "sp_of u' Usr = sp_of ?u Usr" "pc u' = pc ?u"
    by blast+
  have "gpr u' 0 = 1" "gpr u' 7 = 113"
    unfolding task_frame_nth [of 0 u', simplified] task_frame_nth [of 7 u', simplified] c(1)
    by (simp_all add: frame_simps) (simp_all add: sample_task_def)
  moreover have "sp_of u' Usr = 0x2000" "pc u' = 0x100" using c(2,3) by (simp_all add: sp)
  ultimately show ?thesis using ret u'_def by blast
qed

text \<open>
  C37: \<open>activate\<close> keeps its promise to the compiler, whichever way the task comes back: after a system call as
  after a hardware interrupt, if the task has left the kernel's stack pointers and the ten words on the kernel's
  stack alone, the kernel goes on in supervisor mode with its own stack pointer and link register and its
  registers r5 to r12 as they were. r4 holds the address of the interrupt stack, which \<open>activate\<close> itself put
  there before it left the kernel: it is a register variable of \<open>activate\<close>.
\<close>

theorem kernel_registers_survive:
  assumes "bank_of s = Svc" and "areas_ok (tr_sp td) (sp_of s Svc - 44) irq" and "sp_of s Irq = irq"
    and "u = activate_exit irq td s"
    and "sp_of u2 Svc = sp_of u Svc" and "sp_of u2 Irq = sp_of u Irq"
    and "load_words (ram u2) (sp_of u Svc) 10 = load_words (ram u) (sp_of u Svc) 10"
    and "areas_ok (sp_of u2 Usr - 56) (sp_of u2 Svc - 4) irq"
    and "s' = kernel_entry (take_swi u2) \<or> s' = irq_entry (take_irq u2)"
  shows "(\<forall>r. 5 \<le> r \<and> r \<le> 12 \<longrightarrow> gpr s' r = gpr s r) \<and> gpr s' 4 = irq \<and> lr_of s' Svc = lr_of s Svc \<and>
    sp_of s' Svc = sp_of s Svc \<and> bank_of s' = Svc"
proof -
  note x = activate_exit_spec [OF assms(1,2), folded assms(4)]
  have kf: "load_words (ram u2) (sp_of u2 Svc) 10 = irq # tl (kernel_frame s)"
    using assms(5,7) x(3,7) by (simp only:)
  have first: "(irq # tl (kernel_frame s)) ! 0 = irq" by simp
  have sp: "sp_of u2 Irq = irq" using assms(3,6) x(8) by simp
  note swi = kernel_entry_spec [of "take_swi u2", unfolded take_swi_simps [of u2], OF refl assms(8) kf first]
  note r = irq_entry_code_run [OF refl, of u2]
  have kf2: "load_words (ram (exec irq_entry_code (take_irq u2))) (sp_of u2 Svc) 10 = irq # tl (kernel_frame s)"
    by (simp only: irq_entry_kernel_stack [OF assms(8) sp] kf)
  note hw = kernel_entry_spec [of "exec irq_entry_code (take_irq u2)", unfolded r(1,3,4), OF refl assms(8) kf2 first,
      folded irq_entry_def]
  have f: "kernel_frame s' = irq # tl (kernel_frame s)" "sp_of s' Svc = sp_of s Svc" "bank_of s' = Svc"
    using assms(9) swi(3-5) hw(3-5) assms(5) x(3) by auto
  moreover have "gpr s' r = gpr s r" if "5 \<le> r" "r \<le> 12" for r
  proof -
    from that have "r \<in> {5, 6, 7, 8, 9, 10, 11, 12}" by auto
    then show ?thesis using f(1) by (auto simp: frame_simps)
  qed
  ultimately show ?thesis by (simp add: frame_simps)
qed

theorem kernel_registers_survive_witness:
  "\<exists>s u s' s''. s = sample_task\<lparr>cpsr := 0x13, sp_of := (sp_of sample_task)(Svc := 0x1028)\<rparr> \<and>
    u = activate_exit 0x3000 \<lparr>tr_sp = 0x1FC8, tr_spsr = 0x10, tr_svc_lr = 0x100\<rparr> s \<and>
    s' = kernel_entry (take_swi u) \<and> gpr s' 5 = gpr s 5 \<and> lr_of s' Svc = 0x500 \<and> sp_of s' Svc = 0x1028 \<and>
    s'' = irq_entry (take_irq u) \<and> gpr s'' 5 = gpr s 5 \<and> lr_of s'' Svc = 0x500 \<and> sp_of s'' Svc = 0x1028"
proof -
  let ?s = "sample_task\<lparr>cpsr := 0x13, sp_of := (sp_of sample_task)(Svc := 0x1028)\<rparr>"
  let ?td = "\<lparr>tr_sp = 0x1FC8, tr_spsr = 0x10, tr_svc_lr = 0x100\<rparr>"
  let ?u = "activate_exit 0x3000 ?td ?s"
  have s: "bank_of ?s = Svc" "areas_ok (tr_sp ?td) (sp_of ?s Svc - 44) 0x3000" "sp_of ?s Irq = 0x3000"
    using sample_areas by (simp_all add: mode_bank_def sample_task_def)
  from activate_exit_spec(2,3) [OF s(1,2)] have areas: "areas_ok (sp_of ?u Usr - 56) (sp_of ?u Svc - 4) 0x3000"
    using sample_areas by simp
  have kept: "gpr v 5 = gpr ?s 5 \<and> lr_of v Svc = lr_of ?s Svc \<and> sp_of v Svc = sp_of ?s Svc"
    if "v = kernel_entry (take_swi ?u) \<or> v = irq_entry (take_irq ?u)" for v
    using kernel_registers_survive [OF s refl refl refl refl areas that] by simp
  have "lr_of ?s Svc = 0x500" "sp_of ?s Svc = 0x1028" by (simp_all add: sample_task_def)
  with kept [of "kernel_entry (take_swi ?u)"] kept [of "irq_entry (take_irq ?u)"] show ?thesis
    by (intro exI [of _ ?s] exI [of _ ?u] exI [of _ "kernel_entry (take_swi ?u)"] exI [of _ "irq_entry (take_irq ?u)"])
      (simp only: refl simp_thms)
qed

end
