(* ===== verification/SysCall.thy ===== *)
theory SysCall
  imports KernelTheorems
begin

text \<open>
  The user side of the system calls, \<^verbatim>\<open>src/sys_call/sys_call.c\<close>: every function traps with its code. By the
  ARM calling convention its arguments are in r0, r1 and r2 then; \<open>Send\<close>, which has five, puts them into a
  structure in its own stack frame and passes the address. The theorem says that the kernel's
  dispatcher reads them where the functions put them.
\<close>

subsection \<open>Traps\<close>

text \<open>What a task presents to the kernel: the code of the trap, the argument registers and its memory.\<close>

record trap =
  trap_code :: sys_code_t
  trap_r0 :: u32
  trap_r1 :: u32
  trap_r2 :: u32
  trap_mem :: "u32 \<Rightarrow> u8"

definition swi :: "sys_code_t \<Rightarrow> u32 \<Rightarrow> u32 \<Rightarrow> u32 \<Rightarrow> (u32 \<Rightarrow> u8) \<Rightarrow> trap" where
  "swi code r0 r1 r2 m = \<lparr>trap_code = code, trap_r0 = r0, trap_r1 = r1, trap_r2 = r2, trap_mem = m\<rparr>"

text \<open>The number that \<^verbatim>\<open>swi\<close> carries for a code.\<close>

fun code_number :: "sys_code_t \<Rightarrow> u32" where
  "code_number SYS_CODE_EXIT = 0"
| "code_number SYS_CODE_PASS = 1"
| "code_number SYS_CODE_CREATE = 2"
| "code_number SYS_CODE_MYTID = 3"
| "code_number SYS_CODE_PARENTTID = 4"
| "code_number SYS_CODE_SEND = 5"
| "code_number SYS_CODE_RECEIVE = 6"
| "code_number SYS_CODE_REPLY = 7"
| "code_number SYS_CODE_AWAITEVENT = 8"
| "code_number SYS_CODE_PANIC = 9"
| "code_number SYS_CODE_QUIT = 10"

subsection \<open>The functions\<close>

text \<open>Registers that a function does not set keep what its caller left in them, \<open>g\<close>.\<close>

definition trap_Create :: "i32 \<Rightarrow> u32 \<Rightarrow> u32 \<Rightarrow> (u32 \<Rightarrow> u8) \<Rightarrow> trap" where
  "trap_Create priority code g m = swi SYS_CODE_CREATE priority code g m"

definition trap_MyTid :: "u32 \<Rightarrow> (u32 \<Rightarrow> u8) \<Rightarrow> trap" where
  "trap_MyTid g m = swi SYS_CODE_MYTID g g g m"

definition trap_MyParentTid :: "u32 \<Rightarrow> (u32 \<Rightarrow> u8) \<Rightarrow> trap" where
  "trap_MyParentTid g m = swi SYS_CODE_PARENTTID g g g m"

definition trap_Pass :: "u32 \<Rightarrow> (u32 \<Rightarrow> u8) \<Rightarrow> trap" where
  "trap_Pass g m = swi SYS_CODE_PASS g g g m"

definition trap_Exit :: "u32 \<Rightarrow> (u32 \<Rightarrow> u8) \<Rightarrow> trap" where
  "trap_Exit g m = swi SYS_CODE_EXIT g g g m"

text \<open>\<^verbatim>\<open>send_params_t\<close>: the byte \<open>tid\<close>, then four words, 20 bytes at the address \<open>params\<close> of the local variable.\<close>

definition send_params :: "u32 \<Rightarrow> u8 \<Rightarrow> u32 \<Rightarrow> u32 \<Rightarrow> u32 \<Rightarrow> u32 \<Rightarrow> (u32 \<Rightarrow> u8) \<Rightarrow> (u32 \<Rightarrow> u8)" where
  "send_params params tid msg msg_len rep rep_len m =
     (let m = m(params := tid);
          m = store32 m (params + 4) msg;
          m = store32 m (params + 8) msg_len;
          m = store32 m (params + 12) rep
      in store32 m (params + 16) rep_len)"

definition trap_Send ::
  "u32 \<Rightarrow> u8 \<Rightarrow> u32 \<Rightarrow> u32 \<Rightarrow> u32 \<Rightarrow> u32 \<Rightarrow> u32 \<Rightarrow> (u32 \<Rightarrow> u8) \<Rightarrow> trap"
where
  "trap_Send params tid msg msg_len rep rep_len g m =
     swi SYS_CODE_SEND params g g (send_params params tid msg msg_len rep rep_len m)"

definition trap_Receive :: "u32 \<Rightarrow> u32 \<Rightarrow> u32 \<Rightarrow> (u32 \<Rightarrow> u8) \<Rightarrow> trap" where
  "trap_Receive tid msg msg_len m = swi SYS_CODE_RECEIVE tid msg msg_len m"

definition trap_Reply :: "u8 \<Rightarrow> u32 \<Rightarrow> u32 \<Rightarrow> (u32 \<Rightarrow> u8) \<Rightarrow> trap" where
  "trap_Reply tid rep rep_len m = swi SYS_CODE_REPLY (ucast tid) rep rep_len m"

definition trap_AwaitEvent :: "i32 \<Rightarrow> u32 \<Rightarrow> (u32 \<Rightarrow> u8) \<Rightarrow> trap" where
  "trap_AwaitEvent eventid g m = swi SYS_CODE_AWAITEVENT eventid g g m"

definition trap_panic :: "u32 \<Rightarrow> u32 \<Rightarrow> (u32 \<Rightarrow> u8) \<Rightarrow> trap" where
  "trap_panic msg g m = swi SYS_CODE_PANIC msg g g m"

definition trap_Quit :: "u32 \<Rightarrow> (u32 \<Rightarrow> u8) \<Rightarrow> trap" where
  "trap_Quit g m = swi SYS_CODE_QUIT g g g m"

subsection \<open>What the kernel sees\<close>

text \<open>
  The state in which \<open>handle\<close> finds a trap of the task at index \<open>a\<close>: the argument registers are the first words
  of the task's frame, the mark of a software interrupt is set, and the memory outside the
  frame is the task's.
\<close>

definition trapped :: "nat \<Rightarrow> trap \<Rightarrow> kernel_context_t \<Rightarrow> bool" where
  "trapped a t ctx \<longleftrightarrow> a < length (tds ctx) \<and>
     (let sp = td_sp (tds ctx ! a) in
        load32 (mem ctx) sp = trap_r0 t \<and> load32 (mem ctx) (sp + 4) = trap_r1 t \<and>
        load32 (mem ctx) (sp + 8) = trap_r2 t \<and> load32 (mem ctx) (irq_stack_start ctx) = 0 \<and>
        (\<forall>x. x \<notin> addr_range sp 56 \<longrightarrow> mem ctx x = trap_mem t x))"

abbreviation dispatch :: "nat \<Rightarrow> trap \<Rightarrow> kernel_context_t \<Rightarrow> (bool \<times> kernel_context_t) option" where
  "dispatch a t ctx \<equiv> handle a (code_number (trap_code t)) ctx"

text \<open>The end of the dispatcher: the result goes into the task's frame, the kernel goes on.\<close>

definition returning :: "nat \<Rightarrow> (i32 \<times> kernel_context_t) option \<Rightarrow> (bool \<times> kernel_context_t) option" where
  "returning a r = do {
     (ret, ctx) \<leftarrow> r;
     ctx \<leftarrow> task_descriptor_set_return_value a ret ctx;
     Some (False, ctx)
   }"

lemma sys_code_number [simp]: "sys_code (code_number c) = Some c"
  by (cases c) (simp_all add: sys_code_def sys_codes_def)

lemma swi_simps [simp]: "trap_code (swi c r0 r1 r2 m) = c" "trap_r0 (swi c r0 r1 r2 m) = r0"
  "trap_r1 (swi c r0 r1 r2 m) = r1" "trap_r2 (swi c r0 r1 r2 m) = r2" "trap_mem (swi c r0 r1 r2 m) = m"
  by (simp_all add: swi_def)

lemma dispatch_trapped:
  "trapped a t ctx \<Longrightarrow> dispatch a t ctx = handle_swi a (code_number (trap_code t)) ctx"
  by (simp add: trapped_def handle_def Let_def)

subsection \<open>From the functions to the kernel\<close>

datatype syscall =
  Sys_Create i32 u32 | Sys_MyTid | Sys_MyParentTid | Sys_Pass | Sys_Exit | Sys_Send u8 u32 u32 u32 u32 |
  Sys_Receive u32 u32 u32 | Sys_Reply u8 u32 u32 | Sys_AwaitEvent i32 | Sys_panic u32 | Sys_Quit

text \<open>The trap of a call, and the kernel function that is meant to serve it.\<close>

fun trap_of :: "syscall \<Rightarrow> u32 \<Rightarrow> u32 \<Rightarrow> (u32 \<Rightarrow> u8) \<Rightarrow> trap" where
  "trap_of (Sys_Create priority code) params g m = trap_Create priority code g m"
| "trap_of Sys_MyTid params g m = trap_MyTid g m"
| "trap_of Sys_MyParentTid params g m = trap_MyParentTid g m"
| "trap_of Sys_Pass params g m = trap_Pass g m"
| "trap_of Sys_Exit params g m = trap_Exit g m"
| "trap_of (Sys_Send tid msg msg_len rep rep_len) params g m = trap_Send params tid msg msg_len rep rep_len g m"
| "trap_of (Sys_Receive tid msg msg_len) params g m = trap_Receive tid msg msg_len m"
| "trap_of (Sys_Reply tid rep rep_len) params g m = trap_Reply tid rep rep_len m"
| "trap_of (Sys_AwaitEvent eventid) params g m = trap_AwaitEvent eventid g m"
| "trap_of (Sys_panic msg) params g m = trap_panic msg g m"
| "trap_of Sys_Quit params g m = trap_Quit g m"

fun serve :: "nat \<Rightarrow> syscall \<Rightarrow> kernel_context_t \<Rightarrow> (bool \<times> kernel_context_t) option" where
  "serve a (Sys_Create priority code) ctx = returning a (kernel_create a priority code ctx)"
| "serve a Sys_MyTid ctx = returning a (kernel_mytid a ctx)"
| "serve a Sys_MyParentTid ctx = returning a (kernel_parenttid a ctx)"
| "serve a Sys_Pass ctx = returning a (do { ctx \<leftarrow> kernel_pass a ctx; Some (0, ctx) })"
| "serve a Sys_Exit ctx = kernel_exit a ctx"
| "serve a (Sys_Send tid msg msg_len rep rep_len) ctx = returning a (kernel_send a tid msg msg_len rep rep_len ctx)"
| "serve a (Sys_Receive tid msg msg_len) ctx = returning a (kernel_receive a tid msg msg_len ctx)"
| "serve a (Sys_Reply tid rep rep_len) ctx = returning a (kernel_reply a tid rep rep_len ctx)"
| "serve a (Sys_AwaitEvent eventid) ctx = returning a (kernel_await_event a eventid ctx)"
| "serve a (Sys_panic msg) ctx =
     returning a (do { s \<leftarrow> read_cstring (mem ctx) msg; ctx \<leftarrow> kernel_panic a s ctx; Some (0, ctx) })"
| "serve a Sys_Quit ctx = Some (True, ctx)"

lemma send_params_read:
  "send_params p tid msg msg_len rep rep_len m p = tid"
  "load32 (send_params p tid msg msg_len rep rep_len m) (p + 4) = msg"
  "load32 (send_params p tid msg msg_len rep rep_len m) (p + 8) = msg_len"
  "load32 (send_params p tid msg msg_len rep rep_len m) (p + 12) = rep"
  "load32 (send_params p tid msg msg_len rep rep_len m) (p + 16) = rep_len"
  by (simp_all add: send_params_def load32_store32_other store32_other)

lemma byte_ucast: "ucast (ucast (b :: u8) :: u32) = b"
  by (rule bit_word_eqI) (auto simp: bit_ucast_iff dest: bit_imp_le_length)

lemma load32_agree:
  assumes "\<forall>x\<in>addr_range p 20. m x = m' x" "k \<in> {4, 8, 12, 16}"
  shows "load32 m (p + of_nat k) = load32 m' (p + of_nat k)"
proof -
  have *: "m (p + of_nat j) = m' (p + of_nat j)" if "j < 20" for j
    using assms(1) addr_rangeI [OF that, of p] by blast
  show ?thesis
    using assms(2) *[of k] *[of "k + 1"] *[of "k + 2"] *[of "k + 3"]
    by (intro load32_cong) (auto simp: addr_range_4 add.assoc)
qed

text \<open>
  C40: Every function of the system call interface reaches the kernel function it is meant for, with its
  own arguments, and gets its result: the trap numbers, the argument registers and the layout of
  the structure of \<open>Send\<close> agree between the two sides of the interface. The structure has to lie outside the
  frame that the kernel entry pushes below it.
\<close>

theorem syscall_reaches_kernel:
  assumes "trapped a (trap_of c params g m) ctx"
    and "addr_range params 20 \<inter> addr_range (td_sp (tds ctx ! a)) 56 = {}"
  shows "dispatch a (trap_of c params g m) ctx = serve a c ctx"
proof -
  note t = assms(1) [unfolded trapped_def Let_def]
  have r: "load32 (mem ctx) (td_sp (tds ctx ! a)) = trap_r0 (trap_of c params g m)"
    "load32 (mem ctx) (td_sp (tds ctx ! a) + 4) = trap_r1 (trap_of c params g m)"
    "load32 (mem ctx) (td_sp (tds ctx ! a) + 8) = trap_r2 (trap_of c params g m)" "a < length (tds ctx)"
    using t by blast+
  have agree: "\<forall>x\<in>addr_range params 20. mem ctx x = trap_mem (trap_of c params g m) x"
    using t assms(2) by blast
  note d = handle_swi_def r returning_def Let_def split_def
  have "handle_swi a (code_number (trap_code (trap_of c params g m))) ctx = serve a c ctx"
  proof (cases c)
    case (Sys_Send tid msg msg_len rep rep_len)
    let ?m = "send_params params tid msg msg_len rep rep_len m"
    have eq: "\<forall>x\<in>addr_range params 20. mem ctx x = ?m x" using agree Sys_Send by (simp add: trap_Send_def)
    then have "mem ctx params = tid"
      using addr_rangeI [of 0 20 params] by (simp add: send_params_read)
    moreover have "load32 (mem ctx) (params + 4) = msg" "load32 (mem ctx) (params + 8) = msg_len"
      "load32 (mem ctx) (params + 12) = rep" "load32 (mem ctx) (params + 16) = rep_len"
      using load32_agree [OF eq, of 4] load32_agree [OF eq, of 8] load32_agree [OF eq, of 12] load32_agree [OF eq, of 16]
      by (simp_all add: send_params_read)
    ultimately show ?thesis using Sys_Send by (simp add: d trap_Send_def del: code_number.simps)
  next
    case (Sys_Reply tid rep rep_len)
    then show ?thesis by (simp add: d trap_Reply_def byte_ucast del: code_number.simps)
  next
    case (Sys_Exit)
    then show ?thesis by (simp add: d trap_Exit_def del: code_number.simps)
  qed (simp_all add: d trap_Create_def trap_MyTid_def trap_MyParentTid_def trap_Pass_def trap_Receive_def
      trap_AwaitEvent_def trap_panic_def trap_Quit_def del: code_number.simps)
  then show ?thesis by (simp only: dispatch_trapped [OF assms(1)])
qed

text \<open>Task 0 sends 4 bytes to task 1.\<close>

definition sending :: kernel_context_t where
  "sending = blank\<lparr>mem := store32 (send_params 0x100 1 0x200 4 0x300 4 (\<lambda>_. 0)) 0 0x100\<rparr>"

lemma sending_trapped: "trapped 0 (trap_of (Sys_Send 1 0x200 4 0x300 4) 0x100 0 (\<lambda>_. 0)) sending"
proof -
  let ?m = "send_params 0x100 1 0x200 4 0x300 4 (\<lambda>_. 0)"
  have "load32 (store32 ?m 0 0x100) 4 = 0" "load32 (store32 ?m 0 0x100) 8 = 0" "load32 (store32 ?m 0 0x100) 0x400000 = 0"
    by (simp_all add: send_params_def load32_def store32_def)
  moreover have "store32 ?m 0 0x100 x = ?m x" if "x \<notin> addr_range 0 56" for x
  proof (rule store32_outside)
    have "addr_range (0 :: u32) 4 \<subseteq> addr_range 0 56" by (auto simp: addr_range_def)
    then show "x \<notin> addr_range 0 4" using that by blast
  qed
  ultimately show ?thesis
    by (simp add: trapped_def sending_def blank_def blank_td_def trap_Send_def)
qed

theorem syscall_reaches_kernel_witness:
  "dispatch 0 (trap_of (Sys_Send 1 0x200 4 0x300 4) 0x100 0 (\<lambda>_. 0)) sending =
     returning 0 (kernel_send 0 1 0x200 4 0x300 4 sending)"
proof -
  have "0x100 + of_nat i \<noteq> (of_nat j :: u32)" if "i < 20" "j < 56" for i j
    using of_nat_u32_inj [of "256 + i" j] that by simp
  then have "addr_range 0x100 20 \<inter> addr_range 0 56 = {}" by (force simp: addr_range_def)
  then have "addr_range 0x100 20 \<inter> addr_range (td_sp (tds sending ! 0)) 56 = {}"
    by (simp add: sending_def blank_def blank_td_def)
  from syscall_reaches_kernel [OF sending_trapped this] show ?thesis by simp
qed

end
