(* ===== verification/TaskLife.thy ===== *)
theory TaskLife
  imports KernelEvents
begin

text \<open>
  The life of a task across iterations of the main loop: which states follow each other, what never
  changes, and what the kernel keeps for a task while it is blocked. With that, a whole message
  exchange is put together from the three calls of which it consists.
\<close>

subsection \<open>Steps of one task\<close>

definition may_become :: "task_state_t \<Rightarrow> task_state_t \<Rightarrow> bool" where
  "may_become x y \<longleftrightarrow> x = y \<or> x = READY \<and> y \<noteq> ACTIVE \<or>
     x \<in> {SEND_BLOCKED, REPLY_BLOCKED, EVENT_BLOCKED} \<and> y = READY \<or> x = RECEIVE_BLOCKED \<and> y = REPLY_BLOCKED"

lemma may_become_simps [simp]:
  "may_become x x" "may_become READY y = (y \<noteq> ACTIVE)" "may_become SEND_BLOCKED READY"
  "may_become REPLY_BLOCKED READY" "may_become EVENT_BLOCKED READY" "may_become RECEIVE_BLOCKED REPLY_BLOCKED"
  by (auto simp: may_become_def)

definition td_step :: "bool \<Rightarrow> task_descriptor_t \<Rightarrow> task_descriptor_t \<Rightarrow> bool" where
  "td_step active d d' \<longleftrightarrow> td_tid d' = td_tid d \<and> td_priority d' = td_priority d \<and> td_parent d' = td_parent d \<and>
     may_become (td_state d) (td_state d') \<and>
     (\<not> active \<longrightarrow> td_sp d' = td_sp d \<and> td_svc_lr d' = td_svc_lr d \<and> td_spsr d' = td_spsr d \<and>
        td_message_params d' = td_message_params d)"

definition lives_on :: "nat \<Rightarrow> kernel_context_t \<Rightarrow> kernel_context_t \<Rightarrow> bool" where
  "lives_on a s s' \<longleftrightarrow> unat (next_free_td s) \<le> unat (next_free_td s') \<and>
     (\<forall>u<unat (next_free_td s). td_step (u = a) (tds s ! u) (tds s' ! u))"

lemma td_step_refl [simp]: "td_step active d d"
  by (simp add: td_step_def)

lemma td_step_state [simp]: "td_step active d (d\<lparr>td_state := x\<rparr>) = may_become (td_state d) x"
  by (auto simp: td_step_def)

lemma lives_on_updI:
  assumes "running s L a" "next_free_td s' = next_free_td s" "\<And>u. u < 64 \<Longrightarrow> td_step (u = a) (tds s ! u) (tds s' ! u)"
  shows "lives_on a s s'"
  using assms krep_lengths(4) [OF runningD(1) [OF assms(1)]] by (simp add: lives_on_def)

lemma lives_on_cong: "tds s'' = tds s' \<Longrightarrow> next_free_td s'' = next_free_td s' \<Longrightarrow> lives_on a s s' \<Longrightarrow> lives_on a s s''"
  by (simp add: lives_on_def)

lemma made_ready_lives: "running s L a \<Longrightarrow> made_ready a s s' \<Longrightarrow> lives_on a s s'"
  by (rule lives_on_updI)
    (auto simp: made_ready_frame runningD nth_list_update_if)

subsection \<open>System calls\<close>

definition keeps_lives :: "nat \<Rightarrow> kernel_context_t \<Rightarrow> ('r \<times> kernel_context_t) option \<Rightarrow> bool" where
  "keeps_lives a s r \<longleftrightarrow> (\<forall>v s'. r = Some (v, s') \<longrightarrow> lives_on a s s')"

lemma keeps_livesI: "r = Some (v, s') \<Longrightarrow> lives_on a s s' \<Longrightarrow> keeps_lives a s r"
  by (simp add: keeps_lives_def)

lemma create_lives:
  assumes run: "running s L a"
  shows "keeps_lives a s (kernel_create a priority code s)"
proof -
  note r = runningD [OF run]
  consider (bad) "sint priority < 0 \<or> 63 < sint priority"
    | (full) "0 \<le> sint priority" "sint priority \<le> 63" "64 \<le> unat (next_free_td s)"
    | (ok) "0 \<le> sint priority" "sint priority \<le> 63" "unat (next_free_td s) < 64"
    by linarith
  then show ?thesis
  proof cases
    case ok
    obtain s' where "kernel_create a priority code s = Some (of_nat (unat (next_free_td s)), s')"
      "krep s' (enqueue_ready s' [unat (next_free_td s), a] L)" "unat (next_free_td s') = Suc (unat (next_free_td s))"
      "tds s' = (tds s)[unat (next_free_td s) := fresh_td (of_nat (unat (next_free_td s))) (ucast priority) (Some a) code
         (td_message_params (tds s ! unat (next_free_td s))), a := (tds s ! a)\<lparr>td_state := READY\<rparr>]"
      by (rule kernel_create_running [OF run ok(1,2) refl ok(3)])
    then show ?thesis using r(2,4,6,8) by (auto simp: keeps_lives_def lives_on_def nth_list_update)
  qed (simp_all add: keeps_lives_def kernel_create_errors lives_on_def)
qed

lemma receive_lives:
  assumes run: "running s L a" and len: "unat len < 2 ^ 31"
  shows "keeps_lives a s (kernel_receive a tid msg len s)"
proof (cases "L (SendQ a)")
  case Nil
  show ?thesis
    using runningD(4,6,8) [OF run] kernel_receive_blocks [OF run Nil]
    by (intro keeps_livesI [OF kernel_receive_blocks(1) [OF run Nil]] lives_on_updI [OF run])
      (auto simp: nth_list_update_if td_step_def)
next
  case (Cons t ts)
  note ra = runningD [OF run]
  obtain q h where d: "queue_get (td_send_q (tds s ! a)) (nodes s) = Some (Some t, q, h)"
    "\<not> queue_empty (td_send_q (tds s ! a))"
    "running (s\<lparr>nodes := h, tds := (tds s)[a := (tds s ! a)\<lparr>td_send_q := q\<rparr>]\<rparr>) (L(SendQ a := ts)) a"
    "floats (L(SendQ a := ts)) t" "t < 64" "t \<noteq> a" "t < unat (next_free_td s)"
    "td_tid (tds s ! t) = of_nat t" "td_state (tds s ! t) = RECEIVE_BLOCKED"
    by (rule receive_dequeue [OF run Cons])
  obtain m where m: "memcpy (mem s) msg (mp_msg (td_message_params (tds s ! t))) len = Some m"
    using memcpy_total [OF len] by blast
  define mm where "mm = (if mp_msg_len (td_message_params (tds s ! t)) = len then m(tid := of_nat t) else mem s)"
  let ?s = "s\<lparr>nodes := h, tds := (tds s)[a := (tds s ! a)\<lparr>td_send_q := q\<rparr>], mem := mm\<rparr>"
  have run': "running ?s (L(SendQ a := ts)) a" using d(3) by (simp add: running_def)
  obtain s1 where s1: "scheduler_put a ?s = Some (0, s1)" "made_ready a ?s s1"
    by (rule put_active [OF run'])
  note fr = made_ready_frame [OF s1(2)]
  let ?s' = "if mp_msg_len (td_message_params (tds s ! t)) = len
    then s1\<lparr>tds := (tds s1)[t := (tds s1 ! t)\<lparr>td_state := REPLY_BLOCKED\<rparr>]\<rparr> else s1"
  have "\<exists>v. kernel_receive a tid msg len s = Some (v, ?s')"
    using d s1(1) ra(4,6) m fr(1) by (auto simp: kernel_receive_def mm_def)
  moreover have "lives_on a s ?s'"
    using fr ra(4,6,8) d(5,6,9) by (intro lives_on_updI [OF run]) (auto simp: nth_list_update_if td_step_def)
  ultimately show ?thesis by (auto intro: keeps_livesI)
qed


lemma send_to_queue_tds:
  assumes "send_to_queue a r msg len s = Some s'" "a < length (tds s)" "r < length (tds s)"
  shows "\<exists>q h. s' = s\<lparr>nodes := h, tds := (tds s)[r := (tds s ! r)\<lparr>td_send_q := q\<rparr>,
    a := ((tds s)[r := (tds s ! r)\<lparr>td_send_q := q\<rparr>] ! a)\<lparr>td_state := RECEIVE_BLOCKED,
      td_message_params := (td_message_params (tds s ! a))\<lparr>mp_msg := msg, mp_msg_len := len\<rparr>\<rparr>]\<rparr>"
proof -
  from assms obtain e q h where "queue_put (td_send_q (tds s ! r)) (nodes s) (Some (SendNode a)) = Some (e, q, h)"
    by (auto simp: send_to_queue_def split: Option.bind_splits)
  with assms show ?thesis
    by (intro exI [of _ q] exI [of _ h]) (auto simp: send_to_queue_def nth_list_update_if)
qed

lemma send_lives:
  assumes run: "running s L a" and tgt: "target_ok s tid" and len: "unat len < 2 ^ 31"
  shows "keeps_lives a s (kernel_send a tid msg len rep rlen s)"
proof -
  note ra = runningD [OF run]
  from tgt have t: "unat tid < 64" by (simp add: target_ok_def)
  obtain s0 where s0: "scheduler_put a s = Some (0, s0)" "made_ready a s s0"
    by (rule put_active [OF run])
  let ?r = "tds s ! unat tid"
  consider (bad) "td_tid ?r \<noteq> tid \<or> td_state ?r = SEND_BLOCKED \<and> mp_msg_len (td_message_params ?r) \<noteq> len"
    | (queued) "td_tid ?r = tid" "td_state ?r \<noteq> SEND_BLOCKED"
    | (waiting) "td_tid ?r = tid" "td_state ?r = SEND_BLOCKED" "mp_msg_len (td_message_params ?r) = len"
    by blast
  then show ?thesis
  proof cases
    case bad
    then have "\<exists>v. kernel_send a tid msg len rep rlen s = Some (v, s0)"
      using t ra(6) s0(1) by (auto simp: kernel_send_def Let_def)
    with made_ready_lives [OF run s0(2)] show ?thesis by (auto intro: keeps_livesI)
  next
    case queued
    show ?thesis unfolding keeps_lives_def
    proof (intro allI impI)
      fix v s'
      assume "kernel_send a tid msg len rep rlen s = Some (v, s')"
      with queued t ra(6) obtain s1 where s1: "send_to_queue a (unat tid) msg len s = Some s1"
        "td_update a (\<lambda>td. td\<lparr>td_message_params := (td_message_params td)\<lparr>mp_rep := rep, mp_rep_len := rlen\<rparr>\<rparr>) s1 = Some s'"
        by (auto simp: kernel_send_def split: Option.bind_splits)
      from send_to_queue_tds [OF s1(1)] s1(2) t ra(4,6,8) show "lives_on a s s'"
        by (intro lives_on_updI [OF run]) (auto simp: nth_list_update_if td_step_def)
    qed
  next
    case waiting
    from tgt waiting(1) have r: "unat tid < unat (next_free_td s)" by (auto simp: target_ok_def known_tid_def)
    obtain m where m: "memcpy (mem s) (mp_msg (td_message_params ?r)) msg len = Some m"
      using memcpy_total [OF len] by blast
    obtain s' where s': "kernel_send a tid msg len rep rlen s = Some (0, s')" "next_free_td s' = next_free_td s"
      "tds s' = (tds s)[unat tid := ?r\<lparr>td_state := READY\<rparr>, a := (tds s ! a)\<lparr>td_state := REPLY_BLOCKED,
         td_message_params := (td_message_params (tds s ! a))\<lparr>mp_rep := rep, mp_rep_len := rlen\<rparr>\<rparr>]"
      by (rule kernel_send_delivered [OF run r refl waiting(2,3) m])
    then show ?thesis
      using ra(4,6,8) waiting(2) by (intro keeps_livesI [OF s'(1)] lives_on_updI [OF run]) (auto simp: nth_list_update_if td_step_def)
  qed
qed

lemma reply_lives:
  assumes run: "running s L a" and ok: "reply_ok s tid len"
  shows "keeps_lives a s (kernel_reply a tid rep len s)"
proof -
  note ra = runningD [OF run]
  from ok have t: "unat tid < 64" by (simp add: reply_ok_def target_ok_def)
  obtain s0 where s0: "scheduler_put a s = Some (0, s0)" "made_ready a s s0"
    by (rule put_active [OF run])
  let ?r = "tds s ! unat tid"
  consider (bad) "td_tid ?r \<noteq> tid \<or> mp_rep_len (td_message_params ?r) \<noteq> len"
    | (ok) "td_tid ?r = tid" "mp_rep_len (td_message_params ?r) = len"
    by blast
  then show ?thesis
  proof cases
    case bad
    then have "\<exists>v. kernel_reply a tid rep len s = Some (v, s0)"
      using t ra(6) s0(1) by (auto simp: kernel_reply_def Let_def)
    with made_ready_lives [OF run s0(2)] show ?thesis by (auto intro: keeps_livesI)
  next
    case ok': ok
    from ok ok' have r: "unat tid < unat (next_free_td s)" "td_state ?r = REPLY_BLOCKED" "unat len < 2 ^ 31"
      by (auto simp: reply_ok_def target_ok_def known_tid_def)
    obtain m where m: "memcpy (mem s) (mp_rep (td_message_params ?r)) rep len = Some m"
      using memcpy_total [OF r(3)] by blast
    obtain s' where s': "kernel_reply a tid rep len s = Some (0, s')" "next_free_td s' = next_free_td s"
      "tds s' = (tds s)[unat tid := ?r\<lparr>td_state := READY\<rparr>, a := (tds s ! a)\<lparr>td_state := READY\<rparr>]"
      by (rule kernel_reply_delivered [OF run r(1) refl r(2) ok'(2) m])
    then show ?thesis
      using ra(4,6,8) r(2) by (intro keeps_livesI [OF s'(1)] lives_on_updI [OF run]) (auto simp: nth_list_update_if)
  qed
qed

lemma await_lives:
  assumes run: "running s L a"
  shows "keeps_lives a s (kernel_await_event a event s)"
proof (cases "unat event < 16")
  case True
  obtain s' where s': "kernel_await_event a event s = Some (0, s')" "next_free_td s' = next_free_td s"
    "tds s' = (tds s)[a := (tds s ! a)\<lparr>td_state := EVENT_BLOCKED\<rparr>]"
    by (rule kernel_await_event_running [OF run True])
  then show ?thesis
    using runningD(4,6,8) [OF run] by (intro keeps_livesI [OF s'(1)] lives_on_updI [OF run]) (auto simp: nth_list_update_if)
next
  case False
  then have "16 \<le> unat event" by simp
  then obtain s' where "kernel_await_event a event s = Some (- 1, s')" "made_ready a s s'"
    by (rule kernel_await_event_bad [OF run])
  then show ?thesis by (intro keeps_livesI made_ready_lives [OF run])
qed

lemma other_lives:
  assumes run: "running s L a"
  shows "keeps_lives a s (kernel_mytid a s)" "keeps_lives a s (kernel_parenttid a s)" "keeps_lives a s (kernel_exit a s)"
    and "\<exists>s'. kernel_pass a s = Some s' \<and> lives_on a s s'"
proof -
  show "keeps_lives a s (kernel_mytid a s)"
    by (rule kernel_mytid_running [OF run]) (intro keeps_livesI made_ready_lives [OF run])
  show "keeps_lives a s (kernel_parenttid a s)"
    by (rule kernel_parenttid_running [OF run]) (intro keeps_livesI made_ready_lives [OF run])
  show "keeps_lives a s (kernel_exit a s)"
    using runningD(4,6,8) [OF run]
    by (intro keeps_livesI [OF kernel_exit_running(1) [OF run]] lives_on_updI [OF run]) (auto simp: nth_list_update_if)
  show "\<exists>s'. kernel_pass a s = Some s' \<and> lives_on a s s'"
    by (rule kernel_pass_running [OF run]) (auto intro: made_ready_lives [OF run])
qed

subsection \<open>The dispatcher and the main loop\<close>

lemma set_return_value_keeps:
  "task_descriptor_set_return_value t ret s = Some s' \<Longrightarrow> tds s' = tds s \<and> next_free_td s' = next_free_td s"
  by (auto simp: task_descriptor_set_return_value_def split: Option.bind_splits)

lemma finish_lives:
  "keeps_lives a s r \<Longrightarrow> keeps_lives a s (r \<bind> (\<lambda>p. task_descriptor_set_return_value a (fst p) (snd p) \<bind>
     (\<lambda>ctx. Some (False, ctx))))"
  unfolding keeps_lives_def
  by (auto split: Option.bind_splits dest!: set_return_value_keeps intro: lives_on_cong)

lemma panic_lives:
  assumes run: "running s L a" and live: "uart_tx_live UART2_BASE (dev s)" "0 \<notin> set msg"
  obtains s' where "kernel_panic a msg s = Some s'" "lives_on a s s'"
proof -
  obtain es where "kernel_panic a msg s = Some (s\<lparr>sch := (sch s)\<lparr>bitmap := 0\<rparr>, io := io s @ es\<rparr>)"
    by (rule kernel_panic_spec [OF live])
  then show ?thesis by (rule that) (simp add: lives_on_def)
qed

lemma handle_swi_lives:
  assumes run: "running s L a" and live: "uart_tx_live UART2_BASE (dev s)" and ok: "request_ok a req s"
  shows "keeps_lives a s (handle_swi a req s)"
proof -
  note r = runningD [OF run]
  note ok' = ok [unfolded request_ok_def Let_def]
  note unfold = handle_swi_def split_def Let_def
  note fin = finish_lives
  have panic: "keeps_lives a s (kernel_panic a msg s \<bind> (\<lambda>ctx. task_descriptor_set_return_value a 0 ctx \<bind>
      (\<lambda>ctx. Some (False, ctx))))" if "0 \<notin> set msg" for msg
    by (rule panic_lives [OF run live that])
      (auto simp: keeps_lives_def split: Option.bind_splits dest!: set_return_value_keeps intro: lives_on_cong)
  show ?thesis
  proof (cases "sys_code req")
    case None
    then show ?thesis using panic [OF unknown_swi_text] r(4) by (simp add: unfold)
  next
    case (Some c)
    show ?thesis
    proof (cases c)
      case SYS_CODE_EXIT
      with Some other_lives(3) [OF run] r(4) show ?thesis by (simp add: unfold)
    next
      case SYS_CODE_PASS
      obtain s' where "kernel_pass a s = Some s'" "lives_on a s s'" using other_lives(4) [OF run] by blast
      with Some SYS_CODE_PASS r(4) show ?thesis
        by (auto simp: unfold keeps_lives_def split: Option.bind_splits dest!: set_return_value_keeps intro: lives_on_cong)
    next
      case SYS_CODE_CREATE
      with Some fin [OF create_lives [OF run]] r(4) show ?thesis by (simp add: unfold)
    next
      case SYS_CODE_MYTID
      with Some fin [OF other_lives(1) [OF run]] r(4) show ?thesis by (simp add: unfold)
    next
      case SYS_CODE_PARENTTID
      with Some fin [OF other_lives(2) [OF run]] r(4) show ?thesis by (simp add: unfold)
    next
      case SYS_CODE_SEND
      with Some ok' fin [OF send_lives [OF run]] r(4) show ?thesis by (simp add: unfold)
    next
      case SYS_CODE_RECEIVE
      with Some ok' fin [OF receive_lives [OF run]] r(4) show ?thesis by (simp add: unfold)
    next
      case SYS_CODE_REPLY
      with Some ok' fin [OF reply_lives [OF run]] r(4) show ?thesis by (simp add: unfold)
    next
      case SYS_CODE_AWAITEVENT
      with Some fin [OF await_lives [OF run]] r(4) show ?thesis by (simp add: unfold)
    next
      case SYS_CODE_PANIC
      with Some ok' obtain msg where "read_cstring (mem s) (load32 (mem s) (td_sp (tds s ! a))) = Some msg"
        by auto
      with Some SYS_CODE_PANIC panic [OF read_cstring_nonzero] r(4) show ?thesis by (simp add: unfold)
    next
      case SYS_CODE_QUIT
      with Some r(4) show ?thesis by (simp add: unfold keeps_lives_def lives_on_def)
    qed
  qed
qed

lemma handle_irq_lives:
  assumes run: "running s L a" and ev: "irq_event s = Some (e, v)"
  shows "keeps_lives a s (handle_irq a s)"
proof -
  note r = runningD [OF run]
  obtain s' where s': "handle_irq a s = Some (False, s')" "woken (L (AwaitQ (unat e)) @ [a]) s (s'\<lparr>io := io s\<rparr>)"
    by (rule handle_irq_spec [OF run ev])
  have "td_state (tds s ! u) = EVENT_BLOCKED" if "u \<in> set (L (AwaitQ (unat e)))" for u
    using krep_belongs [OF r(1) that] by simp
  with s'(2) r(6,8) have "lives_on a s s'"
    by (intro lives_on_updI [OF run]) (auto simp: woken_def)
  with s'(1) show ?thesis by (rule keeps_livesI)
qed

lemma handle_lives:
  assumes "running s L a" and "uart_tx_live UART2_BASE (dev s)"
    and "if load32 (mem s) (irq_stack_start s) = 0 then request_ok a req s else irq_expected s"
  shows "keeps_lives a s (handle a req s)"
  using assms handle_swi_lives [of s L a req] handle_irq_lives [of s L a]
  by (auto simp: handle_def irq_expected_def)

lemma scheduler_get_keeps:
  "scheduler_get s = Some (r, s') \<Longrightarrow> tds s' = tds s \<and> next_free_td s' = next_free_td s"
  by (auto simp: scheduler_get_def Let_def split: Option.bind_splits if_splits)

lemma idle_keeps:
  "tds (update_idle_task s) = tds s" "next_free_td (update_idle_task s) = next_free_td s"
  "tds (end_idle_task s) = tds s" "next_free_td (end_idle_task s) = next_free_td s"
proof -
  obtain m es where "update_idle_task s = s\<lparr>io := io s @ es, mem := m\<rparr>" using update_idle_frame by blast
  then show "tds (update_idle_task s) = tds s" "next_free_td (update_idle_task s) = next_free_td s" by simp_all
  obtain c es where "end_idle_task s = s\<lparr>io := io s @ es, last_idle_time := c\<rparr>" using end_idle_frame by blast
  then show "tds (end_idle_task s) = tds s" "next_free_td (end_idle_task s) = next_free_td s" by simp_all
qed

lemma main_schedule_keeps:
  "main_schedule s = Some (r, s') \<Longrightarrow> tds s' = tds s \<and> next_free_td s' = next_free_td s"
  by (auto simp: main_schedule_def idle_keeps split: Option.bind_splits option.splits if_splits
      dest!: scheduler_get_keeps)

lemma task_runs_keeps:
  assumes "task_runs a s s'"
  shows "next_free_td s' = next_free_td s" "\<And>u. u < length (tds s) \<Longrightarrow> td_step (u = a) (tds s ! u) (tds s' ! u)"
    "\<And>u. u < length (tds s) \<Longrightarrow> td_state (tds s' ! u) = td_state (tds s ! u)"
  using assms by (auto simp: task_runs_def td_step_def nth_list_update_if)

lemma td_step_trans:
  "td_step active d1 d2 \<Longrightarrow> td_state d2 = td_state d1 \<Longrightarrow> td_step active d2 d3 \<Longrightarrow> td_step active d1 d3"
  by (auto simp: td_step_def)

lemma kernel_step_lives:
  assumes safe: "kernel_safe s" and step: "kernel_step s s'"
  obtains a where "td_state (tds s ! a) = READY" "lives_on a s s'"
proof -
  from step obtain a s1 s2 req where sched: "main_schedule s = Some (Some a, s1)"
    and runs: "task_runs a s1 s2" and served: "served a req (main_enter a s2)"
    and handle: "main_handle a req s2 = Some (False, s')"
    by (rule kernel_stepE)
  obtain L where run: "running s1 L a" using safe sched by (elim main_schedule_cases) auto
  note r = runningD [OF run]
  note k = main_schedule_keeps [OF sched]
  note t = task_runs_keeps [OF runs]
  have run2: "running (main_enter a s2) L a" by (rule running_enter [OF running_task_runs [OF run runs]])
  have e: "tds (main_enter a s2) = tds s2" "next_free_td (main_enter a s2) = next_free_td s2"
    by (simp_all add: main_enter_def idle_keeps)
  have "handle a req (main_enter a s2) = Some (False, s')"
    using handle runningD(4) [OF run2] e(1) by (simp add: main_handle_def main_enter_def)
  moreover have "keeps_lives a (main_enter a s2) (handle a req (main_enter a s2))"
    using served unfolding served_def by (elim conjE) (rule handle_lives [OF run2])
  ultimately have "lives_on a (main_enter a s2) s'" unfolding keeps_lives_def by blast
  then have on: "unat (next_free_td s) \<le> unat (next_free_td s')"
    "u < unat (next_free_td s) \<Longrightarrow> td_step (u = a) (tds s2 ! u) (tds s' ! u)" for u
    using t(1) k e by (simp_all add: lives_on_def)
  have "td_step (u = a) (tds s ! u) (tds s' ! u)" if u: "u < unat (next_free_td s)" for u
  proof -
    have len: "u < length (tds s1)" using u k r(6) krep_lengths(4) [OF r(1)] by simp
    have "td_step (u = a) (tds s1 ! u) (tds s' ! u)"
      by (rule td_step_trans [OF t(2) [OF len] t(3) [OF len] on(2) [OF u]])
    then show ?thesis using k by simp
  qed
  with on(1) have "lives_on a s s'" by (simp add: lives_on_def)
  with r(8) k show ?thesis by (intro that [of a]) simp_all
qed

text \<open>
  C3: The life of a task under the contract of the kernel. In every step of the main loop from a
  reachable state in which the request can be served or the interrupt is expected (\<open>served\<close>; in particular,
  a \<open>Reply\<close> goes to a task that waits for one), every task keeps its id, its priority and its parent, and
  its state changes only along these lines: a ready task may get into any other state, a task that waits
  for a message, a reply or an event may become ready, a task whose message is not yet received may come to
  wait for the reply, and an exited task stays exited. A task that is not ready is not touched otherwise: its
  saved stack pointer, return address and status, and the buffers that it handed to the kernel, are still
  there when it becomes ready. Without the condition on \<open>Reply\<close> the code can make an exited task ready again
  (\<open>reply_revives_exited\<close>).
\<close>

theorem task_life_cycle:
  assumes "reachable kernel_start kernel_step s" and "kernel_step s s'" and "t < unat (next_free_td s)"
  shows "t < unat (next_free_td s') \<and> may_become (td_state (tds s ! t)) (td_state (tds s' ! t)) \<and>
    td_tid (tds s' ! t) = td_tid (tds s ! t) \<and> td_priority (tds s' ! t) = td_priority (tds s ! t) \<and>
    td_parent (tds s' ! t) = td_parent (tds s ! t) \<and>
    (td_state (tds s ! t) \<noteq> READY \<longrightarrow> td_sp (tds s' ! t) = td_sp (tds s ! t) \<and>
       td_svc_lr (tds s' ! t) = td_svc_lr (tds s ! t) \<and> td_spsr (tds s' ! t) = td_spsr (tds s ! t) \<and>
       td_message_params (tds s' ! t) = td_message_params (tds s ! t))"
proof -
  obtain a where "td_state (tds s ! a) = READY" "lives_on a s s'"
    by (rule kernel_step_lives [OF kernel_loop.reachable_inv [OF assms(1)] assms(2)])
  with assms(3) show ?thesis by (auto simp: lives_on_def td_step_def)
qed

theorem task_life_cycle_witness:
  "\<exists>s'. kernel_step booted s' \<and> td_tid (tds s' ! 1) = td_tid (tds booted ! 1) \<and>
     may_become (td_state (tds booted ! 1)) (td_state (tds s' ! 1))"
proof -
  obtain s' where s': "kernel_step booted s'" by (rule booted_step)
  have "1 < unat (next_free_td booted)" using booted_krep by simp
  from task_life_cycle [OF booted_reachable s' this] s' show ?thesis by blast
qed

subsection \<open>Over many steps\<close>

text \<open>
  Under the contract, who a task is never changes, no task is removed from the table, and an exited task
  never runs again.
\<close>

definition same_tasks :: "kernel_context_t \<Rightarrow> kernel_context_t \<Rightarrow> bool" where
  "same_tasks s s' \<longleftrightarrow> unat (next_free_td s) \<le> unat (next_free_td s') \<and>
     (\<forall>t<unat (next_free_td s). td_tid (tds s' ! t) = td_tid (tds s ! t) \<and>
        td_priority (tds s' ! t) = td_priority (tds s ! t) \<and> td_parent (tds s' ! t) = td_parent (tds s ! t) \<and>
        (td_state (tds s ! t) = EXITED \<longrightarrow> td_state (tds s' ! t) = EXITED))"

lemma lives_same_tasks: "lives_on a s s' \<Longrightarrow> same_tasks s s'"
  by (auto simp: lives_on_def td_step_def same_tasks_def may_become_def)

interpretation tasks: kept_over_runs kernel_start kernel_step kernel_safe same_tasks
proof
  show "same_tasks s1 s3" if "same_tasks s1 s2" "same_tasks s2 s3" for s1 s2 s3
    using that unfolding same_tasks_def by (metis (no_types, lifting) order_less_le_trans order_trans)
  show "same_tasks s s'" if "kernel_safe s" "kernel_step s s'" for s s'
    by (rule kernel_step_lives [OF that]) (rule lives_same_tasks)
qed (simp add: same_tasks_def)

text \<open>The buffers of a task that is blocked in state \<open>x\<close> are the same as long as it stays there.\<close>

definition stays_blocked :: "nat \<Rightarrow> task_state_t \<Rightarrow> kernel_context_t \<Rightarrow> kernel_context_t \<Rightarrow> bool" where
  "stays_blocked t x s s' \<longleftrightarrow> kernel_step s s' \<and> td_state (tds s ! t) = x \<and> td_state (tds s' ! t) = x"

lemma blocked_keeps_buffers:
  assumes "(stays_blocked t x)\<^sup>*\<^sup>* s s'" "reachable kernel_start kernel_step s" "t < unat (next_free_td s)" "x \<noteq> READY"
  shows "td_message_params (tds s' ! t) = td_message_params (tds s ! t) \<and> td_sp (tds s' ! t) = td_sp (tds s ! t) \<and>
    reachable kernel_start kernel_step s' \<and> t < unat (next_free_td s')"
  using assms
proof (induction rule: rtranclp_induct)
  case (step s1 s2)
  then have r: "reachable kernel_start kernel_step s1" "t < unat (next_free_td s1)" and st: "kernel_step s1 s2"
    "td_state (tds s1 ! t) \<noteq> READY"
    by (auto simp: stays_blocked_def)
  obtain a where a: "td_state (tds s1 ! a) = READY" "lives_on a s1 s2"
    by (rule kernel_step_lives [OF kernel_loop.reachable_inv [OF r(1)] st(1)])
  then have "t \<noteq> a" using st(2) by blast
  with a(2) r(2) have "td_step False (tds s1 ! t) (tds s2 ! t)" "t < unat (next_free_td s2)"
    by (auto simp: lives_on_def)
  with step r st(1) show ?case using reachable_step [OF r(1) st(1)] by (auto simp: td_step_def)
qed simp

subsection \<open>A message exchange\<close>

text \<open>
  Between the calls of an exchange other tasks run. What the exchange needs of them is what they grant by
  \<open>task_life_cycle\<close> and \<open>blocked_keeps_buffers\<close>: the descriptor of the blocked sender stays as it is.
\<close>

definition undisturbed :: "nat \<Rightarrow> kernel_context_t \<Rightarrow> kernel_context_t \<Rightarrow> bool" where
  "undisturbed t s s' \<longleftrightarrow> td_state (tds s' ! t) = td_state (tds s ! t) \<and>
     td_message_params (tds s' ! t) = td_message_params (tds s ! t)"

lemma blocked_undisturbed:
  assumes "(stays_blocked t x)\<^sup>*\<^sup>* s s'" "reachable kernel_start kernel_step s" "t < unat (next_free_td s)" "x \<noteq> READY"
    "td_state (tds s ! t) = x"
  shows "undisturbed t s s'"
proof -
  have "td_state (tds s' ! t) = x" using assms(1,5)
    by (induction rule: rtranclp_induct) (auto simp: stays_blocked_def)
  with blocked_keeps_buffers [OF assms(1-4)] assms(5) show ?thesis by (simp add: undisturbed_def)
qed

text \<open>
  A whole message exchange. A task \<open>a\<close> sends to a server \<open>b\<close> that is not waiting; later \<open>b\<close> receives,
  when \<open>a\<close> is the first of its senders, and later still it replies, with buffers of the sizes that the other side
  named. Then the three calls return 0, the id of \<open>a\<close>, and 0; the server has the message that lay in the
  sender's buffer and the sender's id, and the sender has the server's answer and is ready again, its \<open>Send\<close>
  returning 0. In between it waited, first for its turn and then for the reply.
\<close>

theorem message_exchange:
  assumes s1: "running s1 L1 a" "unat tid = b" "b < unat (next_free_td s1)" "td_state (tds s1 ! b) \<noteq> SEND_BLOCKED"
    and send: "kernel_send a tid msg len rep rlen s1 = Some (v1, t1)"
    and s2: "running s2 L2 b" "L2 (SendQ b) = a # ts" "undisturbed a t1 s2" "unat len < 2 ^ 31"
      "addr_range buf (unat len) \<inter> addr_range msg (unat len) = {}" "from_addr \<notin> addr_range buf (unat len)"
    and receive: "kernel_receive b from_addr buf len s2 = Some (v2, t2)"
    and s3: "running s3 L3 b" "a < unat (next_free_td s3)" "undisturbed a t2 s3" "unat rlen < 2 ^ 31"
      "addr_range rep (unat rlen) \<inter> addr_range ans (unat rlen) = {}"
      "addr_range rep (unat rlen) \<inter> addr_range (td_sp (tds s3 ! a)) 4 = {}"
    and reply: "kernel_reply b (of_nat a) ans rlen s3 = Some (v3, t3)"
  shows "v1 = 0 \<and> v2 = of_nat a \<and> v3 = 0 \<and>
    bytes_at (mem t2) buf (unat len) = bytes_at (mem s2) msg (unat len) \<and> mem t2 from_addr = of_nat a \<and>
    bytes_at (mem t3) rep (unat rlen) = bytes_at (mem s3) ans (unat rlen) \<and> load32 (mem t3) (td_sp (tds s3 ! a)) = 0 \<and>
    td_state (tds t1 ! a) = RECEIVE_BLOCKED \<and> td_state (tds t2 ! a) = REPLY_BLOCKED \<and> td_state (tds t3 ! a) = READY"
proof -
  obtain u1 where u1: "kernel_send a tid msg len rep rlen s1 = Some (0, u1)" "td_state (tds u1 ! a) = RECEIVE_BLOCKED"
    "td_message_params (tds u1 ! a) = (td_message_params (tds s1 ! a))
       \<lparr>mp_msg := msg, mp_msg_len := len, mp_rep := rep, mp_rep_len := rlen\<rparr>"
    by (rule kernel_send_queued [OF s1(1,3,2,4), where msg = msg and len = len and rep = rep and rlen = rlen])
  with send have t1: "v1 = 0" "t1 = u1" by simp_all
  let ?P = "td_message_params (tds s2 ! a)"
  have P: "mp_msg ?P = msg" "mp_msg_len ?P = len" "mp_rep ?P = rep" "mp_rep_len ?P = rlen"
    using s2(3) u1(3) t1(2) by (simp_all add: undisturbed_def)
  have a: "a < unat (next_free_td s2)" "a < 64"
    using krep_bound [OF runningD(1) [OF s2(1)], of a "SendQ b"] s2(2) krep_lengths(4) [OF runningD(1) [OF s2(1)]]
    by auto
  obtain m where m: "memcpy (mem s2) buf msg len = Some m" "bytes_at m buf (unat len) = bytes_at (mem s2) msg (unat len)"
    by (rule memcpy_copies [OF s2(4,5)])
  obtain u2 where u2: "kernel_receive b from_addr buf len s2 = Some (of_nat a, u2)" "td_state (tds u2 ! a) = REPLY_BLOCKED"
    "\<And>u. u < 64 \<Longrightarrow> td_message_params (tds u2 ! u) = td_message_params (tds s2 ! u) \<and>
       td_tid (tds u2 ! u) = td_tid (tds s2 ! u) \<and> td_sp (tds u2 ! u) = td_sp (tds s2 ! u) \<and>
       td_priority (tds u2 ! u) = td_priority (tds s2 ! u)"
    "mem u2 = m(from_addr := of_nat a)"
    by (rule kernel_receive_delivered [where m = m and msg = buf and tid = from_addr, OF s2(1,2) P(2)])
      (use m(1) P(1) in simp_all)
  with receive have t2: "v2 = of_nat a" "t2 = u2" by simp_all
  have buf: "bytes_at (mem u2) buf (unat len) = bytes_at m buf (unat len)"
    using s2(6) u2(4) by (intro bytes_at_cong) auto
  let ?Q = "td_message_params (tds s3 ! a)"
  have Q: "td_state (tds s3 ! a) = REPLY_BLOCKED" "mp_rep ?Q = rep" "mp_rep_len ?Q = rlen"
    using s3(3) t2(2) u2(2) u2(3) [OF a(2)] P by (simp_all add: undisturbed_def)
  obtain n where n: "memcpy (mem s3) rep ans rlen = Some n" "bytes_at n rep (unat rlen) = bytes_at (mem s3) ans (unat rlen)"
    by (rule memcpy_copies [OF s3(4,5)])
  have ua: "unat (of_nat a :: u8) = a" using a(2) by (simp add: unsigned_of_nat take_bit_nat_eq_self)
  obtain u3 where u3: "kernel_reply b (of_nat a) ans rlen s3 = Some (0, u3)"
    "tds u3 = (tds s3)[a := (tds s3 ! a)\<lparr>td_state := READY\<rparr>, b := (tds s3 ! b)\<lparr>td_state := READY\<rparr>]"
    "mem u3 = store32 n (td_sp (tds s3 ! a)) 0"
    by (rule kernel_reply_delivered [OF s3(1,2) ua Q(1,3)]) (use n(1) Q(2) in simp_all)
  with reply have t3: "v3 = 0" "t3 = u3" by simp_all
  have "bytes_at (mem u3) rep (unat rlen) = bytes_at n rep (unat rlen)"
    using s3(6) unfolding u3(3) by (intro bytes_at_cong store32_outside) auto
  moreover have "td_state (tds u3 ! a) = READY"
    using u3(2) a(2) runningD(6) [OF s3(1)] by (simp add: nth_list_update_if)
  ultimately show ?thesis
    using t1 t2 t3 u1(2) u2(2,4) u3(3) buf m(2) n(2) by simp
qed

text \<open>In the example, task 0 sends 8 bytes to task 1, which receives them and answers with 4.\<close>

lemma demo_exchange:
  obtains s1 t2 s3 t3 where "kernel_send 0 1 0x3000 8 0x3010 4 (demo READY) = Some (0, s1)"
    "running s1 ((\<lambda>_. [])(SendQ 1 := [0])) 1"
    "kernel_receive 1 0x4000 0x4010 8 s1 = Some (0, t2)" "scheduler_get t2 = Some (Some 1, s3)"
    "running s3 (\<lambda>_. []) 1" "tds s3 = tds t2" "next_free_td s3 = next_free_td (demo READY)"
    "td_sp (tds s3 ! 0) = td_sp (tds (demo READY) ! 0)" "kernel_reply 1 0 0x4020 4 s3 = Some (0, t3)"
proof -
  obtain s1 where s1: "kernel_send 0 1 0x3000 8 0x3010 4 (demo READY) = Some (0, s1)"
    "running s1 ((\<lambda>_. [])(SendQ 1 := [0])) 1"
    "td_message_params (tds s1 ! 0) = \<lparr>mp_tid = 0, mp_msg = 0x3000, mp_msg_len = 8, mp_rep = 0x3010, mp_rep_len = 4\<rparr>"
    "td_priority (tds s1 ! 1) = 3"
    by (rule demo_sent)
  have pre: "1 < unat (next_free_td (demo READY))" "unat (1 :: u8) = 1"
    "td_state (tds (demo READY) ! 1) \<noteq> SEND_BLOCKED"
    by (simp_all add: demo_simps demo_td_def)
  have k1: "next_free_td s1 = next_free_td (demo READY)" "td_sp (tds s1 ! 0) = td_sp (tds (demo READY) ! 0)"
    by (rule kernel_send_queued [OF demo_running pre, where msg = "0x3000" and len = 8 and rep = "0x3010" and rlen = 4];
        use s1(1) in simp)+
  obtain m where m: "memcpy (mem s1) 0x4010 0x3000 8 = Some m" using memcpy_total [of 8] by fastforce
  obtain t2 where t2: "kernel_receive 1 0x4000 0x4010 8 s1 = Some (of_nat 0, t2)"
    "krep t2 (enqueue_ready s1 [1] ((\<lambda>_. [])(SendQ 1 := [0], SendQ 1 := [])))"
    "td_state (tds t2 ! 0) = REPLY_BLOCKED" "td_state (tds t2 ! 1) = READY"
    "\<And>u. u < 64 \<Longrightarrow> td_message_params (tds t2 ! u) = td_message_params (tds s1 ! u) \<and>
       td_tid (tds t2 ! u) = td_tid (tds s1 ! u) \<and> td_sp (tds t2 ! u) = td_sp (tds s1 ! u) \<and>
       td_priority (tds t2 ! u) = td_priority (tds s1 ! u)"
    "next_free_td t2 = next_free_td s1"
    by (rule kernel_receive_delivered [where t = 0 and ts = "[]" and m = m and msg = "0x4010" and len = 8
          and tid = "0x4000", OF s1(2)])
      (use m s1(3) in simp_all)
  have L: "enqueue_ready s1 [1] ((\<lambda>_. [])(SendQ 1 := [0], SendQ 1 := [])) = (\<lambda>_. [])(ReadyQ 3 := [1])"
    using s1(4) by (auto simp: enqueue_ready_def)
  obtain s3 where s3: "scheduler_get t2 = Some (Some 1, s3)" "krep s3 (((\<lambda>_. [])(ReadyQ 3 := [1]))(ReadyQ 3 := []))"
    "s3 = t2\<lparr>nodes := nodes s3, sch := sch s3\<rparr>"
    by (rule scheduler_get_krep [OF t2(2) [unfolded L], of 3 1 "[]"]) auto
  have fr: "tds s3 = tds t2" "next_free_td s3 = next_free_td t2"
    using s3(3) [THEN arg_cong, of tds] s3(3) [THEN arg_cong, of next_free_td] by simp_all
  have "((\<lambda>_. [])(ReadyQ 3 := [1]))(ReadyQ 3 := []) = (\<lambda>_. [] :: nat list)" by auto
  with s3(2) fr t2(4,6) k1(1) have run3: "running s3 (\<lambda>_. []) 1"
    by (simp add: running_def floats_def demo_simps)
  have p3: "td_state (tds s3 ! 0) = REPLY_BLOCKED" "mp_rep_len (td_message_params (tds s3 ! 0)) = 4"
    using fr t2(3) t2(5) [of 0] s1(3) by simp_all
  obtain n where n: "memcpy (mem s3) (mp_rep (td_message_params (tds s3 ! 0))) 0x4020 4 = Some n"
    using memcpy_total [of 4] by fastforce
  have "0 < unat (next_free_td s3)" using fr(2) t2(6) k1(1) by (simp add: demo_simps)
  from kernel_reply_delivered [OF run3 this _ p3 n, of 0] obtain t3 where
    "kernel_reply 1 0 0x4020 4 s3 = Some (0, t3)" by auto
  with s1(1,2) t2(1) s3(1) run3 fr t2(5) [of 0] t2(6) k1 show ?thesis by (intro that) simp_all
qed

theorem message_exchange_witness:
  "\<exists>s1 t2 s3 t3. kernel_send 0 1 0x3000 8 0x3010 4 (demo READY) = Some (0, s1) \<and>
     kernel_receive 1 0x4000 0x4010 8 s1 = Some (0, t2) \<and> scheduler_get t2 = Some (Some 1, s3) \<and>
     kernel_reply 1 0 0x4020 4 s3 = Some (0, t3) \<and> bytes_at (mem t2) 0x4010 8 = bytes_at (mem s1) 0x3000 8 \<and>
     bytes_at (mem t3) 0x3010 4 = bytes_at (mem s3) 0x4020 4 \<and> td_state (tds t3 ! 0) = READY"
proof -
  obtain s1 t2 s3 t3 where e: "kernel_send 0 1 0x3000 8 0x3010 4 (demo READY) = Some (0, s1)"
    "running s1 ((\<lambda>_. [])(SendQ 1 := [0])) 1"
    "kernel_receive 1 0x4000 0x4010 8 s1 = Some (0, t2)" "scheduler_get t2 = Some (Some 1, s3)"
    "running s3 (\<lambda>_. []) 1" "tds s3 = tds t2" "next_free_td s3 = next_free_td (demo READY)"
    "td_sp (tds s3 ! 0) = td_sp (tds (demo READY) ! 0)" "kernel_reply 1 0 0x4020 4 s3 = Some (0, t3)"
    by (rule demo_exchange)
  have sp: "td_sp (tds (demo READY) ! 0) = MEM_TASK_STACK_START 0 - 56"
    by (simp add: demo_def fresh_td_def)
  have "bytes_at (mem t2) 0x4010 (unat (8 :: u32)) = bytes_at (mem s1) 0x3000 (unat (8 :: u32)) \<and>
    bytes_at (mem t3) 0x3010 (unat (4 :: u32)) = bytes_at (mem s3) 0x4020 (unat (4 :: u32)) \<and> td_state (tds t3 ! 0) = READY"
    using message_exchange [OF demo_running [of READY], where b = 1 and tid = 1 and msg = "0x3000" and len = 8
        and rep = "0x3010" and rlen = 4 and buf = "0x4010" and from_addr = "0x4000" and ans = "0x4020" and ts = "[]"
        and ?s2.0 = s1 and ?t1.0 = s1 and ?s3.0 = s3 and ?t2.0 = t2 and ?t3.0 = t3 and ?v1.0 = 0 and ?v2.0 = 0 and ?v3.0 = 0
        and ?L2.0 = "(\<lambda>_. [])(SendQ 1 := [0])" and ?L3.0 = "\<lambda>_. []"] e
    by (simp add: demo_simps demo_td_def undisturbed_def demo_range demo_range4 addr_range_4 sp
        task_stack_defs)
  with e show ?thesis by auto
qed

end
