(* ===== verification/IdleTask.thy ===== *)
theory IdleTask
  imports KernelEvents
begin

text \<open>
  The idle task \<^verbatim>\<open>idle_main\<close> of \<^verbatim>\<open>src/main.c\<close>. It polls a flag in its own stack that the kernel writes
  (\<open>update_idle_task\<close>) whenever it schedules the task, and prints the time that was not idle when
  the flag is set. What runs between two polls (the task is preempted by every interrupt) is the
  parameter \<open>rest\<close>.
\<close>

partial_function (option) idle_wait ::
  "('a machine_scheme \<Rightarrow> 'a machine_scheme) \<Rightarrow> 'a machine_scheme \<Rightarrow> 'a machine_scheme option"
where
  "idle_wait rest s = (if mem s idle_exit_addr \<noteq> 0 then Some s else idle_wait rest (rest s))"

text \<open>Up to the final call of \<open>Exit\<close>, which does not come back.\<close>

definition idle_main ::
  "('a machine_scheme \<Rightarrow> 'a machine_scheme) \<Rightarrow> 'a machine_scheme \<Rightarrow> 'a machine_scheme option"
where
  "idle_main rest s = do {
     s \<leftarrow> idle_wait rest s;
     let (t, s) = clock s;
     bwprintf COM2 (cstr (''Non-idle time: %u/%u'' @ [CHR 0x0A, CHR 0x0D]))
       [VaWord (load32 (mem s) non_idle_time_addr), VaWord (ucast t)] s
   }"

subsection \<open>The wait ends when the flag is seen\<close>

lemma idle_wait_set: "mem s idle_exit_addr \<noteq> 0 \<Longrightarrow> idle_wait rest s = Some s"
  by (simp add: idle_wait.simps)

lemma idle_wait_steps:
  "mem ((rest ^^ n) s) idle_exit_addr \<noteq> 0 \<Longrightarrow>
     \<exists>k\<le>n. idle_wait rest s = Some ((rest ^^ k) s) \<and> mem ((rest ^^ k) s) idle_exit_addr \<noteq> 0"
proof (induction n arbitrary: s)
  case (Suc n)
  show ?case
  proof (cases "mem s idle_exit_addr = 0")
    case True
    with Suc.IH [of "rest s"] Suc.prems obtain k where
      "k \<le> n" "idle_wait rest (rest s) = Some ((rest ^^ k) (rest s))" "mem ((rest ^^ k) (rest s)) idle_exit_addr \<noteq> 0"
      by (auto simp: funpow_swap1)
    with True show ?thesis
      by (intro exI [of _ "Suc k"]) (simp add: idle_wait.simps [of rest s] funpow_swap1)
  qed (auto simp: idle_wait_set intro: exI [of _ 0])
qed (auto simp: idle_wait_set)

lemma idle_wait_result:
  assumes "idle_wait rest s = Some s'"
  shows "\<exists>n. s' = (rest ^^ n) s \<and> mem s' idle_exit_addr \<noteq> 0"
proof (rule idle_wait.raw_induct
    [where P = "\<lambda>rest s s'. \<exists>n. s' = (rest ^^ n) s \<and> mem s' idle_exit_addr \<noteq> 0", OF _ assms])
  fix wait :: "('a machine_scheme \<Rightarrow> 'a machine_scheme) \<Rightarrow> 'a machine_scheme \<Rightarrow> 'a machine_scheme option"
    and rest s s'
  assume IH: "\<And>rest s s'. wait rest s = Some s' \<Longrightarrow> \<exists>n. s' = (rest ^^ n) s \<and> mem s' idle_exit_addr \<noteq> 0"
    and step: "(if mem s idle_exit_addr \<noteq> 0 then Some s else wait rest (rest s)) = Some s'"
  show "\<exists>n. s' = (rest ^^ n) s \<and> mem s' idle_exit_addr \<noteq> 0"
  proof (cases "mem s idle_exit_addr = 0")
    case True
    with IH [of rest "rest s" s'] step obtain n where
      "s' = (rest ^^ n) (rest s)" "mem s' idle_exit_addr \<noteq> 0" by auto
    then show ?thesis by (intro exI [of _ "Suc n"]) (simp add: funpow_swap1)
  next
    case False
    with step show ?thesis by (intro exI [of _ 0]) simp
  qed
qed

text \<open>The wait ends if and only if some poll finds the flag set.\<close>

theorem idle_wait_ends:
  "(\<exists>s'. idle_wait rest s = Some s') = (\<exists>n. mem ((rest ^^ n) s) idle_exit_addr \<noteq> 0)"
  using idle_wait_steps idle_wait_result by fast

subsection \<open>The flag that the kernel leaves\<close>

lemma update_idle_task_flag: "mem (update_idle_task ctx) idle_exit_addr = of_bool (event_handler_empty ctx)"
proof -
  have "idle_exit_addr \<notin> addr_range non_idle_time_addr 4"
  proof
    assume "idle_exit_addr \<in> addr_range non_idle_time_addr 4"
    then obtain i where i: "i < 4" "idle_exit_addr = non_idle_time_addr + of_nat i"
      by (auto simp: addr_range_def)
    then have "(of_nat i :: u32) = of_nat 4"
      by (simp add: idle_exit_addr_def non_idle_time_addr_def algebra_simps)
    with i(1) show False by (subst (asm) of_nat_u32_inj) simp_all
  qed
  then show ?thesis
    by (simp add: update_idle_task_def clock_def reg_read_def Let_def store32_outside)
qed

text \<open>
  The idle task goes past its wait at the first poll after the kernel has scheduled it while no task
  waited for an event, and not before then.
\<close>

theorem idle_task_stops:
  "event_handler_empty ctx \<Longrightarrow> idle_wait rest (update_idle_task ctx) = Some (update_idle_task ctx)"
  "\<not> event_handler_empty ctx \<Longrightarrow>
     idle_wait rest (update_idle_task ctx) = idle_wait rest (rest (update_idle_task ctx))"
  by (simp_all add: idle_wait_set update_idle_task_flag idle_wait.simps [of rest "update_idle_task ctx"])

end
