(* ===== verification/MemoryLayout.thy ===== *)
theory MemoryLayout
  imports TaskLife IdleTask
begin

text \<open>
  The memory layout of \<^verbatim>\<open>include/internal/mem.h\<close>: the kernel's stack at the top of RAM and below it one stack of
  8 KB for each task, with the two words that the kernel shares with the idle task inside that task's stack.
\<close>

definition task_stack :: "u32 \<Rightarrow> u32 set" where
  "task_stack t = {MEM_TASK_STACK_START t - MEM_TASK_STACK_SIZE ..< MEM_TASK_STACK_START t}"

definition kernel_stack :: "u32 set" where
  "kernel_stack = {stack_start - MEM_KERNEL_STACK_SIZE ..< stack_start}"

text \<open>Without wrap-around, the stack of task \<open>t\<close> ends at \<open>0x1FDB000 - 0x2000 * t\<close>.\<close>

lemma uint_stack_start: "unat t < 64 \<Longrightarrow> unat (MEM_TASK_STACK_START t) = 0x1FDB000 - 0x2000 * unat t"
proof -
  assume t: "unat t < 64"
  have "unat (0x2000 * t :: u32) = 0x2000 * unat t"
    using t by (subst unat_mult_lem [THEN iffD1]) simp_all
  moreover have "0x2000 * unat t \<le> 0x1FDB000" using t by linarith
  then have "0x2000 * t \<le> (0x1FDB000 :: u32)" using calculation by (simp add: word_le_nat_alt)
  ultimately show ?thesis
    by (simp add: task_stack_defs unat_sub)
qed

lemma task_stack_bounds:
  assumes "unat t < 64"
  shows "a \<in> task_stack t \<longleftrightarrow> 0x1FD9000 - 0x2000 * unat t \<le> unat a \<and> unat a < 0x1FDB000 - 0x2000 * unat t"
proof -
  have s: "unat (MEM_TASK_STACK_START t) = 0x1FDB000 - 0x2000 * unat t" by (rule uint_stack_start [OF assms])
  then have "0x2000 \<le> MEM_TASK_STACK_START t" using assms by (simp add: word_le_nat_alt)
  then have "unat (MEM_TASK_STACK_START t - 0x2000) = 0x1FD9000 - 0x2000 * unat t"
    using s by (simp add: unat_sub)
  with s show ?thesis by (simp add: task_stack_def MEM_TASK_STACK_SIZE_def word_le_nat_alt word_less_nat_alt)
qed

lemma kernel_stack_bounds: "a \<in> kernel_stack \<longleftrightarrow> 0x1FDB000 \<le> unat a \<and> unat a < 0x1FDD000"
  by (simp add: kernel_stack_def stack_start_def MEM_KERNEL_STACK_SIZE_def word_le_nat_alt word_less_nat_alt)

text \<open>
  C26: The stacks do not overlap: those of two tasks of the 64 have no byte in common, nor has any with the
  kernel's stack, and all lie in the board's RAM above the first 31 MB; the word and the flag that the kernel
  writes for the idle task lie in the idle task's own stack.
\<close>

theorem task_stacks_disjoint:
  assumes "unat t < 64" and "unat u < 64" and "t \<noteq> u"
  shows "task_stack t \<inter> task_stack u = {} \<and> task_stack t \<inter> kernel_stack = {} \<and>
    task_stack t \<subseteq> {0x1F5B000 ..< stack_start} \<and>
    insert idle_exit_addr (addr_range non_idle_time_addr 4) \<subseteq> task_stack (ucast IDLE_TASK_TID)"
proof -
  have ne: "unat t \<noteq> unat u" using assms(3) by (simp add: word_unat_eq_iff)
  have "\<not> (a \<in> task_stack t \<and> a \<in> task_stack u)" for a
    using ne unfolding task_stack_bounds [OF assms(1)] task_stack_bounds [OF assms(2)] using assms(1,2) by linarith
  moreover have "task_stack t \<inter> kernel_stack = {}"
    using task_stack_bounds [OF assms(1)] kernel_stack_bounds by fastforce
  moreover have "task_stack t \<subseteq> {0x1F5B000 ..< stack_start}"
    using task_stack_bounds [OF assms(1)] assms(1)
    by (auto simp: stack_start_def word_le_nat_alt word_less_nat_alt)
  moreover have "insert idle_exit_addr (addr_range non_idle_time_addr 4) \<subseteq> task_stack (ucast IDLE_TASK_TID)"
    by (auto simp: addr_range_4 task_stack_def MEM_TASK_STACK_SIZE_def idle_exit_addr_def non_idle_time_addr_def
        task_stack_defs IDLE_TASK_TID_def)
  ultimately show ?thesis by blast
qed

theorem task_stacks_disjoint_witness:
  "task_stack 3 \<inter> task_stack 4 = {} \<and> 0x1FD4FFC \<in> task_stack 3"
  using task_stacks_disjoint [of 3 4]
  by (simp add: task_stack_def MEM_TASK_STACK_SIZE_def task_stack_defs)

end
