(* ===== verification/Limits.thy ===== *)
theory Limits
  imports TaskLife ClockTheorems IoTheorems
begin

text \<open>
  Behaviours of the code at the edge of its contract: what an unexpected interrupt does, and runs
  of the servers in which a client waits longer than it asked for, or for ever. They show where the
  hypotheses of the theorems (\<open>irq_expected\<close>, the admissible requests) come from. At the end, the
  placeholder for the user's program.
\<close>

subsection \<open>The panic for an unexpected interrupt does not stop the kernel\<close>

text \<open>The panic clears the bit map, and then the interrupted task is put back, which sets a bit again.\<close>

lemma scheduler_put_nonempty:
  assumes "scheduler_put t s = Some (0, s')" "unat (td_priority (tds s ! t)) < 64"
  shows "\<not> scheduler_empty s'"
proof -
  from assms(1) obtain b where b: "bitmap (sch s') = b OR push_bit (unat (td_priority (tds s ! t))) 1"
    by (auto simp: scheduler_put_def td_get_def td_update_def Let_def arr_get_def split: Option.bind_splits if_splits)
  have "bit (bitmap (sch s')) (unat (td_priority (tds s ! t)))"
    using assms(2) by (simp add: b bit_simps)
  then show ?thesis by (auto simp: scheduler_empty_def)
qed

text \<open>Putting the task back works the same with the cleared bit map.\<close>

lemma put_after_clear:
  assumes "running s L a"
  shows "\<exists>s'. scheduler_put a (s\<lparr>sch := (sch s)\<lparr>bitmap := 0\<rparr>, io := l\<rparr>) = Some (0, s')"
proof -
  obtain s1 where "scheduler_put a s = Some (0, s1)" by (rule put_active [OF assms])
  then show ?thesis
    by (auto simp: scheduler_put_def td_get_def td_update_def Let_def split: Option.bind_splits if_splits)
qed

lemma unexpected_interrupt_goes_on:
  assumes run: "running s L a" and irq: "load32 (mem s) (irq_stack_start s) \<noteq> 0"
    and live: "uart_tx_live UART2_BASE (dev s)"
    and ev: "dev s (VIC2_BASE + VIC_VEC_ADDR_OFFSET) (io s) \<notin> {SYS_CALL_EVENT_TIMER, SYS_CALL_EVENT_UART1, SYS_CALL_EVENT_UART2}"
  shows "\<exists>s'. handle a req s = Some (False, s') \<and> \<not> scheduler_empty s'"
proof -
  note r = runningD [OF run]
  let ?p = "unat (td_priority (tds s ! a))"
  have p: "?p < 64" using r(7) by (simp add: td_ok_def)
  let ?t = "cstr ''kernel handle got unexpected interrupt''"
  have chars: "0 \<notin> set ?t" by (simp add: cstr_def of_char_def)
  obtain l where l: "handle_irq a s = do {
      ctx \<leftarrow> kernel_panic a ?t (s\<lparr>io := l\<rparr>); (_, ctx) \<leftarrow> scheduler_put a ctx; Some (False, ctx) }"
    using ev by (auto simp: handle_irq_def reg_rw_io split_def)
  have "uart_tx_live UART2_BASE (dev (s\<lparr>io := l\<rparr>))" using live by simp
  then obtain es where es: "kernel_panic a ?t (s\<lparr>io := l\<rparr>) =
      Some ((s\<lparr>io := l\<rparr>)\<lparr>sch := (sch (s\<lparr>io := l\<rparr>))\<lparr>bitmap := 0\<rparr>, io := io (s\<lparr>io := l\<rparr>) @ es\<rparr>)"
    using chars by (rule kernel_panic_spec)
  let ?s = "s\<lparr>sch := (sch s)\<lparr>bitmap := 0\<rparr>, io := l @ es\<rparr>"
  obtain s' where s': "scheduler_put a ?s = Some (0, s')" using put_after_clear [OF run] by blast
  have "handle a req s = Some (False, s')" using irq l es s' by (simp add: handle_def)
  moreover have "\<not> scheduler_empty s'" by (rule scheduler_put_nonempty [OF s']) (simp add: p)
  ultimately show ?thesis by blast
qed

subsection \<open>The clock server releases one task per tick\<close>

text \<open>
  Tasks 1, 2 and 4 wait for the same time 5 and the time is 5; task 3 is the notifier. The next three
  ticks wake one task each, the last one two ticks late.
\<close>

lemma same_deadline_late:
  "snd (service_run cs_spec (5, [(5, 1), (5, 2), (5, 4)]) [(3, clock_req 0 0), (3, clock_req 0 0), (3, clock_req 0 0)]) =
    [(3, ClockMsg (clock_req 0 0)), (1, ClockMsg (clock_req 0 6)),
     (3, ClockMsg (clock_req 0 0)), (2, ClockMsg (clock_req 0 7)),
     (3, ClockMsg (clock_req 0 0)), (4, ClockMsg (clock_req 0 8))]"
  by (simp add: clock_type_defs cs_spec_def tick_spec_def release_spec_def Let_def)

subsection \<open>The I/O server remembers one waiting reader\<close>

text \<open>Tasks 5 and 6 wait for a character. The next one goes to task 6, and task 5 is forgotten.\<close>

lemma second_reader_wins:
  "service_run (io_spec 0) io_start [(5, io_req 1 [0]), (6, io_req 1 [0]), (7, io_req 3 [33])] =
    (io_start, [(6, IoMsg (io_req 3 [33])), (7, IoMsg ((io_req 3 [33])\<lparr>ism_len := 0\<rparr>))])"
  by (simp add: io_eval)

subsection \<open>The I/O server hangs at shutdown when the transmit notifier is idle\<close>

text \<open>
  The loop that ends the notifiers waits for a message of each, but an idle transmit notifier has
  sent its message already and waits for the answer. When only the receive notifier sends again, the
  server never returns.
\<close>

lemma exit_notifiers_starves:
  assumes "pending w (map (apsnd IoMsg) (ds @ [(n, m)]))" "\<forall>(t, m)\<in>set ds. \<not> io_is_notif m" "io_is_notif m"
    "replies_return w"
  shows "exit_notifiers 0 st w = None"
proof -
  obtain st' w' where *: "exit_notifiers 0 st w = exit_notifiers 1 st' w'" "pending w' []"
    using exit_notifiers_next [of w ds n m "[]" 0 st] assms by auto
  from *(2) have "sys w' CReceive (trace w') = None" by (auto simp: pending_def inbox_def)
  then have "exit_notifiers 1 st' w' = None" by (subst exit_notifiers.simps) (simp add: Receive_def)
  with *(1) show ?thesis by simp
qed

subsection \<open>Task 1 cannot be looked up\<close>

text \<open>\<open>WhoIs\<close> takes the answer 1 for \<open>not registered\<close>: as long as it is answered with the id 1, it asks again.\<close>

lemma whois_never_returns_1:
  assumes "\<forall>c h. sys w c h = Some \<lparr>o_ret = 0, o_from = f, o_data = IntMsg 1\<rparr>"
  shows "WhoIs name w = None"
proof (rule ccontr)
  let ?all = "\<lambda>w. \<forall>c h. sys w c h = Some \<lparr>o_ret = 0, o_from = f, o_data = IntMsg 1\<rparr>"
  have "\<not> ?all w" if "whois_loop msg w = Some r" for msg w r
  proof (rule whois_loop.raw_induct [where P = "\<lambda>msg w r. \<not> ?all w", OF _ that])
    fix loop msg w r
    assume IH: "\<And>msg w r. loop msg w = Some r \<Longrightarrow> \<not> ?all w"
      and eq: "(do { (res, rep, w) \<leftarrow> Send NAME_SERVER_TID (NameMsg msg) 4 w;
        if res \<noteq> 0 then Some (name_error res, say ''Unable to register with name_server'' [] w)
        else (case rep of Some (IntMsg rep) \<Rightarrow> if rep = 1 then loop msg w else Some (rep, w) | _ \<Rightarrow> None) }) = Some r"
    show "\<not> ?all w"
    proof
      assume all: "?all w"
      let ?w = "did (EvSend NAME_SERVER_TID (NameMsg msg) 0 (Some (IntMsg 1))) w"
      have "loop msg ?w = Some r" using eq all by (simp add: Send_def)
      from IH [OF this] all show False by simp
    qed
  qed
  moreover assume "WhoIs name w \<noteq> None"
  ultimately show False using assms unfolding WhoIs_def by blast
qed

subsection \<open>The user task\<close>

text \<open>
  \<^verbatim>\<open>user/src/user_main.c\<close>, the placeholder for a user's program: an endless loop and, behind it, \<open>Exit\<close>. The
  task never gets to its \<open>Exit\<close>; that the kernel goes on nevertheless is a matter of the timer interrupts.
\<close>

partial_function (option) user_wait :: "world \<Rightarrow> world option" where
  "user_wait w = (if True then user_wait w else Some w)"

definition user_main :: "world \<Rightarrow> world option" where
  "user_main w = do { w \<leftarrow> user_wait w; Some (Exit w) }"

lemma user_wait_never_ends: "user_wait w = None"
proof -
  have "user_wait w = Some w' \<Longrightarrow> False" for w'
    by (rule user_wait.raw_induct [where P = "\<lambda>_ _. False"]) (auto split: if_splits)
  then show ?thesis by (cases "user_wait w") auto
qed

theorem user_main_never_exits: "user_main w = None"
  by (simp add: user_main_def user_wait_never_ends)

end
