(* ===== verification/Messages.thy ===== *)
theory Messages
  imports TaskLife IoTheorems
begin

text \<open>
  Messages in memory. The servers and their clients (\<open>TaskWorld\<close> and the theories above it) exchange typed
  messages, the kernel copies bytes. Here the two views are joined: how each structure lies in memory,
  that storing and reading it are inverse, that the functions which build a message in memory build the typed
  message of the servers' model, and that the kernel's calls, which know nothing of types, do for
  typed messages what \<open>Send\<close>, \<open>Receive\<close> and \<open>Reply\<close> of \<open>TaskWorld\<close> say.

  The layouts are those of the ARM procedure call standard: fields at multiples of their alignment, words in
  little endian order, an enumeration in a word. The structure of the I/O server has one byte of padding
  (offset 35), which no field reads and storing leaves as it is.
\<close>

subsection \<open>Layouts\<close>

datatype layout = NameLayout | IntLayout | ClockLayout | IoLayout | ByteLayout | NoLayout

fun layout_of :: "message \<Rightarrow> layout" where
  "layout_of (NameMsg _) = NameLayout"
| "layout_of (IntMsg _) = IntLayout"
| "layout_of (ClockMsg _) = ClockLayout"
| "layout_of (IoMsg _) = IoLayout"
| "layout_of (ByteMsg _) = ByteLayout"
| "layout_of NoMsg = NoLayout"

fun layout_size :: "layout \<Rightarrow> nat" where
  "layout_size NameLayout = 16"
| "layout_size IntLayout = 4"
| "layout_size ClockLayout = 8"
| "layout_size IoLayout = 40"
| "layout_size ByteLayout = 1"
| "layout_size NoLayout = 0"

lemma layout_size_of [simp]: "layout_size (layout_of M) = msg_size M"
  by (cases M) simp_all

text \<open>The arrays of a typed message have the lengths of the C structures.\<close>

fun well_typed :: "message \<Rightarrow> bool" where
  "well_typed (NameMsg x) \<longleftrightarrow> length (nsm_name x) = NAME_SERVER_MAX_NAME_LEN"
| "well_typed (IoMsg x) \<longleftrightarrow> length (ism_data x) = IO_SERVER_MSG_MAX_DATA_LEN"
| "well_typed _ \<longleftrightarrow> True"

definition store_bytes :: "(u32 \<Rightarrow> u8) \<Rightarrow> u32 \<Rightarrow> u8 list \<Rightarrow> (u32 \<Rightarrow> u8)" where
  "store_bytes m a xs = overlay m a 0 (length xs) (\<lambda>k. xs ! k)"

fun store_msg :: "message \<Rightarrow> (u32 \<Rightarrow> u8) \<Rightarrow> u32 \<Rightarrow> (u32 \<Rightarrow> u8)" where
  "store_msg (NameMsg x) m a = store_bytes (store32 m a (nsm_type x)) (a + 4) (nsm_name x)"
| "store_msg (IntMsg i) m a = store32 m a i"
| "store_msg (ClockMsg x) m a = store32 (store32 m a (csm_type x)) (a + 4) (csm_time x)"
| "store_msg (IoMsg x) m a =
     store32 (store_bytes (store32 m a (ism_type x)) (a + 4) (ism_data x)) (a + 36) (ism_len x)"
| "store_msg (ByteMsg b) m a = m(a := b)"
| "store_msg NoMsg m a = m"

fun read_msg :: "layout \<Rightarrow> (u32 \<Rightarrow> u8) \<Rightarrow> u32 \<Rightarrow> message" where
  "read_msg NameLayout m a = NameMsg \<lparr>nsm_type = load32 m a, nsm_name = bytes_at m (a + 4) 12\<rparr>"
| "read_msg IntLayout m a = IntMsg (load32 m a)"
| "read_msg ClockLayout m a = ClockMsg \<lparr>csm_type = load32 m a, csm_time = load32 m (a + 4)\<rparr>"
| "read_msg IoLayout m a =
     IoMsg \<lparr>ism_type = load32 m a, ism_data = bytes_at m (a + 4) 31, ism_len = load32 m (a + 36)\<rparr>"
| "read_msg ByteLayout m a = ByteMsg (m a)"
| "read_msg NoLayout m a = NoMsg"

text \<open>\<open>holds m a M\<close>: the typed message \<open>M\<close> lies at the address \<open>a\<close>.\<close>

definition holds :: "(u32 \<Rightarrow> u8) \<Rightarrow> u32 \<Rightarrow> message \<Rightarrow> bool" where
  "holds m a M \<longleftrightarrow> read_msg (layout_of M) m a = M"

subsection \<open>Fields\<close>

lemma addr_range_sub: "i + n \<le> k \<Longrightarrow> k \<le> 2 ^ 32 \<Longrightarrow> addr_range (a + of_nat i) n \<subseteq> addr_range a k"
  by (auto simp: addr_range_def image_iff Bex_def) (metis add.assoc add_less_cancel_left of_nat_add order_less_le_trans)

lemma fields_disjoint:
  assumes "i + n \<le> j" "j + k \<le> 2 ^ 32"
  shows "addr_range (a + of_nat i) n \<inter> addr_range (a + of_nat j) k = {}"
proof -
  have "a + of_nat i + of_nat x \<noteq> a + of_nat j + of_nat y" if "x < n" "y < k" for x y
  proof
    assume "a + of_nat i + of_nat x = a + of_nat j + of_nat y"
    then have "(of_nat (i + x) :: u32) = of_nat (j + y)" by simp
    then show False using assms that of_nat_u32_inj [of "i + x" "j + y"] by simp
  qed
  then show ?thesis by (auto simp: addr_range_def)
qed

lemma fields [simp]:
  "addr_range (a :: u32) 4 \<inter> addr_range (a + 4) 12 = {}" "addr_range (a :: u32) 4 \<inter> addr_range (a + 4) 4 = {}"
  "addr_range (a :: u32) 4 \<inter> addr_range (a + 4) 31 = {}" "addr_range (a :: u32) 4 \<inter> addr_range (a + 36) 4 = {}"
  "addr_range (a + 4 :: u32) 31 \<inter> addr_range (a + 36) 4 = {}"
  using fields_disjoint [of 0 4 4 12 a] fields_disjoint [of 0 4 4 4 a] fields_disjoint [of 0 4 4 31 a]
    fields_disjoint [of 0 4 36 4 a] fields_disjoint [of 4 31 36 4 a] by simp_all

lemma load32_store_bytes [simp]:
  "length xs \<le> 2 ^ 32 \<Longrightarrow> addr_range b 4 \<inter> addr_range a (length xs) = {} \<Longrightarrow>
     load32 (store_bytes m a xs) b = load32 m b"
  unfolding store_bytes_def by (rule load32_cong, rule overlay_outside) auto

lemma bytes_at_store_bytes [simp]:
  "length xs = n \<Longrightarrow> n \<le> 2 ^ 32 \<Longrightarrow> bytes_at (store_bytes m a xs) a n = xs"
  by (auto simp: store_bytes_def bytes_at_overlay map_nth)

lemma bytes_at_store32 [simp]:
  "addr_range b n \<inter> addr_range a 4 = {} \<Longrightarrow> bytes_at (store32 m a w) b n = bytes_at m b n"
  by (intro bytes_at_cong store32_outside) auto

lemma store_msg_outside:
  assumes "well_typed M" "b \<notin> addr_range a (msg_size M)"
  shows "store_msg M m a b = m b"
  using assms
  by (cases M) (auto simp: store_bytes_def NAME_SERVER_MAX_NAME_LEN_def IO_SERVER_MSG_MAX_DATA_LEN_def addr_range_Suc
    intro!: store32_outside [THEN trans] overlay_outside [THEN trans]
    dest: subsetD [OF addr_range_sub [of 0 4 8 a, simplified]] subsetD [OF addr_range_sub [of 4 4 8 a, simplified]]
      subsetD [OF addr_range_sub [of 0 4 16 a, simplified]] subsetD [OF addr_range_sub [of 4 12 16 a, simplified]]
      subsetD [OF addr_range_sub [of 0 4 40 a, simplified]] subsetD [OF addr_range_sub [of 4 31 40 a, simplified]]
      subsetD [OF addr_range_sub [of 36 4 40 a, simplified]])

lemma read_store_msg: "well_typed M \<Longrightarrow> read_msg (layout_of M) (store_msg M m a) a = M"
proof (cases M)
  case (NameMsg x)
  then show "well_typed M \<Longrightarrow> ?thesis" by (simp add: NAME_SERVER_MAX_NAME_LEN_def)
next
  case (ClockMsg x)
  then show ?thesis by (simp add: load32_store32_outside)
next
  case (IoMsg x)
  then show "well_typed M \<Longrightarrow> ?thesis" by (simp add: IO_SERVER_MSG_MAX_DATA_LEN_def load32_store32_outside)
qed simp_all


lemma layout_of_read [simp]: "layout_of (read_msg L m a) = L"
  by (cases L) simp_all

lemma typed_read [simp]: "well_typed (read_msg L m a)"
  by (cases L) (simp_all add: NAME_SERVER_MAX_NAME_LEN_def IO_SERVER_MSG_MAX_DATA_LEN_def)

lemma holds_read [simp]: "holds m a (read_msg L m a)"
  by (simp add: holds_def)

lemma holds_typed: "holds m a M \<Longrightarrow> well_typed M"
  using typed_read [of "layout_of M" m a] by (simp add: holds_def)

lemma msg_size_read [simp]: "msg_size (read_msg L m a) = layout_size L"
  by (cases L) simp_all

text \<open>A message is its bytes: where the same bytes lie, the same message is read.\<close>

lemma bytes_at_eqD:
  assumes "bytes_at m a n = bytes_at m' a' n" "k < n"
  shows "m (a + of_nat k) = m' (a' + of_nat k)"
  using arg_cong [OF assms(1), of "\<lambda>xs. xs ! k"] assms(2) by simp

lemma bytes_at_part:
  assumes "bytes_at m a n = bytes_at m' a' n" "i + j \<le> n"
  shows "bytes_at m (a + of_nat i) j = bytes_at m' (a' + of_nat i) j"
  unfolding bytes_at_def
proof (rule map_cong [OF refl])
  fix k assume "k \<in> set [0..<j]"
  then show "m (a + of_nat i + of_nat k) = m' (a' + of_nat i + of_nat k)"
    using bytes_at_eqD [OF assms(1), of "i + k"] assms(2) by (simp add: add.assoc)
qed

lemma load32_bytes: "load32 m a = (case bytes_at m a 4 of [b0, b1, b2, b3] \<Rightarrow>
    ucast b0 OR push_bit 8 (ucast b1) OR push_bit 16 (ucast b2) OR push_bit 24 (ucast b3))"
  by (simp add: load32_def bytes_at_def upt_rec)

lemma load32_part:
  "bytes_at m a n = bytes_at m' a' n \<Longrightarrow> i + 4 \<le> n \<Longrightarrow> load32 m (a + of_nat i) = load32 m' (a' + of_nat i)"
  unfolding load32_bytes using bytes_at_part [of m a n m' a' i 4] by simp

lemma read_msg_bytes:
  assumes "bytes_at m a (layout_size L) = bytes_at m' a' (layout_size L)"
  shows "read_msg L m a = read_msg L m' a'"
proof (cases L)
  case NameLayout
  then show ?thesis using load32_part [OF assms, of 0] bytes_at_part [OF assms, of 4 12] by simp
next
  case IntLayout
  then show ?thesis using load32_part [OF assms, of 0] by simp
next
  case ClockLayout
  then show ?thesis using load32_part [OF assms, of 0] load32_part [OF assms, of 4] by simp
next
  case IoLayout
  then show ?thesis
    using load32_part [OF assms, of 0] bytes_at_part [OF assms, of 4 31] load32_part [OF assms, of 36] by simp
next
  case ByteLayout
  then show ?thesis using bytes_at_eqD [OF assms, of 0] by simp
qed simp

lemma holds_bytes:
  assumes "holds m a M" "bytes_at m' a' (msg_size M) = bytes_at m a (msg_size M)"
  shows "read_msg (layout_of M) m' a' = M"
  using assms read_msg_bytes [of m' a' "layout_of M" m a] by (simp add: holds_def)

subsection \<open>Messages built in memory\<close>

text \<open>
  \<open>name_server_msg_init\<close> and the part of \<open>Putstr\<close> that fills its message, as they act on memory: \<open>ctx\<close> and \<open>msg\<close>
  are the addresses of the structure, \<open>name\<close> and \<open>str\<close> those of the text.
\<close>

definition name_server_msg_init_at :: "u32 \<Rightarrow> u32 \<Rightarrow> u32 \<Rightarrow> (u32 \<Rightarrow> u8) \<Rightarrow> (u32 \<Rightarrow> u8)" where
  "name_server_msg_init_at ctx type name m =
     (let m = store32 m ctx type in strncpy m (ctx + 4) name (of_nat NAME_SERVER_MAX_NAME_LEN))"

definition putstr_msg_at :: "u32 \<Rightarrow> u32 \<Rightarrow> u32 \<Rightarrow> (u32 \<Rightarrow> u8) \<Rightarrow> (u32 \<Rightarrow> u8) option" where
  "putstr_msg_at msg str len m =
     (let m = store32 m msg IO_SERVER_MSG_TYPE_CLIENT_WRITE;
          n = (if len < of_nat IO_SERVER_MSG_MAX_DATA_LEN then len else of_nat IO_SERVER_MSG_MAX_DATA_LEN);
          m = store32 m (msg + 36) n
      in memcpy m (msg + 4) str n)"

text \<open>\<open>text_at m a str\<close>: the C string \<open>str\<close> lies at \<open>a\<close>, with the zero byte behind it.\<close>

definition text_at :: "(u32 \<Rightarrow> u8) \<Rightarrow> u32 \<Rightarrow> u8 list \<Rightarrow> bool" where
  "text_at m a str \<longleftrightarrow> bytes_at m a (Suc (length str)) = str @ [0]"

lemma take_bytes_at [simp]: "k \<le> n \<Longrightarrow> take k (bytes_at m a n) = bytes_at m a k"
  by (simp add: bytes_at_def take_map)

lemma text_of_append_zero: "text_of (str @ 0 # ys) = text_of str"
  by (induction str) auto

lemma strncpy_list_text_at:
  assumes "text_at m a str"
  shows "strncpy_list 12 (bytes_at m a 12) = strncpy_list 12 str"
proof (cases "12 \<le> length str")
  case True
  have "bytes_at m a 12 = take 12 str"
    using arg_cong [OF assms [unfolded text_at_def], of "take 12"] True by simp
  then show ?thesis by (simp add: strncpy_list_def)
next
  case False
  let ?n = "Suc (length str)"
  have "bytes_at m a 12 = take ?n (bytes_at m a 12) @ drop ?n (bytes_at m a 12)"
    by (rule append_take_drop_id [symmetric])
  also have "\<dots> = str @ 0 # drop ?n (bytes_at m a 12)"
    using assms False by (simp add: text_at_def)
  finally have "text_of (bytes_at m a 12) = text_of str"
    by (metis text_of_append_zero)
  with False show ?thesis by (simp add: strncpy_list_def)
qed

lemma name_msg_in_memory:
  assumes "text_at m name str" "addr_range ctx 16 \<inter> addr_range name 12 = {}"
    "addr_range ctx 16 \<inter> addr_range name (Suc (length str)) = {}"
  shows "holds (name_server_msg_init_at ctx type name m) ctx (NameMsg (name_server_msg_init type str))"
    and "b \<notin> addr_range ctx 16 \<Longrightarrow> name_server_msg_init_at ctx type name m b = m b"
proof -
  let ?m = "store32 m ctx type" and ?m' = "name_server_msg_init_at ctx type name m"
  have sub: "addr_range ctx 4 \<subseteq> addr_range ctx 16" "addr_range (ctx + 4) 12 \<subseteq> addr_range ctx 16"
    using addr_range_sub [of 0 4 16 ctx] addr_range_sub [of 4 12 16 ctx] by simp_all
  have src: "bytes_at ?m name n = bytes_at m name n" if "addr_range ctx 16 \<inter> addr_range name n = {}" for n
    using that sub(1) by (intro bytes_at_store32) blast
  have t: "text_at ?m name str"
    using assms(1) src [OF assms(3)] by (simp add: text_at_def)
  have "addr_range (ctx + 4) (unat (12 :: u32)) \<inter> addr_range name (unat (12 :: u32)) = {}"
    using assms(2) sub(2) by auto
  from strncpy_copies_text [OF this, of ?m]
  have name: "bytes_at ?m' (ctx + 4) 12 = strncpy_list 12 str"
    and out: "\<And>b. b \<notin> addr_range (ctx + 4) 12 \<Longrightarrow> ?m' b = ?m b"
    using strncpy_list_text_at [OF t]
    by (simp_all add: name_server_msg_init_at_def NAME_SERVER_MAX_NAME_LEN_def)
  have "load32 ?m' ctx = load32 ?m ctx"
    using fields(1) [of ctx] by (intro load32_cong out) blast
  with name show "holds ?m' ctx (NameMsg (name_server_msg_init type str))"
    by (simp add: holds_def name_server_msg_init_def NAME_SERVER_MAX_NAME_LEN_def)
  show "?m' b = m b" if "b \<notin> addr_range ctx 16"
  proof -
    have "b \<notin> addr_range ctx 4" "b \<notin> addr_range (ctx + 4) 12" using that sub by blast+
    then show ?thesis by (simp add: out store32_outside)
  qed
qed

lemma putstr_length:
  "unat (if len < of_nat IO_SERVER_MSG_MAX_DATA_LEN then len else of_nat IO_SERVER_MSG_MAX_DATA_LEN) = min 31 (unat (len :: u32))"
  by (auto simp: IO_SERVER_MSG_MAX_DATA_LEN_def word_less_nat_alt)

lemma putstr_msg_in_memory:
  assumes str: "bytes_at m str (length xs) = xs" "min 31 (unat len) \<le> length xs"
    and disj: "addr_range msg 40 \<inter> addr_range str (min 31 (unat len)) = {}"
  defines "n \<equiv> if len < of_nat IO_SERVER_MSG_MAX_DATA_LEN then len else of_nat IO_SERVER_MSG_MAX_DATA_LEN"
  obtains m' where "putstr_msg_at msg str len m = Some m'"
    and "holds m' msg (IoMsg \<lparr>ism_type = IO_SERVER_MSG_TYPE_CLIENT_WRITE,
      ism_data = take (unat n) xs @ drop (unat n) (bytes_at m (msg + 4) 31), ism_len = n\<rparr>)"
    and "\<And>b. b \<notin> addr_range msg 40 \<Longrightarrow> m' b = m b"
proof -
  let ?k = "min 31 (unat len)"
  let ?m = "store32 (store32 m msg IO_SERVER_MSG_TYPE_CLIENT_WRITE) (msg + 36) n"
  have n: "unat n = ?k" by (simp add: n_def putstr_length)
  have sub: "addr_range msg 4 \<subseteq> addr_range msg 40" "addr_range (msg + 4) ?k \<subseteq> addr_range (msg + 4) 31"
    "addr_range (msg + 4) 31 \<subseteq> addr_range msg 40" "addr_range (msg + 36) 4 \<subseteq> addr_range msg 40"
    using addr_range_sub [of 0 4 40 msg] addr_range_sub [of 0 ?k 31 "msg + 4"] addr_range_sub [of 4 31 40 msg]
      addr_range_sub [of 36 4 40 msg] by simp_all
  have outm: "?m b = m b" if "b \<notin> addr_range msg 4" "b \<notin> addr_range (msg + 36) 4" for b
    using that by (simp add: store32_outside)
  have "addr_range (msg + 4) (unat n) \<inter> addr_range str (unat n) = {}"
    using disj sub n by (simp only: n) blast
  then have d: "unat n < 2 ^ 31" "addr_range (msg + 4) (unat n) \<inter> addr_range str (unat n) = {}"
    using n by auto
  obtain m' where m': "memcpy ?m (msg + 4) str n = Some m'" "bytes_at m' (msg + 4) ?k = bytes_at ?m str ?k"
    "\<And>b. b \<notin> addr_range (msg + 4) ?k \<Longrightarrow> m' b = ?m b"
    by (rule memcpy_copies [OF d, where m = ?m]) (simp add: n)
  have type: "load32 m' msg = IO_SERVER_MSG_TYPE_CLIENT_WRITE"
  proof -
    have "load32 m' msg = load32 ?m msg"
      using fields(3) [of msg] sub(2) by (intro load32_cong m'(3)) blast
    then show ?thesis by (simp add: load32_store32_outside)
  qed
  have len: "load32 m' (msg + 36) = n"
  proof -
    have "load32 m' (msg + 36) = load32 ?m (msg + 36)"
      using fields(5) [of msg] sub(2) by (intro load32_cong m'(3)) blast
    then show ?thesis by simp
  qed
  have sent: "bytes_at m' (msg + 4) ?k = take ?k xs"
  proof -
    have "bytes_at ?m str ?k = bytes_at m str ?k"
      using disj sub(1,4) by (intro bytes_at_cong outm) blast+
    also have "\<dots> = take ?k (bytes_at m str (length xs))" using str(2) by simp
    finally show ?thesis using m'(2) str(1) by simp
  qed
  have rest: "m' (msg + 4 + of_nat i) = m (msg + 4 + of_nat i)" if "?k \<le> i" "i < 31" for i
  proof -
    have "msg + 4 + of_nat i \<in> addr_range (msg + 4) 31" using that(2) by (rule addr_rangeI)
    then have "msg + 4 + of_nat i \<notin> addr_range msg 4" "msg + 4 + of_nat i \<notin> addr_range (msg + 36) 4"
      using fields(3,5) [of msg] by blast+
    moreover have "msg + 4 + of_nat i \<notin> addr_range (msg + 4) ?k"
      using that by (auto simp: addr_range_def of_nat_u32_inj)
    ultimately show ?thesis by (simp add: m'(3) outm)
  qed
  have all31: "bytes_at m' (msg + 4) 31 = take ?k xs @ drop ?k (bytes_at m (msg + 4) 31)"
  proof -
    have "bytes_at m' (msg + 4) 31 = take ?k (bytes_at m' (msg + 4) 31) @ drop ?k (bytes_at m' (msg + 4) 31)"
      by (rule append_take_drop_id [symmetric])
    also have "take ?k (bytes_at m' (msg + 4) 31) = take ?k xs" using sent by simp
    also have "drop ?k (bytes_at m' (msg + 4) 31) = drop ?k (bytes_at m (msg + 4) 31)"
      by (rule nth_equalityI) (simp, simp only: length_drop length_bytes_at nth_drop nth_bytes_at less_diff_conv rest le_add1
        add.commute [of _ ?k])
    finally show ?thesis .
  qed
  have "putstr_msg_at msg str len m = Some m'"
    using m'(1) by (simp add: putstr_msg_at_def n_def Let_def)
  moreover from all31 type len n have "holds m' msg (IoMsg \<lparr>ism_type = IO_SERVER_MSG_TYPE_CLIENT_WRITE,
      ism_data = take (unat n) xs @ drop (unat n) (bytes_at m (msg + 4) 31), ism_len = n\<rparr>)"
    by (simp add: holds_def)
  moreover have "m' b = m b" if "b \<notin> addr_range msg 40" for b
  proof -
    have "b \<notin> addr_range msg 4" "b \<notin> addr_range (msg + 4) ?k" "b \<notin> addr_range (msg + 36) 4"
      using that sub by blast+
    then show ?thesis by (simp add: m'(3) outm)
  qed
  ultimately show ?thesis by (rule that)
qed

subsection \<open>Requests\<close>

text \<open>The first thing that a task did between two points of its run.\<close>

definition next_event :: "world \<Rightarrow> world \<Rightarrow> event option" where
  "next_event w w' = (case drop (length (trace w)) (trace w') of [] \<Rightarrow> None | e # _ \<Rightarrow> Some e)"

lemma next_event_did [simp]: "trace w' = trace w @ e # es \<Longrightarrow> next_event w w' = Some e"
  by (simp add: next_event_def)

fun request :: "event \<Rightarrow> (u8 \<times> message) option" where
  "request (EvSend t M _ _) = Some (t, M)"
| "request _ = None"

definition first_request :: "world \<Rightarrow> world \<Rightarrow> (u8 \<times> message) option" where
  "first_request w w' = Option.bind (next_event w w') request"

lemma RegisterAs_request:
  "RegisterAs str w = Some (res, w') \<Longrightarrow>
     first_request w w' = Some (NAME_SERVER_TID, NameMsg (name_server_msg_init NAME_SERVER_MSG_TYPE_REG str))"
  by (auto simp: RegisterAs_def Send_def say_def first_request_def Let_def split: bind_splits if_splits)

lemma Putstr_request:
  "Putstr garbage tid uart str len w = Some (res, w') \<Longrightarrow>
     n = (if len < of_nat IO_SERVER_MSG_MAX_DATA_LEN then len else of_nat IO_SERVER_MSG_MAX_DATA_LEN) \<Longrightarrow>
     first_request w w' = Some (ucast tid, IoMsg \<lparr>ism_type = IO_SERVER_MSG_TYPE_CLIENT_WRITE,
       ism_data = take (unat n) str @ drop (unat n) garbage, ism_len = n\<rparr>)"
  by (auto simp: Putstr_def Send_def say_def first_request_def Let_def split: bind_splits if_splits)

text \<open>
  C25: What \<open>RegisterAs\<close> and \<open>Putstr\<close> send in the model of the servers is what the C code has in memory when it
  calls \<open>Send\<close>: \<open>name_server_msg_init\<close>, with \<open>strncpy\<close> from the caller's string, and the filling of the message
  in \<open>Putstr\<close>, with \<open>memcpy\<close>, build just that message in the caller's structure and change no other byte.
  The bytes of \<open>Putstr\<close>'s message behind the text are those that were there.
\<close>

theorem requests_in_memory:
  assumes "text_at m name str" and "addr_range ctx 16 \<inter> addr_range name (max 12 (Suc (length str))) = {}"
    and "bytes_at m txt (length xs) = xs" and "min 31 (unat len) \<le> length xs"
    and "addr_range msg 40 \<inter> addr_range txt (min 31 (unat len)) = {}"
    and "RegisterAs str w = Some (r1, w1)" and "Putstr (bytes_at m (msg + 4) 31) tid uart xs len x = Some (r2, x1)"
  shows "\<exists>M N m1 m2. first_request w w1 = Some (NAME_SERVER_TID, M) \<and> first_request x x1 = Some (ucast tid, N) \<and>
    name_server_msg_init_at ctx NAME_SERVER_MSG_TYPE_REG name m = m1 \<and> holds m1 ctx M \<and>
    putstr_msg_at msg txt len m = Some m2 \<and> holds m2 msg N \<and>
    (\<forall>b. (b \<notin> addr_range ctx 16 \<longrightarrow> m1 b = m b) \<and> (b \<notin> addr_range msg 40 \<longrightarrow> m2 b = m b))"
proof -
  have "addr_range name 12 \<subseteq> addr_range name (max 12 (Suc (length str)))"
    "addr_range name (Suc (length str)) \<subseteq> addr_range name (max 12 (Suc (length str)))"
    by (auto simp: addr_range_def)
  then have "addr_range ctx 16 \<inter> addr_range name 12 = {}" "addr_range ctx 16 \<inter> addr_range name (Suc (length str)) = {}"
    using assms(2) by blast+
  note name = name_msg_in_memory [where type = NAME_SERVER_MSG_TYPE_REG, OF assms(1) this]
  from assms(3-5) obtain m2 where "putstr_msg_at msg txt len m = Some m2"
    "\<And>N. first_request x x1 = Some (ucast tid, N) \<Longrightarrow> holds m2 msg N" "\<And>b. b \<notin> addr_range msg 40 \<Longrightarrow> m2 b = m b"
    by (rule putstr_msg_in_memory) (use Putstr_request [OF assms(7) refl] in auto)
  with name RegisterAs_request [OF assms(6)] Putstr_request [OF assms(7) refl] show ?thesis by blast
qed

definition words_mem :: "u32 \<Rightarrow> u8" where
  "words_mem = store_bytes (\<lambda>_. 7) 0x500 (cstr ''tick'' @ [0])"

lemma words_text: "text_at words_mem 0x500 (cstr ''tick'')"
  unfolding words_mem_def text_at_def by (rule bytes_at_store_bytes) (simp_all add: cstr_def)

lemma words_range: "addr_range 0x600 16 \<inter> addr_range (0x500 :: u32) 12 = {}"
  "addr_range 0x700 40 \<inter> addr_range (0x500 :: u32) 4 = {}"
  using fields_disjoint [of 0 12 256 16 "0x500"] fields_disjoint [of 0 4 512 40 "0x500"]
  by (simp_all add: Int_commute)

theorem requests_in_memory_witness:
  "\<exists>w1 x1 M N m2. RegisterAs (cstr ''tick'') (answering (IntMsg 0)) = Some (0, w1) \<and>
     first_request (answering (IntMsg 0)) w1 = Some (NAME_SERVER_TID, M) \<and>
     first_request (answering (IoMsg (io_req 2 []))) x1 = Some (4, N) \<and>
     holds (name_server_msg_init_at 0x600 NAME_SERVER_MSG_TYPE_REG 0x500 words_mem) 0x600 M \<and>
     putstr_msg_at 0x700 0x500 4 words_mem = Some m2 \<and> holds m2 0x700 N"
proof -
  let ?w = "answering (IntMsg 0)" and ?x = "answering (IoMsg (io_req 2 []))"
  have "RegisterAs (cstr ''tick'') ?w \<noteq> None"
    "Putstr (bytes_at words_mem (0x700 + 4) 31) 4 1 (cstr ''tick'') 4 ?x \<noteq> None"
    by (simp_all add: RegisterAs_def Putstr_def Send_def answering_def cstr_def IO_SERVER_MSG_MAX_DATA_LEN_def)
  moreover have "RegisterAs (cstr ''tick'') ?w = Some (r, w1) \<Longrightarrow> r = 0" for r w1
    by (auto simp: RegisterAs_def Send_def answering_def Let_def)
  ultimately obtain w1 r2 x1 where calls: "RegisterAs (cstr ''tick'') ?w = Some (0, w1)"
    "Putstr (bytes_at words_mem (0x700 + 4) 31) 4 1 (cstr ''tick'') 4 ?x = Some (r2, x1)"
    by fast
  have t: "bytes_at words_mem 0x500 (length (cstr ''tick'')) = cstr ''tick''"
    using arg_cong [OF words_text [unfolded text_at_def], of "take (length (cstr ''tick''))"]
    by simp
  from requests_in_memory [where ctx = "0x600" and msg = "0x700", OF words_text _ t _ _ calls] words_range calls(1)
  show ?thesis by (fastforce simp: cstr_def)
qed

end
