(* ===== verification/TypedExchange.thy ===== *)
theory TypedExchange
  imports Messages
begin

text \<open>
  Typed messages through the kernel. The calls of \<open>TaskWorld\<close> take what a call returns from an environment. Here
  that environment is the kernel: what a task finds in its registers and buffers when its call returns
  is the outcome of the call, and with it \<open>Send\<close>, \<open>Receive\<close> and \<open>Reply\<close> hand on the typed messages.
\<close>

subsection \<open>What a task finds when its call returns\<close>

text \<open>\<open>ret\<close> is in r0; \<open>sndr\<close> and the message are where the task asked for them.\<close>

definition found :: "i32 \<Rightarrow> u8 \<Rightarrow> layout \<Rightarrow> (u32 \<Rightarrow> u8) \<Rightarrow> u32 \<Rightarrow> outcome" where
  "found ret sndr L m inbuf = \<lparr>o_ret = ret, o_from = sndr, o_data = read_msg L m inbuf\<rparr>"

lemma found_simps [simp]:
  "o_ret (found ret sndr L m inbuf) = ret" "o_from (found ret sndr L m inbuf) = sndr"
  "o_data (found ret sndr L m inbuf) = read_msg L m inbuf"
  by (simp_all add: found_def)

lemma Send_found:
  assumes "sys w (CSend tid M) (trace w) = Some (found 0 sndr L m inbuf)" "read_msg L m inbuf = R" "msg_size R = n"
  shows "Send tid M n w = Some (0, Some R, did (EvSend tid M 0 (Some R)) w)"
  using assms by (auto simp: Send_def)

lemma Receive_found:
  assumes "sys w CReceive (trace w) = Some (found ret sndr L m inbuf)" "read_msg L m inbuf = M" "msg_size M = msg_size old"
  shows "Receive tid old w = Some (ucast sndr, sndr, M, did (EvReceive (ucast sndr) sndr M) w)"
  using assms by (auto simp: Receive_def)

lemma ucast_task_id: "a < 64 \<Longrightarrow> ucast (of_nat a :: u8) = (of_nat a :: i32)"
  by (simp add: word_eq_iff_unsigned unsigned_ucast_eq unsigned_of_nat take_bit_nat_eq_self)

text \<open>
  C4: A whole exchange of typed messages. A task \<open>a\<close> calls \<open>Send\<close> with the message \<open>M\<close> and waits for an answer; the
  server \<open>b\<close> receives when \<open>a\<close> is the first of its senders, into a buffer of the size of \<open>M\<close>, and later replies
  with \<open>R\<close>, whose size is that of the buffer of \<open>a\<close>. Other tasks run in between. Then what the
  kernel leaves for the two tasks is what the typed calls return: \<open>Receive\<close> the message \<open>M\<close> and the id of
  \<open>a\<close>, \<open>Send\<close> the value 0 and the answer \<open>R\<close>, \<open>Reply\<close> the value 0; and \<open>a\<close> is ready again.
\<close>

theorem typed_message_exchange:
  assumes s1: "running s1 L1 a" "unat tid = b" "b < unat (next_free_td s1)" "td_state (tds s1 ! b) \<noteq> SEND_BLOCKED"
    and send: "kernel_send a tid msg len rep rlen s1 = Some (v1, t1)"
    and s2: "running s2 L2 b" "L2 (SendQ b) = a # ts" "undisturbed a t1 s2" "unat len < 2 ^ 31"
      "addr_range inbuf (unat len) \<inter> addr_range msg (unat len) = {}" "from_addr \<notin> addr_range inbuf (unat len)"
    and M: "holds (mem s2) msg M" "msg_size M = unat len"
    and receive: "kernel_receive b from_addr inbuf len s2 = Some (v2, t2)"
    and s3: "running s3 L3 b" "a < unat (next_free_td s3)" "undisturbed a t2 s3" "unat rlen < 2 ^ 31"
      "addr_range rep (unat rlen) \<inter> addr_range ans (unat rlen) = {}"
      "addr_range rep (unat rlen) \<inter> addr_range (td_sp (tds s3 ! a)) 4 = {}"
    and R: "holds (mem s3) ans R" "msg_size R = unat rlen"
    and reply: "kernel_reply b (of_nat a) ans rlen s3 = Some (v3, t3)"
    and sender: "sys w (CSend tid M) (trace w) = Some (found (load32 (mem t3) (td_sp (tds s3 ! a))) sndr (layout_of R) (mem t3) rep)"
    and receiver: "sys x CReceive (trace x) = Some (found v2 (mem t2 from_addr) (layout_of M) (mem t2) inbuf)"
    and replier: "sys y (CReply (of_nat a) R) (trace y) = Some (found v3 sndr' NoLayout (mem t3) 0)"
    and old: "msg_size old = unat len"
  shows "Receive old_tid old x = Some (of_nat a, of_nat a, M, did (EvReceive (of_nat a) (of_nat a) M) x) \<and>
    Reply (of_nat a) R y = Some (0, did (EvReply (of_nat a) R 0) y) \<and>
    Send tid M (unat rlen) w = Some (0, Some R, did (EvSend tid M 0 (Some R)) w) \<and>
    v2 = of_nat a \<and> td_state (tds t3 ! a) = READY"
proof -
  have x: "v2 = of_nat a" "v3 = 0" "mem t2 from_addr = of_nat a" "load32 (mem t3) (td_sp (tds s3 ! a)) = 0"
    "td_state (tds t3 ! a) = READY"
    "bytes_at (mem t2) inbuf (unat len) = bytes_at (mem s2) msg (unat len)"
    "bytes_at (mem t3) rep (unat rlen) = bytes_at (mem s3) ans (unat rlen)"
    using message_exchange [OF s1 send s2 receive s3 reply] by simp_all
  have "a < 64"
    using krep_bound [OF runningD(1) [OF s2(1)], of a "SendQ b"] s2(2) krep_lengths(4) [OF runningD(1) [OF s2(1)]]
    by auto
  then have id: "ucast (of_nat a :: u8) = (of_nat a :: i32)" by (rule ucast_task_id)
  have M': "read_msg (layout_of M) (mem t2) inbuf = M" using holds_bytes [OF M(1)] M(2) x(6) by simp
  have R': "read_msg (layout_of R) (mem t3) rep = R" using holds_bytes [OF R(1)] R(2) x(7) by simp
  have "Receive old_tid old x = Some (of_nat a, of_nat a, M, did (EvReceive (of_nat a) (of_nat a) M) x)"
    using Receive_found [OF receiver M', of old old_tid] M(2) old x(3) id by simp
  moreover have "Send tid M (unat rlen) w = Some (0, Some R, did (EvSend tid M 0 (Some R)) w)"
    using Send_found [OF sender [unfolded x(4)] R' R(2)] .
  moreover have "Reply (of_nat a) R y = Some (0, did (EvReply (of_nat a) R 0) y)"
    using replier x(2) by (simp add: Reply_def)
  ultimately show ?thesis using x by simp
qed

text \<open>In the example of \<open>TaskLife\<close>, the 8 bytes are a message to the clock server and the answer is a number.\<close>

definition outcomes :: "(call \<Rightarrow> outcome) \<Rightarrow> world" where
  "outcomes f = \<lparr>trace = [], sys = (\<lambda>c h. Some (f c))\<rparr>"

theorem typed_message_exchange_witness:
  "\<exists>s1 t2 s3 t3 M R. kernel_send 0 1 0x3000 8 0x3010 4 (demo READY) = Some (0, s1) \<and>
     holds (mem s1) 0x3000 (ClockMsg M) \<and> kernel_receive 1 0x4000 0x4010 8 s1 = Some (0, t2) \<and>
     holds (mem s3) 0x4020 (IntMsg R) \<and> kernel_reply 1 0 0x4020 4 s3 = Some (0, t3) \<and>
     map_option (\<lambda>(r, t, m, _). (r, t, m))
       (Receive 9 (ClockMsg M) (outcomes (\<lambda>_. found 0 (mem t2 0x4000) ClockLayout (mem t2) 0x4010))) =
       Some (0, 0, ClockMsg M) \<and>
     map_option (\<lambda>(r, m, _). (r, m))
       (Send 1 (ClockMsg M) 4 (outcomes (\<lambda>_. found (load32 (mem t3) (td_sp (tds s3 ! 0))) 0 IntLayout (mem t3) 0x3010))) =
       Some (0, Some (IntMsg R))"
proof -
  obtain s1 t2 s3 t3 where e: "kernel_send 0 1 0x3000 8 0x3010 4 (demo READY) = Some (0, s1)"
    "running s1 ((\<lambda>_. [])(SendQ 1 := [0])) 1"
    "kernel_receive 1 0x4000 0x4010 8 s1 = Some (0, t2)" "scheduler_get t2 = Some (Some 1, s3)"
    "running s3 (\<lambda>_. []) 1" "tds s3 = tds t2" "next_free_td s3 = next_free_td (demo READY)"
    "td_sp (tds s3 ! 0) = td_sp (tds (demo READY) ! 0)" "kernel_reply 1 0 0x4020 4 s3 = Some (0, t3)"
    by (rule demo_exchange)
  have sp: "td_sp (tds (demo READY) ! 0) = MEM_TASK_STACK_START 0 - 56"
    by (simp add: demo_def fresh_td_def)
  let ?M = "\<lparr>csm_type = load32 (mem s1) 0x3000, csm_time = load32 (mem s1) 0x3004\<rparr>" and ?R = "load32 (mem s3) 0x4020"
  have h: "holds (mem s1) 0x3000 (ClockMsg ?M)" "holds (mem s3) 0x4020 (IntMsg ?R)" by (simp_all add: holds_def)
  let ?w = "outcomes (\<lambda>_. found (load32 (mem t3) (td_sp (tds s3 ! 0))) 0 IntLayout (mem t3) 0x3010)"
    and ?x = "outcomes (\<lambda>_. found 0 (mem t2 0x4000) ClockLayout (mem t2) 0x4010)"
    and ?y = "outcomes (\<lambda>_. found 0 0 NoLayout (mem t3) 0)"
  have "Receive 9 (ClockMsg ?M) ?x = Some (0, 0, ClockMsg ?M, did (EvReceive 0 0 (ClockMsg ?M)) ?x) \<and>
    Send 1 (ClockMsg ?M) (unat (4 :: u32)) ?w = Some (0, Some (IntMsg ?R), did (EvSend 1 (ClockMsg ?M) 0 (Some (IntMsg ?R))) ?w)"
    using typed_message_exchange [OF demo_running [of READY], where b = 1 and tid = 1 and msg = "0x3000" and len = 8
        and rep = "0x3010" and rlen = 4 and inbuf = "0x4010" and from_addr = "0x4000" and ans = "0x4020" and ts = "[]"
        and ?s2.0 = s1 and ?t1.0 = s1 and ?s3.0 = s3 and ?t2.0 = t2 and ?t3.0 = t3 and ?v1.0 = 0 and ?v2.0 = 0 and ?v3.0 = 0
        and ?L2.0 = "(\<lambda>_. [])(SendQ 1 := [0])" and ?L3.0 = "\<lambda>_. []" and M = "ClockMsg ?M" and R = "IntMsg ?R"
        and w = ?w and x = ?x and y = ?y and sndr = 0 and sndr' = 0 and old = "ClockMsg ?M" and old_tid = 9] e h
    by (simp add: demo_simps demo_td_def undisturbed_def demo_range demo_range4 addr_range_4 sp
        task_stack_defs outcomes_def)
  with e h show ?thesis by fastforce
qed

end
