(* ===== verification/ServerTypes.thy ===== *)
theory ServerTypes
  imports Messages
begin

text \<open>
  Types of the messages that the servers exchange with their clients. Each server answers with one
  structure (a number, the clock message or the I/O message), the arrays of its messages always have the length
  of the C structure, and while it serves it does nothing but receive, reply and print: it never waits
  for a task other than in \<open>Receive\<close>.
\<close>

subsection \<open>What a server does\<close>

fun serving :: "layout \<Rightarrow> event \<Rightarrow> bool" where
  "serving L (EvReceive _ _ _) \<longleftrightarrow> True"
| "serving L (EvReply _ R _) \<longleftrightarrow> layout_of R = L \<and> well_typed R"
| "serving L (EvPrint _ _) \<longleftrightarrow> True"
| "serving L _ \<longleftrightarrow> False"

definition serves :: "layout \<Rightarrow> world \<Rightarrow> world \<Rightarrow> bool" where
  "serves L w w' \<longleftrightarrow> sys w' = sys w \<and> (\<exists>es. trace w' = trace w @ es \<and> list_all (serving L) es)"

lemma serves_refl [simp, intro]: "serves L w w"
  by (simp add: serves_def)

lemma serves_trans [trans]: "serves L w1 w2 \<Longrightarrow> serves L w2 w3 \<Longrightarrow> serves L w1 w3"
  by (auto simp: serves_def)

lemma serves_did [simp]: "serves L w (did e w) \<longleftrightarrow> serving L e"
  by (simp add: serves_def)

lemma serves_say: "serves L w w' \<Longrightarrow> serves L w (say fmt va w')"
  by (auto simp: serves_def say_def)

text \<open>
  The environment of a server: the messages that \<open>Receive\<close> may bring are typed, and a panic stops the system, as it
  does in the kernel.
\<close>

definition typed_requests :: "world \<Rightarrow> bool" where
  "typed_requests w \<longleftrightarrow> panics_stop w \<and> (\<forall>h r. sys w CReceive h = Some r \<longrightarrow> well_typed (o_data r))"

lemma serves_requests: "serves L w w' \<Longrightarrow> typed_requests w' = typed_requests w"
  by (simp add: serves_def typed_requests_def panics_stop_def)

lemma Receive_serves:
  assumes "Receive tid old w = Some (r, t, M, w')" "typed_requests w" "well_typed old"
  shows "well_typed M \<and> serves L w w'"
  using assms by (auto simp: Receive_def typed_requests_def split: bind_splits if_splits)

lemma Reply_serves:
  assumes "Reply t R w = Some (r, w')" "layout_of R = L" "well_typed R"
  shows "serves L w w'"
  using assms by (auto simp: Reply_def split: bind_splits)

subsection \<open>Passes of a loop\<close>

text \<open>A loop whose body keeps a property of the server's state and, from such a state, only serves.\<close>

locale serving_loop =
  fixes body :: "'s \<Rightarrow> world \<Rightarrow> ('s \<times> world) option"
    and wf :: "'s \<Rightarrow> bool"
    and L :: layout
  assumes body_serves: "body st w = Some (st', w') \<Longrightarrow> wf st \<Longrightarrow> typed_requests w \<Longrightarrow> wf st' \<and> serves L w w'"
begin

lemma passes_serve:
  assumes "(\<lambda>(st, w) p. body st w = Some p)\<^sup>*\<^sup>* (st, w) (st', w')" "wf st" "typed_requests w"
  shows "wf st' \<and> serves L w w'"
  using assms(1)
proof (induction rule: rtranclp_induct2)
  case refl
  then show ?case using assms by simp
next
  case (step st1 w1 st2 w2)
  then have "wf st1" "typed_requests w1" using serves_requests [of L w w1] assms(3) by auto
  with body_serves [of st1 w1 st2 w2] step show ?case by (auto intro: serves_trans)
qed

end

subsection \<open>The name server\<close>

definition name_wf :: "name_server_state \<Rightarrow> bool" where
  "name_wf st \<longleftrightarrow> well_typed (NameMsg (ns_msg st))"

lemma name_server_reply_serves:
  "name_server_reply rep st w = Some (st', w') \<Longrightarrow> st' = st \<and> serves IntLayout w w'"
  by (auto simp: name_server_reply_def split: bind_splits if_splits intro!: serves_say dest: Reply_serves [where L = IntLayout])

lemma name_server_body_serves:
  assumes "name_server_body st w = Some (st', w')" "name_wf st" "typed_requests w"
  shows "name_wf st' \<and> serves IntLayout w w'"
proof -
  obtain ret tid msg w1 where r: "Receive (ns_sender_tid st) (NameMsg (ns_msg st)) w = Some (ret, tid, NameMsg msg, w1)"
    using assms(1) by (auto simp: name_server_body_def split: bind_splits message.splits)
  have "well_typed (NameMsg msg)" "serves IntLayout w w1"
    using Receive_serves [OF r assms(3)] assms(2) by (simp_all add: name_wf_def)
  moreover from this have "ns_msg st' = msg \<and> serves IntLayout w1 w'"
    using assms(1) r
    by (auto simp: name_server_body_def Let_def split: bind_splits if_splits option.splits
        intro!: serves_say dest!: name_server_reply_serves)
  ultimately show ?thesis by (auto simp: name_wf_def intro: serves_trans)
qed

interpretation name_serving: serving_loop name_server_body name_wf IntLayout
  by unfold_locales (rule name_server_body_serves)

subsection \<open>The clock server\<close>

lemma Reply_clock_serves: "Reply t (ClockMsg m) w = Some (r, w') \<Longrightarrow> serves ClockLayout w w'"
  by (erule Reply_serves) simp_all

lemma reply_msg_serves: "reply_msg st w = Some (st', w') \<Longrightarrow> serves ClockLayout w w'"
  by (auto simp: reply_msg_def split: bind_splits dest: Reply_clock_serves)

lemma release_front_serves: "release_front st w = Some (st', w') \<Longrightarrow> serves ClockLayout w w'"
  by (auto simp: release_front_def Let_def split: bind_splits if_splits dest!: Reply_clock_serves)

lemma clock_delay_until_serves: "clock_delay_until st w = Some (st', w') \<Longrightarrow> serves ClockLayout w w'"
  by (auto simp: clock_delay_until_def clock_error_def split: bind_splits if_splits dest: reply_msg_serves)

lemma clock_delay_serves: "clock_delay st w = Some (st', w') \<Longrightarrow> serves ClockLayout w w'"
  by (auto simp: clock_delay_def clock_error_def split: if_splits dest: reply_msg_serves clock_delay_until_serves)

lemma clock_tick_serves: "clock_tick st w = Some (st', w') \<Longrightarrow> serves ClockLayout w w'"
  by (auto simp: clock_tick_def split: bind_splits intro: serves_trans dest!: reply_msg_serves release_front_serves)

lemma clock_server_body_serves:
  assumes "clock_server_body st w = Some (st', w')" "typed_requests w"
  shows "serves ClockLayout w w'"
proof -
  obtain res tid msg w1 where r: "Receive (cs_sender_tid st) (ClockMsg (cs_msg st)) w = Some (res, tid, ClockMsg msg, w1)"
    using assms(1) by (auto simp: clock_server_body_def clock_reply_def split: bind_splits message.splits)
  have 1: "serves ClockLayout w w1" using Receive_serves [OF r assms(2)] by simp
  define w2 where "w2 = (if sint res < 0 then say ''Error occurred while receiving in clock server'' [] w1 else w1)"
  have "serves ClockLayout w w2" using 1 by (simp add: w2_def serves_say)
  moreover have "serves ClockLayout w2 w'"
    using assms(1) r
    by (auto simp: clock_server_body_def clock_reply_def Let_def w2_def [symmetric] split: if_splits
        intro!: serves_say dest: reply_msg_serves clock_tick_serves clock_delay_serves clock_delay_until_serves)
  ultimately show ?thesis by (rule serves_trans)
qed

interpretation clock_serving: serving_loop clock_server_body "\<lambda>_. True" ClockLayout
  by unfold_locales (simp add: clock_server_body_serves)

subsection \<open>The I/O server\<close>

definition io_wf :: "io_server_state \<Rightarrow> bool" where
  "io_wf st \<longleftrightarrow> well_typed (IoMsg (io_msg st))"

lemma flush_loop_length: "flush_loop n len data rb = Some (len', data', rb') \<Longrightarrow> length data' = length data"
  by (induction n len data rb rule: flush_loop.induct) (auto simp: arr_set_def split: if_splits bind_splits)

lemma fill_out_wf: "fill_out st = Some st' \<Longrightarrow> io_wf st \<Longrightarrow> io_wf st'"
  by (auto simp: fill_out_def io_wf_def split: bind_splits dest!: flush_loop_length)

lemma io_send_serves: "io_send t st w = Some (st', w') \<Longrightarrow> io_wf st \<Longrightarrow> st' = st \<and> serves IoLayout w w'"
  by (auto simp: io_send_def io_wf_def split: bind_splits elim!: Reply_serves)

lemma io_ack_serves: "io_ack st w = Some (st', w') \<Longrightarrow> io_wf st \<Longrightarrow> io_wf st' \<and> serves IoLayout w w'"
  by (auto simp: io_ack_def io_wf_def dest!: io_send_serves)

lemma io_client_read_serves:
  "io_client_read st w = Some (st', w') \<Longrightarrow> io_wf st \<Longrightarrow> io_wf st' \<and> serves IoLayout w w'"
  by (auto simp: io_client_read_def io_wf_def Let_def split: if_splits bind_splits
      dest!: flush_loop_length io_send_serves)

lemma io_notif_tx_serves:
  "io_notif_tx st w = Some (st', w') \<Longrightarrow> io_wf st \<Longrightarrow> io_wf st' \<and> serves IoLayout w w'"
  by (auto simp: io_notif_tx_def io_wf_def split: if_splits bind_splits dest!: fill_out_wf io_send_serves)

lemma io_client_write_serves:
  assumes "io_client_write st w = Some (st', w')" "io_wf st" "panics_stop w"
  shows "io_wf st' \<and> serves IoLayout w w'"
proof -
  obtain st1 w1 where 1: "io_ack st1 w1 = Some (st', w')" "io_wf st1 \<and> serves IoLayout w w1"
    using assms
    by (auto simp: io_client_write_def io_wf_def Let_def split: if_splits bind_splits
        dest!: fill_out_wf [unfolded io_wf_def] io_send_serves [unfolded io_wf_def])
  with io_ack_serves [OF 1(1)] show ?thesis by (auto intro: serves_trans)
qed

lemma io_notif_rx_serves:
  assumes "io_notif_rx st w = Some (st', w')" "io_wf st" "panics_stop w"
  shows "io_wf st' \<and> serves IoLayout w w'"
proof -
  obtain st1 w1 where 1: "io_ack st1 w1 = Some (st', w')" "io_wf st1 \<and> serves IoLayout w w1"
    using assms
    by (auto simp: io_notif_rx_def io_wf_def arr_set_def Let_def split: if_splits bind_splits
        dest!: io_send_serves [unfolded io_wf_def])
  with io_ack_serves [OF 1(1)] show ?thesis by (auto intro: serves_trans)
qed

lemma io_server_body_serves:
  assumes "io_server_body st w = Some (st', w')" "io_wf st" "typed_requests w"
  shows "io_wf st' \<and> serves IoLayout w w'"
proof -
  obtain res tid msg w1 where r: "Receive (io_sender_tid st) (IoMsg (io_msg st)) w = Some (res, tid, IoMsg msg, w1)"
    using assms(1) by (auto simp: io_server_body_def io_reply_def split: bind_splits message.splits)
  let ?st = "st\<lparr>io_sender_tid := tid, io_msg := msg\<rparr>"
  have 1: "io_wf ?st" "serves IoLayout w w1"
    using Receive_serves [OF r assms(3)] assms(2) by (simp_all add: io_wf_def)
  then have stop: "panics_stop w1" using assms(3) serves_requests [OF 1(2)] by (simp add: typed_requests_def)
  have "io_wf st' \<and> serves IoLayout w1 w'"
    using assms(1) r 1(1) stop
    by (auto simp: io_server_body_def io_reply_def Let_def split: if_splits
        dest!: io_client_read_serves io_client_write_serves io_notif_rx_serves io_notif_tx_serves)
  with 1(2) show ?thesis by (auto intro: serves_trans)
qed

interpretation io_serving: serving_loop io_server_body io_wf IoLayout
  by unfold_locales (rule io_server_body_serves)

subsection \<open>Theorem\<close>

text \<open>
  C14: Whatever happens, a server answers in the type that its clients wait for. From a state whose message has
  the lengths of the C structure, however many requests it has served, the name server has replied only numbers,
  the clock server only clock messages and the I/O server only I/O messages with 31 bytes of data,
  and their own message still has its lengths. Besides that they received and printed: no server waits for
  another task while it serves, so servers cannot block each other. (A server that panics stops the system.)
\<close>

theorem servers_answer_in_type:
  assumes "typed_requests w" and "typed_requests x" and "typed_requests y"
    and "length (nsm_name (ns_msg ns)) = 12" and "length (ism_data (io_msg ios)) = 31"
    and "(\<lambda>(st, w) p. name_server_body st w = Some p)\<^sup>*\<^sup>* (ns, w) (ns', w')"
    and "(\<lambda>(st, w) p. clock_server_body st w = Some p)\<^sup>*\<^sup>* (cs, x) (cs', x')"
    and "(\<lambda>(st, w) p. io_server_body st w = Some p)\<^sup>*\<^sup>* (ios, y) (ios', y')"
  shows "serves IntLayout w w' \<and> serves ClockLayout x x' \<and> serves IoLayout y y' \<and>
    length (nsm_name (ns_msg ns')) = 12 \<and> length (ism_data (io_msg ios')) = 31"
  using name_serving.passes_serve [OF assms(6) _ assms(1)] clock_serving.passes_serve [OF assms(7) _ assms(2)]
    io_serving.passes_serve [OF assms(8) _ assms(3)] assms(4,5)
  by (simp add: name_wf_def io_wf_def NAME_SERVER_MAX_NAME_LEN_def IO_SERVER_MSG_MAX_DATA_LEN_def)

text \<open>One request for each server: an unknown name, the time, a byte to write.\<close>

definition sent_once :: "message \<Rightarrow> world" where
  "sent_once M = \<lparr>trace = [], sys = (\<lambda>c h. case c of CPanic s \<Rightarrow> None | _ \<Rightarrow> Some \<lparr>o_ret = 0, o_from = 5, o_data = M\<rparr>)\<rparr>"

definition who_req :: name_server_msg_t where
  "who_req = name_server_msg_init NAME_SERVER_MSG_TYPE_WHO (cstr ''tick'')"

definition idle_name_server :: name_server_state where
  "idle_name_server = \<lparr>ns_nm = \<lparr>nm_queue = queue_init, nm_nodes = (\<lambda>_. \<lparr>qn_data = None, qn_next = None\<rparr>), nm_node_data = []\<rparr>,
     ns_msg = who_req, ns_sender_tid = 0\<rparr>"

definition idle_clock_server :: clock_server_state where
  "idle_clock_server = \<lparr>cs_ticks = 3, cs_blocked = queue_init, cs_free_list = queue_init,
     cs_nodes = (\<lambda>_. \<lparr>qn_data = None, qn_next = None\<rparr>), cs_entries = [],
     cs_msg = clock_req CLOCK_SERVER_MSG_TYPE_TIME 0, cs_sender_tid = 0\<rparr>"

definition idle_io_server :: io_server_state where
  "idle_io_server = \<lparr>io_msg = io_req 2 [], io_sender_tid = 0, io_tx_notifier_tid = 0,
     io_rb_in = ringbuffer_init (replicate 128 0) 128, io_rb_out = ringbuffer_init (replicate 128 0) 128,
     io_tx_ready = False, io_client_ready = False, io_client_tid = 0\<rparr>"

lemma sent_once_typed: "well_typed M \<Longrightarrow> typed_requests (sent_once M)"
  by (simp add: typed_requests_def sent_once_def panics_stop_def)

lemma one_pass: "body st w = Some (st', w') \<Longrightarrow> (\<lambda>(st, w) p. body st w = Some p)\<^sup>*\<^sup>* (st, w) (st', w')"
  by auto

lemma name_pass: "\<exists>st w. name_server_body idle_name_server (sent_once (NameMsg who_req)) = Some (st, w) \<and> replies (trace w) = [(5, IntMsg 1)]"
  by (simp add: name_server_body_def idle_name_server_def sent_once_def who_req_def name_server_msg_init_def
      name_type_defs Receive_def Reply_def name_map_find_def find_from.simps queue_init_def name_server_reply_def Let_def)

lemma clock_pass: "\<exists>st w. clock_server_body idle_clock_server (sent_once (ClockMsg (clock_req 1 0))) = Some (st, w) \<and>
    replies (trace w) = [(5, ClockMsg (clock_req 1 3))]"
  by (simp add: clock_server_body_def idle_clock_server_def sent_once_def clock_reply_def
      clock_type_defs Receive_def Reply_def reply_msg_def Let_def)

lemma io_pass: "\<exists>st w. io_server_body idle_io_server (sent_once (IoMsg (io_req 2 [65]))) = Some (st, w) \<and>
    replies (trace w) = [(5, ack (io_req 2 [65]))]"
proof -
  let ?w = "sent_once (IoMsg (io_req 2 [65]))"
  have "io_rep 0 idle_io_server io_start"
    by (simp add: idle_io_server_def io_rep_def io_start_def rb_rep_init) (simp add: ringbuffer_init_def)
  moreover have "replies_return ?w" "next_msg ?w 5 (IoMsg (io_req 2 [65]))"
    by (simp_all add: replies_return_def next_msg_def sent_once_def)
  moreover have "io_ok 0 5 (io_req 2 [65]) io_start"
    by (simp add: io_ok_def io_req_def io_start_def io_type_defs)
  ultimately obtain st' w' where "io_server_body idle_io_server ?w = Some (st', w')"
    "advances ?w 1 (snd (io_spec 0 5 (io_req 2 [65]) io_start)) w'"
    using io_server_body_step by blast
  then show ?thesis
    by (simp add: advances_def io_spec_def write_spec_def io_req_def io_start_def io_type_defs sent_once_def)
qed

theorem servers_answer_in_type_witness:
  "\<exists>ns w cs x ios y. name_server_body idle_name_server (sent_once (NameMsg who_req)) = Some (ns, w) \<and>
     replies (trace w) = [(5, IntMsg 1)] \<and> serves IntLayout (sent_once (NameMsg who_req)) w \<and>
     clock_server_body idle_clock_server (sent_once (ClockMsg (clock_req 1 0))) = Some (cs, x) \<and>
     replies (trace x) = [(5, ClockMsg (clock_req 1 3))] \<and> serves ClockLayout (sent_once (ClockMsg (clock_req 1 0))) x \<and>
     io_server_body idle_io_server (sent_once (IoMsg (io_req 2 [65]))) = Some (ios, y) \<and>
     replies (trace y) = [(5, ack (io_req 2 [65]))] \<and> serves IoLayout (sent_once (IoMsg (io_req 2 [65]))) y"
proof -
  obtain ns w cs x ios y where r: "name_server_body idle_name_server (sent_once (NameMsg who_req)) = Some (ns, w)"
    "clock_server_body idle_clock_server (sent_once (ClockMsg (clock_req 1 0))) = Some (cs, x)"
    "io_server_body idle_io_server (sent_once (IoMsg (io_req 2 [65]))) = Some (ios, y)"
    "replies (trace w) = [(5, IntMsg 1)]" "replies (trace x) = [(5, ClockMsg (clock_req 1 3))]"
    "replies (trace y) = [(5, ack (io_req 2 [65]))]"
    using name_pass clock_pass io_pass by blast
  have t: "typed_requests (sent_once (NameMsg who_req))" "typed_requests (sent_once (ClockMsg (clock_req 1 0)))"
    "typed_requests (sent_once (IoMsg (io_req 2 [65])))"
    by (rule sent_once_typed, simp add: who_req_def name_server_msg_init_def io_req_def IO_SERVER_MSG_MAX_DATA_LEN_def)+
  have l: "length (nsm_name (ns_msg idle_name_server)) = 12" "length (ism_data (io_msg idle_io_server)) = 31"
    by (simp_all add: idle_name_server_def idle_io_server_def who_req_def name_server_msg_init_def io_req_def
        NAME_SERVER_MAX_NAME_LEN_def)
  from servers_answer_in_type [OF t l one_pass [where body = name_server_body, OF r(1)] one_pass [where body = clock_server_body, OF r(2)]
      one_pass [where body = io_server_body, OF r(3)]] r
  show ?thesis by blast
qed

end
