(* ===== verification/Spec2Isabelle.thy ===== *)
theory Spec2Isabelle
  imports KernelEvents BwioProps IoTheorems ContextSwitch SysCall MemoryLayout Limits TypedExchange ServerTypes
begin

text \<open>
  A verification of a small real-time kernel for the TS-7200 (an ARM v4 board) and of the server
  tasks that run on it.

  \<^bold>\<open>The program.\<close> \<^verbatim>\<open>src/main.c\<close> is the kernel. Its main loop takes the next ready task from the
  scheduler, switches to it (\<^verbatim>\<open>activate\<close>), and handles the system call or the interrupt with which the
  task comes back (\<^verbatim>\<open>handle\<close>). Tasks exchange messages by Send, Receive and Reply, which
  copy bytes between their stacks and block them; they wait for interrupts with AwaitEvent. The
  kernel rests on an intrusive queue (\<^verbatim>\<open>queue\<close>), task descriptors (\<^verbatim>\<open>task_descriptor\<close>), 64 ready queues with
  a bit map (\<^verbatim>\<open>scheduler\<close>), 16 event queues (\<^verbatim>\<open>event_handler\<close>), byte routines (\<^verbatim>\<open>cstdlib\<close>) and polled
  output (\<^verbatim>\<open>bwio\<close>). Above it run a name server, a clock server with a notifier, and one I/O server
  per UART with notifiers for receiving, transmitting and the clear-to-send line.

  \<^bold>\<open>The kernel side.\<close> The theories and what they model, under \<^verbatim>\<open>src/\<close> and \<^verbatim>\<open>include/\<close>:
  \<^item> Kernel_Prelude: list access with bounds, reachability with the interface \<open>inductive_invariant\<close>, generic lemmas.
  \<^item> Machine: bytes of RAM, device registers (\<^verbatim>\<open>ts7200.h\<close>, \<^verbatim>\<open>mem.h\<close>), the macro \<^verbatim>\<open>REG\<close>, \<^verbatim>\<open>cstdlib/time.c\<close>.
  \<^item> Queue, TaskDescriptor, Scheduler, EventHandler: the four modules of those names. A
    pointer to a node is the name of the node in a heap of nodes; a task is its index in \<^verbatim>\<open>tds\<close>.
  \<^item> KernelState: \<^verbatim>\<open>kernel_context_t\<close>, and the invariant \<open>krep\<close>, which says which task is in which queue.
  \<^item> KernelCalls, KernelMain: every function \<^verbatim>\<open>kernel_*\<close>, \<^verbatim>\<open>handle\<close>, \<^verbatim>\<open>init\<close>, \<^verbatim>\<open>cleanup\<close> and \<^verbatim>\<open>main\<close>.
  \<^item> KernelProps, KernelMainProps, KernelTheorems, KernelEvents: what they do, and the invariant of the loop.
  \<^item> TaskLife: how the states of a task follow each other from step to step, and whole message exchanges.
  \<^item> IdleTask: \<^verbatim>\<open>idle_main\<close>. MemoryLayout: the stacks of \<^verbatim>\<open>mem.h\<close>. ContextSwitch: the assembly of \<^verbatim>\<open>activate\<close>,
    and of \<^verbatim>\<open>init\<close> for the interrupt stack, instruction by instruction.
  \<^item> SysCall: \<^verbatim>\<open>sys_call/sys_call.c\<close>. CString, CStringProps: \<^verbatim>\<open>cstdlib/string.c\<close>. Bwio, BwioProps: \<^verbatim>\<open>bwio/bwio.c\<close>.

  \<^bold>\<open>The server side.\<close>
  \<^item> TaskWorld: the system calls as a task sees them, with the rest of the system as a parameter, and the
    interface \<open>message_server\<close> of a server that implements a service.
  \<^item> RingBuffer: \<^verbatim>\<open>ringbuffer/ringbuffer.c\<close>. NameServer: \<^verbatim>\<open>name_server/name_server.c\<close>.
  \<^item> ClockServer, ClockProps, ClockTheorems: \<^verbatim>\<open>clock_server/clock_server.c\<close>.
  \<^item> IoServer, IoProps, IoTheorems: \<^verbatim>\<open>io_server/io_server.c\<close>.
  \<^item> Messages: how the message structures lie in memory, and the requests that the C code builds there.
    TypedExchange: the kernel's Send, Receive and Reply as the calls of TaskWorld. ServerTypes: the types of the servers' answers.
  \<^item> Limits: behaviours at the edge of the contracts, on both sides (tasks that wait for ever, an interrupt that
    nobody expects), and the placeholder \<^verbatim>\<open>user_main.c\<close>.

  \<^bold>\<open>Conventions.\<close> Integers have the width of the source and wrap; where a signed sum or product of C would overflow,
  which is undefined there (number conversion in \<^verbatim>\<open>bwio.c\<close>), the model wraps too, and \<^verbatim>\<open>memcpy\<close> copies byte by byte
  also between ranges that overlap. Other undefined behaviour, an index out of
  range and a loop that never ends are \<open>None\<close>, so a theorem that gives \<open>Some\<close> says that the code
  returns. A panic of a server is a system call of its own (\<open>CPanic\<close>) and an event of the trace; that the kernel stops
  there is the hypothesis \<open>panics_stop\<close> on the environment, and \<open>calls_panic\<close> says that a panic is reached, and after
  which events. Device registers answer through the field \<open>dev\<close>, a function of the address and of the accesses
  so far, which the log \<open>io\<close> records; \<open>uart_tx_live\<close> says that a transmitter does not stay full for ever.

  \<^bold>\<open>The contract of the kernel.\<close> The kernel does not check the task id of Send and Reply, the state of the task that is
  answered, or the cause of an interrupt, and it has no memory protection. The predicate \<open>served\<close> names what it relies on:
  \<open>request_ok\<close> for the requests (ids below 64, Reply only to a task that waits for one, sizes below \<open>2 ^ 31\<close>),
  \<open>irq_expected\<close> for the interrupts, and a live UART2; \<open>task_runs\<close> says that a task leaves the kernel's data alone. A step of
  the main loop (\<open>kernel_step\<close>) is one that keeps this contract. What can happen without it is shown by
  \<open>queue_put_twice\<close> (Reply to a ready task destroys a queue) and \<open>reply_revives_exited\<close> (Reply to an exited task makes it ready again).

  \<^bold>\<open>What the theorems show.\<close> The kernel: under its contract every state of the main loop satisfies the invariant (each task
  is in at most one queue, which is well formed and fits its state, and the bit map is exact), from
  \<^verbatim>\<open>init\<close> on, no step leads to undefined behaviour, and the states of a task follow each other along fixed lines. The
  scheduler implements strict priorities with first come, first served; each system call has its functional behaviour
  on every branch, and composed they make a message exchange during which other tasks run: a
  blocked task keeps its context and its buffers. The context switch gives a task its registers back, after a call and
  after an interrupt, and the kernel its own in both cases. A trap finds the kernel function it is meant for, with its arguments. The
  servers: from start-up to shutdown each sends exactly the replies of an abstract service (a map of names, a
  sorted list of deadlines, two byte queues), for every sequence of messages that its
  clients may send. Delayed tasks wake after a bounded number of ticks, whatever is requested meanwhile, and not too early. The
  I/O server loses and reorders no byte between its clients and its notifiers; a request that finds no room in a
  buffer makes it panic at once. The
  two sides meet in the messages: what a client builds in memory is the typed message of the servers' model, the
  kernel delivers it and the answer as that model says, and every server answers in one type and, while it serves,
  waits for nothing but the next request.

  \<^bold>\<open>Bounds.\<close> 64 tasks, 64 priorities, 16 events, 256 names, 64 delayed tasks, and 127 bytes in a ring buffer
  of 128 are those of the source. That every delayed task wakes is proved for ticks that come before the exit message and as long as the
  32-bit tick counter does not wrap around (497 days at 100 ticks a second): at most 64 ticks after its deadline, because
  the server releases one task per tick (\<open>wake_bound\<close>). The other theorems about the clock server need no such bound. No
  definition runs on fuel: loops that may not end are partial functions.

  \<^bold>\<open>Not modelled.\<close> The task that runs between two kernel entries is the parameter \<open>activate\<close> of the main loop,
  which may change memory and the saved registers but not the kernel's own data: there is no memory protection, so this
  is an assumption about tasks (\<open>task_runs\<close>). The servers are verified against an environment that answers system
  calls (\<open>sys\<close>). That the kernel is such an environment is proved for one exchange of messages at a time, not for
  a run of all tasks at once. Caches, the Thumb state, the
  fast interrupt and the board's hardware behind its registers are left out; so are the build files and register constants that no code uses.
\<close>

end
